(* ===== verification/Firmware_Prelude.thy ===== *)
theory Firmware_Prelude
  imports Main "HOL-Library.Word" "HOL-Library.Monad_Syntax"
begin

text \<open>
  Shared vocabulary of the development: the fixed-width integers of the firmware, the
  wake-up messages of the kernel (\<^verbatim>\<open>chschd.h\<close>), the reading of a missing result, and the
  generic facts on lists, words and options that several components use.

  A function of the program that may fail to return has an \<open>option\<close> result: \<open>None\<close> says
  that control does not come back to the caller, because a debug check or assertion of the
  Debug build halts the system (\<^verbatim>\<open>chSysHalt\<close>), because the C code would leave the bounds of
  an object, or because a loop never ends.  A theorem that a call is \<open>Some\<close> therefore rules
  out all three.
\<close>

unbundle bit_operations_syntax

type_synonym u8 = "8 word"
type_synonym u16 = "16 word"
type_synonym u32 = "32 word"
type_synonym u64 = "64 word"

text \<open>Thread identifiers stand for \<^verbatim>\<open>thread_t *\<close>.\<close>

type_synonym tid = nat

text \<open>The wake-up messages of \<^verbatim>\<open>chschd.h\<close>: 0, -1 and -2.\<close>

datatype msg_t = MSG_OK | MSG_TIMEOUT | MSG_RESET

text \<open>A failed \<^verbatim>\<open>chDbgCheck\<close>, \<^verbatim>\<open>chDbgAssert\<close>, \<^verbatim>\<open>osalDbgCheck\<close> or \<^verbatim>\<open>osalDbgAssert\<close>
  halts the system (the build type of \<^verbatim>\<open>src/CMakeLists.txt\<close> is Debug, which enables them).\<close>

definition dbg_check :: "bool \<Rightarrow> unit option" where
  "dbg_check b = (if b then Some () else None)"

lemma dbg_check_True [simp]: "b \<Longrightarrow> dbg_check b = Some ()"
  by (simp add: dbg_check_def)

lemma dbg_check_False [simp]: "\<not> b \<Longrightarrow> dbg_check b = None"
  by (simp add: dbg_check_def)

lemma dbg_check_eq_Some [simp]: "dbg_check b = Some u \<longleftrightarrow> b"
  by (simp add: dbg_check_def)

section \<open>Collections of facts\<close>

named_theorems bus_keeps \<open>driver operations keep the shared bus usable\<close>
named_theorems fw_defs \<open>definitions a component unfolds in its own proofs\<close>

section \<open>Byte arrays\<close>

text \<open>One store of the C code into an object of known size: \<open>None\<close> outside of it.\<close>

definition store8 :: "u8 list \<Rightarrow> nat \<Rightarrow> u8 \<Rightarrow> u8 list option" where
  "store8 m i b = (if i < length m then Some (m[i := b]) else None)"

definition load8 :: "u8 list \<Rightarrow> nat \<Rightarrow> u8 option" where
  "load8 m i = (if i < length m then Some (m ! i) else None)"

fun store_bytes :: "u8 list \<Rightarrow> nat \<Rightarrow> u8 list \<Rightarrow> u8 list option" where
  "store_bytes m i [] = Some m"
| "store_bytes m i (b # bs) = do { m' \<leftarrow> store8 m i b; store_bytes m' (Suc i) bs }"

lemma store8_in [simp]: "i < length m \<Longrightarrow> store8 m i b = Some (m[i := b])"
  by (simp add: store8_def)

lemma load8_in [simp]: "i < length m \<Longrightarrow> load8 m i = Some (m ! i)"
  by (simp add: load8_def)

lemma store8_out: "length m \<le> i \<Longrightarrow> store8 m i b = None"
  by (simp add: store8_def)

lemma store8_length: "store8 m i b = Some m' \<Longrightarrow> length m' = length m"
  by (auto simp: store8_def split: if_splits)

lemma store_bytes_length: "store_bytes m i bs = Some m' \<Longrightarrow> length m' = length m"
proof (induction m i bs rule: store_bytes.induct)
  case (1 m i)
  then show ?case by simp
next
  case (2 m i b bs)
  then show ?case by (auto simp: store8_def split: if_splits)
qed

lemma take_Suc_update:
  "i < length m \<Longrightarrow> take (Suc i) (m[i := b]) = take i m @ [b]"
  by (simp add: take_Suc_conv_app_nth)

lemma store_bytes_in:
  "i + length bs \<le> length m \<Longrightarrow>
   store_bytes m i bs = Some (take i m @ bs @ drop (i + length bs) m)"
proof (induction m i bs rule: store_bytes.induct)
  case (1 m i)
  then show ?case by simp
next
  case (2 m i b bs)
  then have "store_bytes (m[i := b]) (Suc i) bs
      = Some (take (Suc i) (m[i := b]) @ bs @ drop (Suc i + length bs) (m[i := b]))"
    by simp
  with 2 show ?case by (simp add: take_Suc_update)
qed

lemma store_bytes_out:
  "length m < i + length bs \<Longrightarrow> i \<le> length m \<Longrightarrow> store_bytes m i bs = None"
proof (induction m i bs rule: store_bytes.induct)
  case (1 m i)
  then show ?case by simp
next
  case (2 m i b bs)
  show ?case
  proof (cases "i < length m")
    case True
    with 2 show ?thesis by (simp add: store8_def)
  next
    case False
    then show ?thesis by (simp add: store8_def)
  qed
qed

section \<open>Bytes of words\<close>

lemma unat_word_of_nat32: "k < 2 ^ 32 \<Longrightarrow> unat (word_of_nat k :: u32) = k"
  by (simp add: unsigned_of_nat take_bit_nat_eq_self)

lemma unat_word_of_nat8: "k < 256 \<Longrightarrow> unat (word_of_nat k :: u8) = k"
  by (simp add: unsigned_of_nat take_bit_nat_eq_self)

lemma ucast8_word_of_nat32: "k < 2 ^ 32 \<Longrightarrow> (ucast (word_of_nat k :: u32) :: u8) = word_of_nat k"
  by (simp add: unsigned_of_nat take_bit_nat_eq_self)

text \<open>The four bytes of a 32-bit value, most significant first, and back.\<close>

definition be_bytes32 :: "u32 \<Rightarrow> u8 list" where
  "be_bytes32 w = [ucast (drop_bit 24 w), ucast (drop_bit 16 w), ucast (drop_bit 8 w), ucast w]"

definition be_word32 :: "u8 \<Rightarrow> u8 \<Rightarrow> u8 \<Rightarrow> u8 \<Rightarrow> u32" where
  "be_word32 a b c d =
     push_bit 24 (ucast a) OR push_bit 16 (ucast b) OR push_bit 8 (ucast c) OR ucast d"

lemma length_be_bytes32 [simp]: "length (be_bytes32 w) = 4"
  by (simp add: be_bytes32_def)

lemma be_word32_be_bytes32:
  "be_word32 (ucast (drop_bit 24 w)) (ucast (drop_bit 16 w)) (ucast (drop_bit 8 w)) (ucast w) = w"
  by (rule bit_word_eqI,
      auto simp: be_word32_def bit_simps less_diff_conv2 not_le not_less,
      (metis le_add_diff_inverse not_less)+)

text \<open>The two bytes of a 16-bit value in either order.\<close>

definition word16_of :: "u8 \<Rightarrow> u8 \<Rightarrow> u16" where
  "word16_of hi lo = push_bit 8 (ucast hi) OR ucast lo"

lemma word16_of_bytes: "word16_of (ucast (drop_bit 8 w)) (ucast w) = w"
  by (rule bit_word_eqI)
     (auto simp: word16_of_def bit_simps less_diff_conv2 not_le not_less)

lemma ucast_word16_of_lo: "ucast (word16_of hi lo) = (lo :: u8)"
  by (rule bit_word_eqI) (auto simp: word16_of_def bit_simps)

lemma ucast_word16_of_hi: "ucast (drop_bit 8 (word16_of hi lo)) = (hi :: u8)"
  by (rule bit_word_eqI) (auto simp: word16_of_def bit_simps dest: bit_imp_le_length)

section \<open>Exclusive-or checksums\<close>

definition xor_sum :: "u8 list \<Rightarrow> u8" where
  "xor_sum bs = foldl (XOR) 0 bs"

lemma foldl_xor: "foldl (XOR) (a :: u8) bs = a XOR foldl (XOR) 0 bs"
proof (induction bs arbitrary: a)
  case Nil
  then show ?case by simp
next
  case (Cons b bs)
  show ?case
    by (simp add: Cons.IH [of "a XOR b"] Cons.IH [of b] xor.assoc)
qed

lemma xor_sum_simps [simp]:
  "xor_sum [] = 0"
  "xor_sum (b # bs) = b XOR xor_sum bs"
  "xor_sum (as @ bs) = xor_sum as XOR xor_sum bs"
  by (simp_all add: xor_sum_def foldl_xor [of b] foldl_xor [of "foldl (XOR) 0 as"])

lemma xor_sum_update:
  "i < length bs \<Longrightarrow> xor_sum (bs[i := b]) = xor_sum bs XOR (bs ! i) XOR b"
proof (induction bs arbitrary: i)
  case Nil
  then show ?case by simp
next
  case (Cons c bs)
  then show ?case
    by (cases i) (simp_all add: xor.assoc xor.left_commute xor.commute)
qed

end
