(* ===== verification/Msp.thy ===== *)
theory Msp
  imports Firmware_Prelude
begin

text \<open>
  The message object of the transmit pool (\<^verbatim>\<open>threads/pools.h\<close>) and the frame builder
  \<^verbatim>\<open>MSP__createMspFrame\<close> (\<^verbatim>\<open>drivers/msp.c\<close>), with a receiver written from the frame
  layout as its specification.  A \<^verbatim>\<open>poolStreamObject_t\<close> is its 24 bytes of memory: the
  23 bytes of \<^verbatim>\<open>message\<close> and, right behind them, the byte \<^verbatim>\<open>size\<close>; the builder
  addresses it through a byte pointer, so a store at offset 23 hits \<^verbatim>\<open>size\<close> and one at
  offset 24 leaves the object (\<open>None\<close>).
\<close>

section \<open>The code\<close>

definition STREAM_MESSAGE_SIZE :: nat where "STREAM_MESSAGE_SIZE = 23"

definition HC12_HW_ID_OFFSET :: u8 where "HC12_HW_ID_OFFSET = 0"

type_synonym poolStreamObject_t = "u8 list"

definition stream_object :: "poolStreamObject_t \<Rightarrow> bool" where
  "stream_object m \<longleftrightarrow> length m = STREAM_MESSAGE_SIZE + 1"

definition obj_size :: "poolStreamObject_t \<Rightarrow> u8" where
  "obj_size m = m ! STREAM_MESSAGE_SIZE"

text \<open>The bytes the radio thread transmits: \<^verbatim>\<open>size\<close> bytes from \<^verbatim>\<open>message\<close>.\<close>

definition obj_payload :: "poolStreamObject_t \<Rightarrow> u8 list" where
  "obj_payload m = take (unat (obj_size m)) m"

text \<open>The loop over the arguments: \<open>n\<close> rounds are left, \<open>p\<close> is the write pointer.\<close>

fun msp_args :: "nat \<Rightarrow> u32 list \<Rightarrow> u8 list \<Rightarrow> nat \<Rightarrow> u8 \<Rightarrow> (u8 list \<times> nat \<times> u8) option" where
  "msp_args 0 argv m p crc = Some (m, p, crc)"
| "msp_args (Suc n) [] m p crc = None"
| "msp_args (Suc n) (a # argv) m p crc = do {
     let b3 = (ucast (drop_bit 24 a) :: u8);
     m \<leftarrow> store8 m p b3;
     let crc = crc XOR b3; let p = p + 1;
     let b2 = (ucast (drop_bit 16 a) :: u8);
     m \<leftarrow> store8 m p b2;
     let crc = crc XOR b2; let p = p + 1;
     let b1 = (ucast (drop_bit 8 a) :: u8);
     m \<leftarrow> store8 m p b1;
     let crc = crc XOR b1; let p = p + 1;
     let b0 = (ucast a :: u8);
     m \<leftarrow> store8 m p b0;
     let crc = crc XOR b0; let p = p + 1;
     msp_args n argv m p crc
   }"

definition MSP__createMspFrame ::
    "poolStreamObject_t \<Rightarrow> u8 \<Rightarrow> u32 \<Rightarrow> u32 list \<Rightarrow> poolStreamObject_t option" where
  "MSP__createMspFrame streamObject cmd argc argv = do {
     m \<leftarrow> store_bytes streamObject 0 [36, 77, 60];
     m \<leftarrow> store8 m STREAM_MESSAGE_SIZE (ucast (6 + argc * 4));
     let cmd = HC12_HW_ID_OFFSET + cmd;
     let crc = cmd XOR ucast (argc * 4);
     let p = 3;
     m \<leftarrow> store8 m p (ucast (argc * 4));
     let p = p + 1;
     m \<leftarrow> store8 m p cmd;
     let p = p + 1;
     (m, p, crc) \<leftarrow> msp_args (unat argc) argv m p crc;
     store8 m p crc
   }"

section \<open>The frame format\<close>

definition msp_body :: "u8 \<Rightarrow> u32 list \<Rightarrow> u8 list" where
  "msp_body cmd args = word_of_nat (4 * length args) # cmd # concat (map be_bytes32 args)"

definition msp_frame :: "u8 \<Rightarrow> u32 list \<Rightarrow> u8 list" where
  "msp_frame cmd args = [36, 77, 60] @ msp_body cmd args @ [xor_sum (msp_body cmd args)]"

fun words_of :: "u8 list \<Rightarrow> u32 list option" where
  "words_of [] = Some []"
| "words_of (a # b # c # d # bs) = map_option (Cons (be_word32 a b c d)) (words_of bs)"
| "words_of _ = None"

text \<open>A receiver: it checks the header, the length byte and the checksum, and returns the
  sender's number and the values.\<close>

definition msp_receive :: "u8 list \<Rightarrow> (u8 \<times> u32 list) option" where
  "msp_receive bs = (case bs of
     h0 # h1 # h2 # n # cmd # rest \<Rightarrow>
       (if h0 = 36 \<and> h1 = 77 \<and> h2 = 60 \<and> length rest = unat n + 1
           \<and> xor_sum (n # cmd # butlast rest) = last rest
        then map_option (Pair cmd) (words_of (butlast rest)) else None)
   | _ \<Rightarrow> None)"

section \<open>Correctness\<close>

lemma length_concat_be_bytes32 [simp]:
  "length (concat (map be_bytes32 args)) = 4 * length args"
  by (induction args) simp_all

lemma length_msp_frame: "length (msp_frame cmd args) = 6 + 4 * length args"
  by (simp add: msp_frame_def msp_body_def)

lemma words_of_concat: "words_of (concat (map be_bytes32 args)) = Some args"
proof (induction args)
  case Nil
  then show ?case by simp
next
  case (Cons a args)
  then show ?case
    by (simp add: be_bytes32_def be_word32_be_bytes32)
qed

text \<open>One round of the loop stores the four bytes of an argument and adds them to the checksum.\<close>

lemma msp_args_round:
  "msp_args (Suc n) (a # argv) m p crc = do {
     m' \<leftarrow> store_bytes m p (be_bytes32 a);
     msp_args n argv m' (p + 4) (crc XOR xor_sum (be_bytes32 a)) }"
proof -
  have p4: "Suc (Suc (Suc (Suc p))) = p + 4" by simp
  show ?thesis
    by (simp add: be_bytes32_def Let_def xor.assoc p4)
qed

lemma msp_args_fits:
  "n \<le> length argv \<Longrightarrow> p + 4 * n \<le> length m \<Longrightarrow>
   msp_args n argv m p crc =
     Some (take p m @ concat (map be_bytes32 (take n argv)) @ drop (p + 4 * n) m,
           p + 4 * n, crc XOR xor_sum (concat (map be_bytes32 (take n argv))))"
proof (induction n arbitrary: argv m p crc)
  case 0
  then show ?case by simp
next
  case (Suc n)
  then obtain a as where argv: "argv = a # as" by (cases argv) auto
  let ?m = "take p m @ be_bytes32 a @ drop (p + 4) m"
  from Suc.prems have st: "store_bytes m p (be_bytes32 a) = Some ?m"
    by (simp add: store_bytes_in)
  have "msp_args n as ?m (p + 4) (crc XOR xor_sum (be_bytes32 a)) =
     Some (take (p + 4) ?m @ concat (map be_bytes32 (take n as)) @ drop (p + 4 + 4 * n) ?m,
           p + 4 + 4 * n,
           (crc XOR xor_sum (be_bytes32 a)) XOR xor_sum (concat (map be_bytes32 (take n as))))"
    using Suc.prems argv by (intro Suc.IH) auto
  with st argv Suc.prems show ?case
    by (simp add: msp_args_round xor.assoc add_ac del: msp_args.simps)
qed

lemma msp_args_length: "msp_args n argv m p crc = Some (m', p', crc') \<Longrightarrow> length m' = length m"
proof (induction n arbitrary: argv m p crc)
  case 0
  then show ?case by simp
next
  case (Suc n)
  show ?case
  proof (cases argv)
    case Nil
    with Suc.prems show ?thesis by simp
  next
    case (Cons a as)
    with Suc.prems obtain m1 where "store_bytes m p (be_bytes32 a) = Some m1"
      "msp_args n as m1 (p + 4) (crc XOR xor_sum (be_bytes32 a)) = Some (m', p', crc')"
      unfolding Cons msp_args_round by (auto split: bind_splits)
    then show ?thesis using Suc.IH store_bytes_length by metis
  qed
qed

lemma createMspFrame_length:
  "MSP__createMspFrame obj cmd argc argv = Some obj' \<Longrightarrow> length obj' = length obj"
  unfolding MSP__createMspFrame_def
  by (auto split: bind_splits simp: Let_def simp del: store_bytes.simps
      dest!: store8_length store_bytes_length msp_args_length)

text \<open>What the builder leaves in the object: the frame, then the old bytes, then the size.\<close>

lemma createMspFrame_eq:
  assumes obj: "length obj = 24" and n: "length argv = n" "n \<le> 4"
    and nb: "nb = (word_of_nat (4 * n) :: u8)" and sz: "sz = word_of_nat (6 + 4 * n)"
  shows "MSP__createMspFrame obj cmd (word_of_nat n) argv =
    Some (msp_frame cmd argv @ drop (6 + 4 * n) (obj[23 := sz]))"
proof -
  obtain a b c d e r where split: "obj = a # b # c # d # e # r" and r: "length r = 19"
    using obj by (auto simp: numeral_eq_Suc length_Suc_conv)
  let ?m = "[36, 77, 60, nb, cmd] @ r[18 := sz]"
  let ?payload = "concat (map be_bytes32 argv)"
  have words: "unat (word_of_nat n :: u32) = n" "(ucast (word_of_nat n * 4 :: u32) :: u8) = nb"
    "(ucast (6 + word_of_nat n * 4 :: u32) :: u8) = sz"
    using n unat_word_of_nat32 [of n] ucast8_word_of_nat32 [of "4 * n"]
      ucast8_word_of_nat32 [of "6 + 4 * n"] nb sz
    by (simp_all add: mult.commute)
  have body: "MSP__createMspFrame obj cmd (word_of_nat n) argv = do {
     (m, p, crc) \<leftarrow> msp_args n argv ?m 5 (cmd XOR nb);
     store8 m p crc }"
    using r words by (simp add: split MSP__createMspFrame_def
        STREAM_MESSAGE_SIZE_def HC12_HW_ID_OFFSET_def Let_def eval_nat_numeral)
  have drop5: "drop (5 + 4 * n) ?m = drop (4 * n) (r[18 := sz])"
    by (simp add: eval_nat_numeral)
  have loop: "msp_args n argv ?m 5 crc =
      Some ([36, 77, 60, nb, cmd] @ ?payload @ drop (4 * n) (r[18 := sz]),
            5 + 4 * n, crc XOR xor_sum ?payload)" for crc
    using msp_args_fits [of n argv 5 ?m crc] n r drop5 by simp
  have last: "drop (4 * n) (r[18 := sz]) = (r[18 := sz]) ! (4 * n) # drop (Suc (4 * n)) (r[18 := sz])"
    using n r by (intro Cons_nth_drop_Suc [symmetric]) simp
  have obj23: "drop (6 + 4 * n) (obj[23 := sz]) = drop (Suc (4 * n)) (r[18 := sz])"
    by (simp add: split eval_nat_numeral)
  have st: "store8 (xs @ y # ys) (length xs) z = Some (xs @ z # ys)" for xs ys and y z :: u8
    by (simp add: store8_def)
  have "store8 ([36, 77, 60, nb, cmd] @ ?payload @ drop (4 * n) (r[18 := sz])) (5 + 4 * n) z =
        Some ([36, 77, 60, nb, cmd] @ ?payload @ z # drop (Suc (4 * n)) (r[18 := sz]))" for z
    using st [of "[36, 77, 60, nb, cmd] @ ?payload"] n last by simp
  moreover have "msp_frame cmd argv = [36, 77, 60, nb, cmd] @ ?payload @ [(cmd XOR nb) XOR xor_sum ?payload]"
    unfolding msp_frame_def msp_body_def n(1) nb by (simp add: xor.assoc xor.left_commute xor.commute)
  ultimately show ?thesis
    unfolding body loop obj23 by simp
qed

lemma createMspFrame_object:
  assumes "stream_object obj" and "length argv \<le> 4"
  obtains obj' where "MSP__createMspFrame obj cmd (word_of_nat (length argv)) argv = Some obj'"
    and "stream_object obj'" and "obj_payload obj' = msp_frame cmd argv"
proof -
  let ?n = "length argv"
  obtain sz :: u8 where sz: "sz = word_of_nat (6 + 4 * ?n)" by blast
  let ?r = "msp_frame cmd argv @ drop (6 + 4 * ?n) (obj[23 := sz])"
  from assms have len: "length obj = 24" by (simp add: stream_object_def STREAM_MESSAGE_SIZE_def)
  have "?r ! 23 = sz"
    using assms(2) len by (simp add: nth_append length_msp_frame)
  then have "unat (obj_size ?r) = 6 + 4 * ?n"
    using unat_word_of_nat8 [of "6 + 4 * ?n"] assms(2) sz
    by (simp only: obj_size_def STREAM_MESSAGE_SIZE_def)
  then have "obj_payload ?r = msp_frame cmd argv"
    by (simp add: obj_payload_def length_msp_frame)
  moreover have "stream_object ?r"
    using assms(2) len by (simp add: stream_object_def STREAM_MESSAGE_SIZE_def length_msp_frame)
  ultimately show ?thesis
    using that createMspFrame_eq [OF len refl assms(2) refl sz] by blast
qed

lemma msp_receive_frame:
  assumes "length argv \<le> 4"
  shows "msp_receive (msp_frame cmd argv) = Some (cmd, argv)"
proof -
  obtain nb :: u8 where nb: "nb = word_of_nat (4 * length argv)" by blast
  have "unat nb = 4 * length argv"
    using unat_word_of_nat8 [of "4 * length argv"] assms nb by simp
  then show ?thesis
    unfolding msp_receive_def msp_frame_def msp_body_def nb [symmetric]
    by (simp add: words_of_concat)
qed

text \<open>
  C3.  For up to four values the frame builder succeeds on every message object, keeps the
  object's size, and a receiver that gets the \<^verbatim>\<open>size\<close> bytes the radio thread sends
  decodes exactly the sender's number and the values: no measurement is altered between the
  sensor thread and the other end of the link.
\<close>

theorem createMspFrame_roundtrip:
  assumes "stream_object obj" and "unat argc = length argv" and "length argv \<le> 4"
  shows "\<exists>obj'. MSP__createMspFrame obj cmd argc argv = Some obj' \<and> stream_object obj'
           \<and> msp_receive (obj_payload obj') = Some (cmd, argv)"
proof -
  have argc: "argc = word_of_nat (length argv)"
    using assms(2) by (metis of_nat_unat ucast_id)
  show ?thesis
    using createMspFrame_object [OF assms(1,3), of cmd] msp_receive_frame [OF assms(3)]
    unfolding argc by metis
qed

theorem createMspFrame_roundtrip_witness:
  "\<exists>obj'. MSP__createMspFrame (replicate 24 0) 4 3 [1231, 412, 1] = Some obj' \<and> stream_object obj'
     \<and> msp_receive (obj_payload obj') = Some (4, [1231, 412, 1])"
  by (rule createMspFrame_roundtrip) (simp_all add: stream_object_def STREAM_MESSAGE_SIZE_def)

lemma msp_args_overflow:
  "length m < p + 4 * n \<Longrightarrow> p \<le> length m \<Longrightarrow> msp_args n argv m p crc = None"
proof (induction n arbitrary: argv m p crc)
  case 0
  then show ?case by simp
next
  case (Suc n)
  show ?case
  proof (cases argv)
    case Nil
    then show ?thesis by simp
  next
    case (Cons a as)
    show ?thesis
    proof (cases "p + 4 \<le> length m")
      case True
      with Suc show ?thesis
        by (simp add: Cons msp_args_round store_bytes_in del: msp_args.simps)
    next
      case False
      with Suc.prems show ?thesis
        by (simp add: Cons msp_args_round store_bytes_out del: msp_args.simps)
    qed
  qed
qed

text \<open>
  Four values is the exact limit of the object: a fifth one makes the builder write
  behind the 24 bytes of the object (or read behind the values).
\<close>

theorem createMspFrame_limit:
  assumes "stream_object obj" and "5 \<le> unat argc"
  shows "MSP__createMspFrame obj cmd argc argv = None"
proof -
  have "length obj = 24" using assms(1) by (simp add: stream_object_def STREAM_MESSAGE_SIZE_def)
  with assms(2) show ?thesis
    by (simp add: MSP__createMspFrame_def STREAM_MESSAGE_SIZE_def store_bytes_in Let_def
        msp_args_overflow)
qed

theorem createMspFrame_limit_witness:
  "MSP__createMspFrame (replicate 24 0) 4 5 [1, 2, 3, 4, 5] = None"
  by (rule createMspFrame_limit) (simp_all add: stream_object_def STREAM_MESSAGE_SIZE_def)

lemma msp_receive_checks:
  assumes "msp_receive bs = Some r"
  shows "take 3 bs = [36, 77, 60]" and "length bs = 6 + unat (bs ! 3)" and "xor_sum (drop 3 bs) = 0"
proof -
  obtain n cmd rest where bs: "bs = 36 # 77 # 60 # n # cmd # rest"
    and len: "length rest = unat n + 1" and crc: "xor_sum (n # cmd # butlast rest) = last rest"
    using assms by (auto simp: msp_receive_def split: list.splits if_splits)
  have "xor_sum rest = xor_sum (butlast rest) XOR last rest"
    using len xor_sum_simps(3) [of "butlast rest" "[last rest]"] by (cases "rest = []") auto
  with crc have "xor_sum (n # cmd # rest) = 0"
    by (simp add: xor.assoc [symmetric])
  then show "take 3 bs = [36, 77, 60]" and "length bs = 6 + unat (bs ! 3)" and "xor_sum (drop 3 bs) = 0"
    using len by (simp_all add: bs eval_nat_numeral)
qed

lemma msp_frame_corrupted:
  assumes "length argv \<le> 4" and "i < length (msp_frame cmd argv)" and "b \<noteq> msp_frame cmd argv ! i"
  shows "msp_receive ((msp_frame cmd argv)[i := b]) = None"
proof (rule ccontr)
  let ?f = "msp_frame cmd argv"
  assume "\<not> ?thesis"
  then obtain r where r: "msp_receive (?f[i := b]) = Some r" by auto
  note bad = msp_receive_checks [OF r]
  note good = msp_receive_checks [OF msp_receive_frame [OF assms(1)], of cmd]
  have "take 3 (?f[i := b]) = (take 3 ?f)[i := b]" by (simp add: take_update_swap)
  with bad(1) good(1) assms(2,3) have "3 \<le> i"
    by (metis (no_types, lifting) length_list_update nth_list_update_eq nth_take not_le length_take min_less_iff_conj)
  moreover have "i \<noteq> 3"
    using bad(2) good(2) assms(2,3) by (metis length_list_update nth_list_update_eq add_left_cancel word_unat_eq_iff)
  ultimately have "3 < i" by simp
  have "drop 3 (?f[i := b]) = (drop 3 ?f)[i - 3 := b]"
    using \<open>3 \<le> i\<close> by (simp add: drop_update_swap)
  then have "xor_sum (drop 3 ?f) XOR (?f ! i) XOR b = 0"
    using bad(3) \<open>3 \<le> i\<close> assms(2) xor_sum_update [of "i - 3" "drop 3 ?f" b] by simp
  with good(3) have "?f ! i XOR b = 0" by simp
  then have "?f ! i = b" by (metis xor.assoc xor.right_neutral xor_self_eq)
  with assms(3) show False by simp
qed

text \<open>
  C15.  The checksum and the length byte the builder writes protect everything the radio sends:
  if any one byte of a transmitted object is changed on the way, the receiver rejects the
  frame instead of delivering a wrong measurement.
\<close>

theorem createMspFrame_single_byte_error:
  assumes "stream_object obj" and "unat argc = length argv" and "length argv \<le> 4"
  shows "\<exists>obj'. MSP__createMspFrame obj cmd argc argv = Some obj' \<and>
    (\<forall>i b. i < length (obj_payload obj') \<longrightarrow> b \<noteq> obj_payload obj' ! i \<longrightarrow>
       msp_receive ((obj_payload obj')[i := b]) = None)"
proof -
  have argc: "argc = word_of_nat (length argv)"
    using assms(2) by (metis of_nat_unat ucast_id)
  show ?thesis
    using createMspFrame_object [OF assms(1,3), of cmd] msp_frame_corrupted [OF assms(3)]
    unfolding argc by metis
qed

theorem createMspFrame_single_byte_error_witness:
  "\<exists>obj'. MSP__createMspFrame (replicate 24 0) 4 3 [1231, 412, 1] = Some obj' \<and>
    (\<forall>i b. i < length (obj_payload obj') \<longrightarrow> b \<noteq> obj_payload obj' ! i \<longrightarrow>
       msp_receive ((obj_payload obj')[i := b]) = None)"
  by (rule createMspFrame_single_byte_error) (simp_all add: stream_object_def STREAM_MESSAGE_SIZE_def)

end
