(* ===== verification/Ch_Time.thy ===== *)
theory Ch_Time
  imports Firmware_Prelude
begin

text \<open>
  Time arithmetic of the kernel (\<^verbatim>\<open>os/rt/include/chtime.h\<close>) at the firmware's
  configuration (\<^verbatim>\<open>cfg/chconf.h\<close>): a 16-bit system time that wraps every 65.5 seconds,
  32-bit intervals, one tick per millisecond, conversions in 64 bits.
\<close>

section \<open>The code\<close>

type_synonym systime_t = u16
type_synonym sysinterval_t = u32
type_synonym systimestamp_t = u64
type_synonym time_conv_t = u64

definition CH_CFG_ST_FREQUENCY :: nat where "CH_CFG_ST_FREQUENCY = 1000"

definition TIME_IMMEDIATE :: sysinterval_t where "TIME_IMMEDIATE = 0"
definition TIME_INFINITE :: sysinterval_t where "TIME_INFINITE = - 1"
definition TIME_MAX_INTERVAL :: sysinterval_t where "TIME_MAX_INTERVAL = - 2"
definition TIME_MAX_SYSTIME :: systime_t where "TIME_MAX_SYSTIME = - 1"

text \<open>The unchecked macros the application uses.\<close>

definition TIME_S2I :: "u32 \<Rightarrow> sysinterval_t" where
  "TIME_S2I secs = ucast (ucast secs * word_of_nat CH_CFG_ST_FREQUENCY :: time_conv_t)"

definition TIME_MS2I :: "u32 \<Rightarrow> sysinterval_t" where
  "TIME_MS2I msecs =
     ucast ((ucast msecs * word_of_nat CH_CFG_ST_FREQUENCY + 999) div 1000 :: time_conv_t)"

definition TIME_US2I :: "u32 \<Rightarrow> sysinterval_t" where
  "TIME_US2I usecs =
     ucast ((ucast usecs * word_of_nat CH_CFG_ST_FREQUENCY + 999999) div 1000000 :: time_conv_t)"

definition TIME_I2S :: "sysinterval_t \<Rightarrow> u32" where
  "TIME_I2S interval =
     ucast ((ucast interval + word_of_nat CH_CFG_ST_FREQUENCY - 1)
            div word_of_nat CH_CFG_ST_FREQUENCY :: time_conv_t)"

definition TIME_I2MS :: "sysinterval_t \<Rightarrow> u32" where
  "TIME_I2MS interval =
     ucast ((ucast interval * 1000 + word_of_nat CH_CFG_ST_FREQUENCY - 1)
            div word_of_nat CH_CFG_ST_FREQUENCY :: time_conv_t)"

definition TIME_I2US :: "sysinterval_t \<Rightarrow> u32" where
  "TIME_I2US interval =
     ucast ((ucast interval * 1000000 + word_of_nat CH_CFG_ST_FREQUENCY - 1)
            div word_of_nat CH_CFG_ST_FREQUENCY :: time_conv_t)"

text \<open>The checked conversions.\<close>

definition chTimeS2I :: "u32 \<Rightarrow> sysinterval_t option" where
  "chTimeS2I secs = do {
     let ticks = (ucast secs * word_of_nat CH_CFG_ST_FREQUENCY :: time_conv_t);
     _ \<leftarrow> dbg_check (ticks \<le> ucast TIME_MAX_INTERVAL);
     Some (ucast ticks) }"

definition chTimeMS2I :: "u32 \<Rightarrow> sysinterval_t option" where
  "chTimeMS2I msec = do {
     let ticks = ((ucast msec * word_of_nat CH_CFG_ST_FREQUENCY + 999) div 1000 :: time_conv_t);
     _ \<leftarrow> dbg_check (ticks \<le> ucast TIME_MAX_INTERVAL);
     Some (ucast ticks) }"

definition chTimeUS2I :: "u32 \<Rightarrow> sysinterval_t option" where
  "chTimeUS2I usec = do {
     let ticks = ((ucast usec * word_of_nat CH_CFG_ST_FREQUENCY + 999999) div 1000000 :: time_conv_t);
     _ \<leftarrow> dbg_check (ticks \<le> ucast TIME_MAX_INTERVAL);
     Some (ucast ticks) }"

definition chTimeI2S :: "sysinterval_t \<Rightarrow> u32 option" where
  "chTimeI2S interval = do {
     let secs = ((ucast interval + word_of_nat CH_CFG_ST_FREQUENCY - 1)
                 div word_of_nat CH_CFG_ST_FREQUENCY :: time_conv_t);
     _ \<leftarrow> dbg_check (secs < ucast (- 1 :: u32));
     Some (ucast secs) }"

definition chTimeI2MS :: "sysinterval_t \<Rightarrow> u32 option" where
  "chTimeI2MS interval = do {
     let msecs = ((ucast interval * 1000 + word_of_nat CH_CFG_ST_FREQUENCY - 1)
                  div word_of_nat CH_CFG_ST_FREQUENCY :: time_conv_t);
     _ \<leftarrow> dbg_check (msecs < ucast (- 1 :: u32));
     Some (ucast msecs) }"

definition chTimeI2US :: "sysinterval_t \<Rightarrow> u32 option" where
  "chTimeI2US interval = do {
     let usecs = ((ucast interval * 1000000 + word_of_nat CH_CFG_ST_FREQUENCY - 1)
                  div word_of_nat CH_CFG_ST_FREQUENCY :: time_conv_t);
     _ \<leftarrow> dbg_check (usecs \<le> ucast (- 1 :: u32));
     Some (ucast usecs) }"

definition chTimeTS2S :: "systimestamp_t \<Rightarrow> u32 option" where
  "chTimeTS2S interval = do {
     let secs = (interval + word_of_nat CH_CFG_ST_FREQUENCY - 1) div word_of_nat CH_CFG_ST_FREQUENCY;
     _ \<leftarrow> dbg_check (secs < ucast (- 1 :: u32));
     Some (ucast secs) }"

definition chTimeTS2MS :: "systimestamp_t \<Rightarrow> u32 option" where
  "chTimeTS2MS interval = do {
     let msecs = (interval * 1000 + word_of_nat CH_CFG_ST_FREQUENCY - 1)
                 div word_of_nat CH_CFG_ST_FREQUENCY;
     _ \<leftarrow> dbg_check (msecs < ucast (- 1 :: u32));
     Some (ucast msecs) }"

definition chTimeTS2US :: "systimestamp_t \<Rightarrow> u32 option" where
  "chTimeTS2US interval = do {
     let usecs = (interval * 1000000 + word_of_nat CH_CFG_ST_FREQUENCY - 1)
                 div word_of_nat CH_CFG_ST_FREQUENCY;
     _ \<leftarrow> dbg_check (usecs < ucast (- 1 :: u32));
     Some (ucast usecs) }"

definition chTSSecMS :: "systimestamp_t \<Rightarrow> u32" where
  "chTSSecMS interval =
     ucast (interval div (word_of_nat CH_CFG_ST_FREQUENCY div 1000) mod 1000)"

definition chTimeAddX :: "systime_t \<Rightarrow> sysinterval_t \<Rightarrow> systime_t option" where
  "chTimeAddX systime interval = do {
     _ \<leftarrow> dbg_check (interval \<le> ucast TIME_MAX_SYSTIME);
     Some (systime + ucast interval) }"

definition chTimeDiffX :: "systime_t \<Rightarrow> systime_t \<Rightarrow> sysinterval_t" where
  "chTimeDiffX start end = ucast (end - start)"

definition chTimeIsInRangeX :: "systime_t \<Rightarrow> systime_t \<Rightarrow> systime_t \<Rightarrow> bool" where
  "chTimeIsInRangeX time start end \<longleftrightarrow> time - start < end - start"

section \<open>Conversions\<close>

text \<open>The 64-bit intermediate value never wraps.\<close>

lemma unat_conv:
  fixes x :: u32
  assumes "c \<le> 10 ^ 9" "d \<le> 10 ^ 9"
  shows "unat (ucast x * word_of_nat c + word_of_nat d :: u64) = unat x * c + d"
proof -
  have x: "unat x < 2 ^ 32" using unsigned_less [of x] by simp
  have "unat x * c + d < 2 ^ 64"
    using mult_mono [of "unat x" "2 ^ 32" c "10 ^ 9"] x assms by simp
  moreover have "(ucast x * word_of_nat c + word_of_nat d :: u64) = word_of_nat (unat x * c + d)"
    by simp
  ultimately show ?thesis by (simp add: unsigned_of_nat take_bit_nat_eq_self del: of_nat_add of_nat_mult)
qed

lemma unat_u32_bound: "unat (x :: u32) < 4294967296"
  using unsigned_less [of x] by simp

lemma unat_ucast_small:
  fixes w :: u64
  shows "unat w < 2 ^ 32 \<Longrightarrow> unat (ucast w :: u32) = unat w"
  by (simp add: unsigned_ucast_eq take_bit_nat_eq_self)

lemma unat_ucast_max32 [simp]: "unat (ucast (- 1 :: u32) :: u64) = 4294967295"
  by (simp add: unsigned_ucast_eq unsigned_minus_1_eq_mask mask_eq_exp_minus_1)

lemma chTimeS2I_iff:
  "chTimeS2I s = Some i \<longleftrightarrow> unat i = unat s * 1000 \<and> unat i \<le> 4294967294"
proof -
  define w where "w = (ucast s * word_of_nat CH_CFG_ST_FREQUENCY :: u64)"
  have w: "unat w = unat s * 1000"
    using unat_conv [of 1000 0 s] by (simp add: w_def CH_CFG_ST_FREQUENCY_def)
  have "chTimeS2I s = (if unat w \<le> 4294967294 then Some (ucast w) else None)"
    by (simp add: chTimeS2I_def w_def [symmetric] TIME_MAX_INTERVAL_def word_le_nat_alt dbg_check_def)
  with w show ?thesis
    by (auto simp: unat_ucast_small word_unat_eq_iff)
qed

lemma chTimeMS2I_iff:
  "chTimeMS2I s = Some i \<longleftrightarrow> i = s \<and> unat i \<le> 4294967294"
proof -
  define w where "w = ((ucast s * word_of_nat CH_CFG_ST_FREQUENCY + 999) div 1000 :: u64)"
  have w: "unat w = unat s"
    using unat_conv [of 1000 999 s] by (simp add: w_def CH_CFG_ST_FREQUENCY_def unat_div_distrib)
  have "chTimeMS2I s = (if unat w \<le> 4294967294 then Some (ucast w) else None)"
    by (simp add: chTimeMS2I_def w_def [symmetric] TIME_MAX_INTERVAL_def word_le_nat_alt dbg_check_def)
  with w show ?thesis
    using unat_u32_bound [of s] by (auto simp: unat_ucast_small word_unat_eq_iff)
qed

lemma chTimeUS2I_Some:
  "chTimeUS2I u = Some (word_of_nat ((unat u + 999) div 1000))"
proof -
  define w where "w = ((ucast u * word_of_nat CH_CFG_ST_FREQUENCY + 999999) div 1000000 :: u64)"
  have "(unat u * 1000 + 999999) div 1000000 = (unat u + 999) div 1000"
    by (simp flip: div_mult2_eq [of _ 1000 1000, simplified]) 
  then have w: "unat w = (unat u + 999) div 1000"
    using unat_conv [of 1000 999999 u]
    by (simp add: w_def CH_CFG_ST_FREQUENCY_def unat_div_distrib)
  have "chTimeUS2I u = (if unat w \<le> 4294967294 then Some (ucast w) else None)"
    by (simp add: chTimeUS2I_def w_def [symmetric] TIME_MAX_INTERVAL_def word_le_nat_alt dbg_check_def)
  with w show ?thesis
    using unat_u32_bound [of u]
    by (auto simp: unat_ucast_small word_unat_eq_iff unsigned_of_nat take_bit_nat_eq_self)
qed

lemma chTimeI2S_Some:
  "chTimeI2S i = Some (word_of_nat ((unat i + 999) div 1000))"
proof -
  define w where "w = ((ucast i + word_of_nat CH_CFG_ST_FREQUENCY - 1) div word_of_nat CH_CFG_ST_FREQUENCY :: u64)"
  have "w = (ucast i + 999) div 1000"
    by (simp add: w_def CH_CFG_ST_FREQUENCY_def add.commute)
  then have w: "unat w = (unat i + 999) div 1000"
    using unat_conv [of 1 999 i] by (simp add: unat_div_distrib)
  have "chTimeI2S i = (if unat w < 4294967295 then Some (ucast w) else None)"
    by (simp add: chTimeI2S_def w_def [symmetric] word_less_nat_alt dbg_check_def)
  with w show ?thesis
    using unat_u32_bound [of i]
    by (auto simp: unat_ucast_small word_unat_eq_iff unsigned_of_nat take_bit_nat_eq_self)
qed

lemma chTimeI2MS_iff:
  "chTimeI2MS i = Some s \<longleftrightarrow> s = i \<and> unat s < 4294967295"
proof -
  define w where "w = ((ucast i * 1000 + word_of_nat CH_CFG_ST_FREQUENCY - 1) div word_of_nat CH_CFG_ST_FREQUENCY :: u64)"
  have "w = (ucast i * 1000 + 999) div 1000"
    by (simp add: w_def CH_CFG_ST_FREQUENCY_def add.commute)
  then have w: "unat w = unat i"
    using unat_conv [of 1000 999 i] by (simp add: unat_div_distrib)
  have "chTimeI2MS i = (if unat w < 4294967295 then Some (ucast w) else None)"
    by (simp add: chTimeI2MS_def w_def [symmetric] word_less_nat_alt dbg_check_def)
  with w show ?thesis
    using unat_u32_bound [of i] by (auto simp: unat_ucast_small word_unat_eq_iff)
qed

section \<open>Wrapping system time\<close>

lemma ucast32_16:
  fixes i :: u32
  shows "unat i \<le> 65535 \<Longrightarrow> ucast (ucast i :: u16) = i"
proof -
  assume "unat i \<le> 65535"
  then have "unat (ucast i :: u16) = unat i" by (simp add: unsigned_ucast_eq take_bit_nat_eq_self)
  then have "unat (ucast (ucast i :: u16) :: u32) = unat i"
    using unat_u32_bound [of i] by (simp add: unsigned_ucast_eq [of "ucast i :: u16"] take_bit_nat_eq_self)
  then show ?thesis by (simp only: word_unat_eq_iff)
qed

lemma chTimeAddX_iff:
  "chTimeAddX t i = Some t' \<longleftrightarrow> unat i \<le> 65535 \<and> t' = t + ucast i"
proof -
  have "unat (ucast (- 1 :: u16) :: u32) = 65535" by (simp add: unsigned_ucast_eq unsigned_minus_1_eq_mask mask_eq_exp_minus_1)
  then show ?thesis
    by (auto simp: chTimeAddX_def TIME_MAX_SYSTIME_def word_le_nat_alt dbg_check_def split: if_splits)
qed

lemma chTimeDiffX_le: "unat (chTimeDiffX s e) \<le> 65535"
proof -
  have "unat (e - s) < 65536" using unsigned_less [of "e - s"] by simp
  then show ?thesis by (simp add: chTimeDiffX_def unsigned_ucast_eq take_bit_nat_eq_self)
qed

text \<open>
  C23.  An interval of up to 65535 ticks survives the wrap-around of the 16-bit clock: adding
  it to any system time and measuring the distance gives it back, the instants reached
  before it has elapsed are exactly those \<^verbatim>\<open>chTimeIsInRangeX\<close> accepts, and a longer
  interval never passes the check.
\<close>

theorem chTime_wrap:
  "(case chTimeAddX t i of
      None \<Rightarrow> 65535 < unat i
    | Some t' \<Rightarrow> chTimeDiffX t t' = i \<and>
        (\<forall>k. chTimeIsInRangeX (t + word_of_nat k) t t' \<longleftrightarrow> k mod 65536 < unat i))"
proof (cases "unat i \<le> 65535")
  case True
  then have "ucast (ucast i :: u16) = i" by (rule ucast32_16)
  moreover have "unat (ucast i :: u16) = unat i"
    using True by (simp add: unsigned_ucast_eq take_bit_nat_eq_self)
  moreover have "unat (word_of_nat k :: u16) = k mod 65536" for k
    by (simp add: unsigned_of_nat take_bit_eq_mod)
  ultimately show ?thesis
    using True chTimeAddX_iff [of t i "t + ucast i"]
    by (simp add: chTimeDiffX_def chTimeIsInRangeX_def word_less_nat_alt)
next
  case False
  then have "chTimeAddX t i = None" using chTimeAddX_iff by (metis not_None_eq)
  with False show ?thesis by simp
qed

text \<open>
  The checked conversions are exact: whole seconds and milliseconds become ticks without
  any loss and come back unchanged, and a value that does not fit the 32-bit interval is
  stopped by the assertion instead of being wrapped.
\<close>

theorem chTime_conversions:
  "(case chTimeS2I n of
      None \<Rightarrow> 4294967294 < unat n * 1000
    | Some i \<Rightarrow> unat i = unat n * 1000 \<and> chTimeI2S i = Some n) \<and>
   (case chTimeMS2I n of
      None \<Rightarrow> 4294967294 < unat n
    | Some i \<Rightarrow> i = n \<and> chTimeI2MS i = Some n)"
proof
  show "case chTimeS2I n of None \<Rightarrow> 4294967294 < unat n * 1000
    | Some i \<Rightarrow> unat i = unat n * 1000 \<and> chTimeI2S i = Some n"
  proof (cases "chTimeS2I n")
    case None
    with chTimeS2I_iff [of n "word_of_nat (unat n * 1000)"] show ?thesis
      using unat_word_of_nat32 [of "unat n * 1000"] by (cases "unat n * 1000 \<le> 4294967294") auto
  next
    case (Some i)
    then have "unat i = unat n * 1000" by (simp add: chTimeS2I_iff)
    with Some show ?thesis by (simp add: chTimeI2S_Some)
  qed
  show "case chTimeMS2I n of None \<Rightarrow> 4294967294 < unat n
    | Some i \<Rightarrow> i = n \<and> chTimeI2MS i = Some n"
  proof -
    have "chTimeMS2I n = (if unat n \<le> 4294967294 then Some n else None)"
      using chTimeMS2I_iff [of n] by (cases "chTimeMS2I n") auto
    then show ?thesis
      using chTimeI2MS_iff [of n n] by auto
  qed
qed

section \<open>Milliseconds are ticks\<close>

lemma TIME_MS2I_id: "n < 4294967296 \<Longrightarrow> TIME_MS2I (word_of_nat n) = word_of_nat n"
proof -
  assume n: "n < 4294967296"
  define w where "w = ((ucast (word_of_nat n :: u32) * word_of_nat CH_CFG_ST_FREQUENCY + 999) div 1000 :: u64)"
  have "unat w = n"
    using unat_conv [of 1000 999 "word_of_nat n"] n
    by (simp add: w_def CH_CFG_ST_FREQUENCY_def unat_div_distrib unat_word_of_nat32)
  moreover have "TIME_MS2I (word_of_nat n) = ucast w" by (simp add: TIME_MS2I_def w_def)
  ultimately show ?thesis
    using n by (simp add: word_unat_eq_iff unat_ucast_small unat_word_of_nat32)
qed

lemma add_1000: "chTimeAddX t (TIME_MS2I 1000) = Some (t + 1000)"
  using TIME_MS2I_id [of 1000] by (simp add: chTimeAddX_iff)

end
