(* ===== verification/Ch_Threads.thy ===== *)
theory Ch_Threads
  imports Ch_Time
begin

text \<open>
  The kernel's queues of waiting threads (\<^verbatim>\<open>threads_queue_t\<close>, \<^verbatim>\<open>os/rt/src/chthreads.c\<close>)
  and the shape of a blocking call.  A queue is the list of its threads, first waiter first.

  Kernel calls run with the system locked, so a call is one step of the model.  A call that
  may sleep ends in \<open>Sleep\<close>, with the caller queued, or in \<open>Return\<close>, with its result, the
  object it changed and the threads it made ready with their wake-up message.  The part of a
  blocking function behind the sleep is a definition of its own, named with \<open>_resume\<close>, that
  takes the message the sleeper was woken with.  \<^verbatim>\<open>chSchRescheduleS\<close> switches to a thread that
  became ready and does not change the object.
\<close>

type_synonym wakeups = "(tid \<times> msg_t) list"

datatype ('s, 'r) call = Return 'r 's wakeups | Sleep 's

type_synonym threads_queue_t = "tid list"

definition chThdDoDequeueNextI :: "threads_queue_t \<Rightarrow> msg_t \<Rightarrow> (threads_queue_t \<times> wakeups) option" where
  "chThdDoDequeueNextI q msg = (case q of [] \<Rightarrow> None | t # ts \<Rightarrow> Some (ts, [(t, msg)]))"

definition chThdDequeueNextI :: "threads_queue_t \<Rightarrow> msg_t \<Rightarrow> threads_queue_t \<times> wakeups" where
  "chThdDequeueNextI q msg =
     (case chThdDoDequeueNextI q msg of None \<Rightarrow> (q, []) | Some r \<Rightarrow> r)"

fun chThdDequeueAllI :: "threads_queue_t \<Rightarrow> msg_t \<Rightarrow> threads_queue_t \<times> wakeups" where
  "chThdDequeueAllI [] msg = ([], [])"
| "chThdDequeueAllI (t # ts) msg = (let (q, w) = chThdDequeueAllI ts msg in (q, (t, msg) # w))"

text \<open>With \<^verbatim>\<open>TIME_IMMEDIATE\<close> the caller is not queued and gets \<^verbatim>\<open>MSG_TIMEOUT\<close> (\<open>None\<close>).\<close>

definition chThdEnqueueTimeoutS :: "tid \<Rightarrow> threads_queue_t \<Rightarrow> sysinterval_t \<Rightarrow> threads_queue_t option" where
  "chThdEnqueueTimeoutS self q timeout =
     (if timeout = TIME_IMMEDIATE then None else Some (q @ [self]))"

text \<open>A sleeper whose timer expires leaves the queue it is in (\<^verbatim>\<open>__sch_wakeup\<close>).\<close>

definition dequeue_thread :: "tid \<Rightarrow> threads_queue_t \<Rightarrow> threads_queue_t" where
  "dequeue_thread t q = filter (\<lambda>u. u \<noteq> t) q"

lemma chThdDequeueNextI_simps [simp]:
  "chThdDequeueNextI [] msg = ([], [])"
  "chThdDequeueNextI (t # ts) msg = (ts, [(t, msg)])"
  by (simp_all add: chThdDequeueNextI_def chThdDoDequeueNextI_def)

lemma chThdDequeueAllI_eq [simp]: "chThdDequeueAllI q msg = ([], map (\<lambda>t. (t, msg)) q)"
  by (induction q) simp_all

end
