(* ===== verification/Ch_Mailbox.thy ===== *)
theory Ch_Mailbox
  imports Ch_Threads
begin

text \<open>
  Mailboxes (\<^verbatim>\<open>os/oslib/src/chmboxes.c\<close>, \<^verbatim>\<open>os/oslib/include/chmboxes.h\<close>): a ring buffer
  with two queues of waiting threads.  The pointers of the structure are indices into
  \<^verbatim>\<open>buffer\<close>; an access outside of it gives \<open>None\<close>.  \<^verbatim>\<open>size_t\<close> arithmetic is modulo $2^{32}$.
  The ring is abstracted to the list of the messages it holds, and the interface
  \<open>bounded_fifo\<close> is what the rest of the development uses of it.
\<close>

section \<open>The code\<close>

record 'm mailbox_t =
  buffer :: "'m list"
  top :: nat
  wrptr :: nat
  rdptr :: nat
  cnt :: nat
  reset :: bool
  qw :: threads_queue_t
  qr :: threads_queue_t

definition MAILBOX_DATA :: "'m list \<Rightarrow> nat \<Rightarrow> 'm mailbox_t" where
  "MAILBOX_DATA buf n =
     \<lparr>buffer = buf, top = n, wrptr = 0, rdptr = 0, cnt = 0, reset = False, qw = [], qr = []\<rparr>"

definition chMBObjectInit :: "'m list \<Rightarrow> nat \<Rightarrow> 'm mailbox_t option" where
  "chMBObjectInit buf n = do {
     _ \<leftarrow> dbg_check (0 < n);
     Some \<lparr>buffer = buf, top = n, wrptr = 0, rdptr = 0, cnt = 0, reset = False, qw = [], qr = []\<rparr> }"

definition chMBGetSizeI :: "'m mailbox_t \<Rightarrow> nat" where
  "chMBGetSizeI mb = top mb"

definition chMBGetUsedCountI :: "'m mailbox_t \<Rightarrow> nat" where
  "chMBGetUsedCountI mb = cnt mb"

definition chMBGetFreeCountI :: "'m mailbox_t \<Rightarrow> nat" where
  "chMBGetFreeCountI mb = (chMBGetSizeI mb + 2 ^ 32 - chMBGetUsedCountI mb) mod 2 ^ 32"

definition chMBPeekI :: "'m mailbox_t \<Rightarrow> 'm option" where
  "chMBPeekI mb = (if rdptr mb < length (buffer mb) then Some (buffer mb ! rdptr mb) else None)"

definition chMBResumeX :: "'m mailbox_t \<Rightarrow> 'm mailbox_t" where
  "chMBResumeX mb = mb\<lparr>reset := False\<rparr>"

definition chMBResetI :: "'m mailbox_t \<Rightarrow> 'm mailbox_t \<times> wakeups" where
  "chMBResetI mb =
     (let mb = mb\<lparr>wrptr := 0, rdptr := 0, cnt := 0, reset := True\<rparr>;
          (q, w) = chThdDequeueAllI (qw mb) MSG_RESET;
          (q', w') = chThdDequeueAllI (qr mb) MSG_RESET
      in (mb\<lparr>qw := q, qr := q'\<rparr>, w @ w'))"

definition chMBReset :: "'m mailbox_t \<Rightarrow> 'm mailbox_t \<times> wakeups" where
  "chMBReset mb = chMBResetI mb"

text \<open>\<^verbatim>\<open>*mbp->wrptr++ = msg\<close>, the wrap-around, the count and the wake-up of one reader.\<close>

definition mb_put :: "'m mailbox_t \<Rightarrow> 'm \<Rightarrow> ('m mailbox_t \<times> wakeups) option" where
  "mb_put mb msg =
     (if wrptr mb < length (buffer mb) then
        (let mb = mb\<lparr>buffer := (buffer mb)[wrptr mb := msg], wrptr := wrptr mb + 1\<rparr>;
             mb = (if top mb \<le> wrptr mb then mb\<lparr>wrptr := 0\<rparr> else mb);
             mb = mb\<lparr>cnt := (cnt mb + 1) mod 2 ^ 32\<rparr>;
             (q, w) = chThdDequeueNextI (qr mb) MSG_OK
         in Some (mb\<lparr>qr := q\<rparr>, w))
      else None)"

definition mb_put_ahead :: "'m mailbox_t \<Rightarrow> 'm \<Rightarrow> ('m mailbox_t \<times> wakeups) option" where
  "mb_put_ahead mb msg =
     (let mb = (if rdptr mb = 0 then mb\<lparr>rdptr := top mb - 1\<rparr> else mb\<lparr>rdptr := rdptr mb - 1\<rparr>)
      in if rdptr mb < length (buffer mb) then
        (let mb = mb\<lparr>buffer := (buffer mb)[rdptr mb := msg]\<rparr>;
             mb = mb\<lparr>cnt := (cnt mb + 1) mod 2 ^ 32\<rparr>;
             (q, w) = chThdDequeueNextI (qr mb) MSG_OK
         in Some (mb\<lparr>qr := q\<rparr>, w))
      else None)"

definition mb_get :: "'m mailbox_t \<Rightarrow> ('m \<times> 'm mailbox_t \<times> wakeups) option" where
  "mb_get mb =
     (if rdptr mb < length (buffer mb) then
        (let msg = buffer mb ! rdptr mb;
             mb = mb\<lparr>rdptr := rdptr mb + 1\<rparr>;
             mb = (if top mb \<le> rdptr mb then mb\<lparr>rdptr := 0\<rparr> else mb);
             mb = mb\<lparr>cnt := (cnt mb + 2 ^ 32 - 1) mod 2 ^ 32\<rparr>;
             (q, w) = chThdDequeueNextI (qw mb) MSG_OK
         in Some (msg, mb\<lparr>qw := q\<rparr>, w))
      else None)"

definition chMBPostI :: "'m mailbox_t \<Rightarrow> 'm \<Rightarrow> (msg_t \<times> 'm mailbox_t \<times> wakeups) option" where
  "chMBPostI mb msg =
     (if reset mb then Some (MSG_RESET, mb, [])
      else if 0 < chMBGetFreeCountI mb then
        do { (mb, w) \<leftarrow> mb_put mb msg; Some (MSG_OK, mb, w) }
      else Some (MSG_TIMEOUT, mb, []))"

definition chMBPostAheadI :: "'m mailbox_t \<Rightarrow> 'm \<Rightarrow> (msg_t \<times> 'm mailbox_t \<times> wakeups) option" where
  "chMBPostAheadI mb msg =
     (if reset mb then Some (MSG_RESET, mb, [])
      else if 0 < chMBGetFreeCountI mb then
        do { (mb, w) \<leftarrow> mb_put_ahead mb msg; Some (MSG_OK, mb, w) }
      else Some (MSG_TIMEOUT, mb, []))"

text \<open>A fetch writes \<^verbatim>\<open>*msgp\<close> only when it returns \<^verbatim>\<open>MSG_OK\<close>.\<close>

definition chMBFetchI :: "'m mailbox_t \<Rightarrow> ((msg_t \<times> 'm option) \<times> 'm mailbox_t \<times> wakeups) option" where
  "chMBFetchI mb =
     (if reset mb then Some ((MSG_RESET, None), mb, [])
      else if 0 < chMBGetUsedCountI mb then
        do { (m, mb, w) \<leftarrow> mb_get mb; Some ((MSG_OK, Some m), mb, w) }
      else Some ((MSG_TIMEOUT, None), mb, []))"

text \<open>The blocking variants: one round of their loop, and what follows the sleep.\<close>

definition chMBPostTimeoutS ::
    "tid \<Rightarrow> 'm mailbox_t \<Rightarrow> 'm \<Rightarrow> sysinterval_t \<Rightarrow> ('m mailbox_t, msg_t) call option" where
  "chMBPostTimeoutS self mb msg timeout =
     (if reset mb then Some (Return MSG_RESET mb [])
      else if 0 < chMBGetFreeCountI mb then
        do { (mb, w) \<leftarrow> mb_put mb msg; Some (Return MSG_OK mb w) }
      else (case chThdEnqueueTimeoutS self (qw mb) timeout of
              None \<Rightarrow> Some (Return MSG_TIMEOUT mb [])
            | Some q \<Rightarrow> Some (Sleep (mb\<lparr>qw := q\<rparr>))))"

definition chMBPostTimeoutS_resume ::
    "tid \<Rightarrow> 'm mailbox_t \<Rightarrow> 'm \<Rightarrow> sysinterval_t \<Rightarrow> msg_t \<Rightarrow> ('m mailbox_t, msg_t) call option" where
  "chMBPostTimeoutS_resume self mb msg timeout rdymsg =
     (if rdymsg = MSG_OK then chMBPostTimeoutS self mb msg timeout
      else Some (Return rdymsg mb []))"

definition chMBPostAheadTimeoutS ::
    "tid \<Rightarrow> 'm mailbox_t \<Rightarrow> 'm \<Rightarrow> sysinterval_t \<Rightarrow> ('m mailbox_t, msg_t) call option" where
  "chMBPostAheadTimeoutS self mb msg timeout =
     (if reset mb then Some (Return MSG_RESET mb [])
      else if 0 < chMBGetFreeCountI mb then
        do { (mb, w) \<leftarrow> mb_put_ahead mb msg; Some (Return MSG_OK mb w) }
      else (case chThdEnqueueTimeoutS self (qw mb) timeout of
              None \<Rightarrow> Some (Return MSG_TIMEOUT mb [])
            | Some q \<Rightarrow> Some (Sleep (mb\<lparr>qw := q\<rparr>))))"

definition chMBPostAheadTimeoutS_resume ::
    "tid \<Rightarrow> 'm mailbox_t \<Rightarrow> 'm \<Rightarrow> sysinterval_t \<Rightarrow> msg_t \<Rightarrow> ('m mailbox_t, msg_t) call option" where
  "chMBPostAheadTimeoutS_resume self mb msg timeout rdymsg =
     (if rdymsg = MSG_OK then chMBPostAheadTimeoutS self mb msg timeout
      else Some (Return rdymsg mb []))"

definition chMBFetchTimeoutS ::
    "tid \<Rightarrow> 'm mailbox_t \<Rightarrow> sysinterval_t \<Rightarrow> ('m mailbox_t, msg_t \<times> 'm option) call option" where
  "chMBFetchTimeoutS self mb timeout =
     (if reset mb then Some (Return (MSG_RESET, None) mb [])
      else if 0 < chMBGetUsedCountI mb then
        do { (m, mb, w) \<leftarrow> mb_get mb; Some (Return (MSG_OK, Some m) mb w) }
      else (case chThdEnqueueTimeoutS self (qr mb) timeout of
              None \<Rightarrow> Some (Return (MSG_TIMEOUT, None) mb [])
            | Some q \<Rightarrow> Some (Sleep (mb\<lparr>qr := q\<rparr>))))"

definition chMBFetchTimeoutS_resume ::
    "tid \<Rightarrow> 'm mailbox_t \<Rightarrow> sysinterval_t \<Rightarrow> msg_t \<Rightarrow> ('m mailbox_t, msg_t \<times> 'm option) call option" where
  "chMBFetchTimeoutS_resume self mb timeout rdymsg =
     (if rdymsg = MSG_OK then chMBFetchTimeoutS self mb timeout
      else Some (Return (rdymsg, None) mb []))"

text \<open>The API functions lock the system around the S-class ones.\<close>

definition chMBPostTimeout ::
    "tid \<Rightarrow> 'm mailbox_t \<Rightarrow> 'm \<Rightarrow> sysinterval_t \<Rightarrow> ('m mailbox_t, msg_t) call option" where
  "chMBPostTimeout self mb msg timeout = chMBPostTimeoutS self mb msg timeout"

definition chMBPostAheadTimeout ::
    "tid \<Rightarrow> 'm mailbox_t \<Rightarrow> 'm \<Rightarrow> sysinterval_t \<Rightarrow> ('m mailbox_t, msg_t) call option" where
  "chMBPostAheadTimeout self mb msg timeout = chMBPostAheadTimeoutS self mb msg timeout"

definition chMBFetchTimeout ::
    "tid \<Rightarrow> 'm mailbox_t \<Rightarrow> sysinterval_t \<Rightarrow> ('m mailbox_t, msg_t \<times> 'm option) call option" where
  "chMBFetchTimeout self mb timeout = chMBFetchTimeoutS self mb timeout"

section \<open>The ring as a list\<close>

definition mb_inv :: "'m mailbox_t \<Rightarrow> bool" where
  "mb_inv mb \<longleftrightarrow> length (buffer mb) = top mb \<and> 0 < top mb \<and> top mb < 2 ^ 32
     \<and> rdptr mb < top mb \<and> cnt mb \<le> top mb \<and> wrptr mb = (rdptr mb + cnt mb) mod top mb"

definition mb_items :: "'m mailbox_t \<Rightarrow> 'm list" where
  "mb_items mb = map (\<lambda>i. buffer mb ! ((rdptr mb + i) mod top mb)) [0..<cnt mb]"

lemma length_mb_items [simp]: "length (mb_items mb) = cnt mb"
  by (simp add: mb_items_def)

lemma ring_index: "r < n \<Longrightarrow> i \<le> n \<Longrightarrow> (r + i) mod n = (if r + i < n then r + i else r + i - n)" for n :: nat
  by (simp add: mod_if)

lemma ring_next: "r < n \<Longrightarrow> Suc r mod n = (if n \<le> Suc r then 0 else Suc r)" for n :: nat
  by (auto simp: le_Suc_eq)

lemma size_t_dec: "0 < c \<Longrightarrow> c < 4294967296 \<Longrightarrow> (4294967295 + c) mod 4294967296 = c - 1" for c :: nat
  by (cases c) simp_all

lemma ring_distinct: "r < n \<Longrightarrow> i < j \<Longrightarrow> j < n \<Longrightarrow> (r + i) mod n \<noteq> (r + j) mod n" for n :: nat
  by (auto simp: ring_index)

lemma freeCount_pos: "mb_inv mb \<Longrightarrow> 0 < chMBGetFreeCountI mb \<longleftrightarrow> cnt mb < top mb"
proof -
  assume inv: "mb_inv mb"
  then have "(top mb + 2 ^ 32 - cnt mb) mod 2 ^ 32 = top mb - cnt mb"
    by (auto simp: mb_inv_def mod_if)
  then show ?thesis
    by (simp add: chMBGetFreeCountI_def chMBGetSizeI_def chMBGetUsedCountI_def)
qed

definition next_wake :: "threads_queue_t \<Rightarrow> wakeups" where
  "next_wake q = map (\<lambda>t. (t, MSG_OK)) (take 1 q)"

lemma dequeueNext_eq: "chThdDequeueNextI q MSG_OK = (tl q, next_wake q)"
  by (cases q) (simp_all add: next_wake_def)

lemma mb_put_spec:
  assumes inv: "mb_inv mb" and room: "cnt mb < top mb"
  obtains mb' where "mb_put mb m = Some (mb', next_wake (qr mb))" and "mb_inv mb'"
    and "mb_items mb' = mb_items mb @ [m]" and "top mb' = top mb" and "reset mb' = reset mb"
    and "qr mb' = tl (qr mb)" and "qw mb' = qw mb"
proof -
  let ?w = "wrptr mb" and ?n = "top mb" and ?r = "rdptr mb"
  let ?mb = "mb\<lparr>buffer := (buffer mb)[?w := m], wrptr := (?w + 1) mod ?n,
                cnt := cnt mb + 1, qr := tl (qr mb)\<rparr>"
  from inv have w: "?w < ?n" "?w = (?r + cnt mb) mod ?n" and r: "?r < ?n" and len: "length (buffer mb) = ?n"
    and n: "?n < 2 ^ 32"
    by (auto simp: mb_inv_def)
  have "(cnt mb + 1) mod 2 ^ 32 = cnt mb + 1" using room n by simp
  then have "mb_put mb m = Some (?mb, next_wake (qr mb))"
    using w len by (auto simp: mb_put_def Let_def dequeueNext_eq ring_next)
  moreover have "mb_inv ?mb"
    using inv room w by (auto simp: mb_inv_def mod_Suc_eq)
  moreover have "mb_items ?mb = mb_items mb @ [m]"
  proof -
    have "?w \<noteq> (?r + i) mod ?n" if "i < cnt mb" for i
      using ring_distinct [OF r that room] w(2) by simp
    then show ?thesis
      using w(1) len by (auto simp: mb_items_def w(2) [symmetric])
  qed
  ultimately show ?thesis using that by auto
qed

lemma mb_put_ahead_spec:
  assumes inv: "mb_inv mb" and room: "cnt mb < top mb"
  obtains mb' where "mb_put_ahead mb m = Some (mb', next_wake (qr mb))" and "mb_inv mb'"
    and "mb_items mb' = m # mb_items mb" and "top mb' = top mb" and "reset mb' = reset mb"
    and "qr mb' = tl (qr mb)" and "qw mb' = qw mb"
proof -
  let ?n = "top mb" and ?r = "rdptr mb"
  define r' where "r' = (if ?r = 0 then ?n - 1 else ?r - 1)"
  let ?mb = "mb\<lparr>buffer := (buffer mb)[r' := m], rdptr := r', cnt := cnt mb + 1, qr := tl (qr mb)\<rparr>"
  from inv have r: "?r < ?n" and len: "length (buffer mb) = ?n" and n: "?n < 2 ^ 32" "0 < ?n"
    by (auto simp: mb_inv_def)
  then have r': "r' < ?n" by (auto simp: r'_def)
  have step: "(r' + Suc i) mod ?n = (?r + i) mod ?n" for i
    using n by (auto simp: r'_def)
  have "(cnt mb + 1) mod 2 ^ 32 = cnt mb + 1" using room n by simp
  then have "mb_put_ahead mb m = Some (?mb, next_wake (qr mb))"
    using r r' len by (auto simp: mb_put_ahead_def Let_def dequeueNext_eq r'_def)
  moreover have "mb_inv ?mb"
    using inv room r' step [of "cnt mb"] by (auto simp: mb_inv_def)
  moreover have "mb_items ?mb = m # mb_items mb"
  proof -
    have "r' \<noteq> (?r + i) mod ?n" if "i < cnt mb" for i
      using ring_distinct [OF r', of 0 "Suc i"] that room r' by (simp only: step) simp
    then show ?thesis
      using r' len by (intro nth_equalityI) (auto simp: mb_items_def nth_Cons step simp del: upt_Suc add_Suc_right split: nat.split)
  qed
  ultimately show ?thesis using that by auto
qed

lemma mb_get_spec:
  assumes inv: "mb_inv mb" and some: "0 < cnt mb"
  obtains m mb' where "mb_get mb = Some (m, mb', next_wake (qw mb))" and "mb_inv mb'"
    and "mb_items mb = m # mb_items mb'" and "top mb' = top mb" and "reset mb' = reset mb"
    and "qw mb' = tl (qw mb)" and "qr mb' = qr mb"
proof -
  let ?n = "top mb" and ?r = "rdptr mb"
  let ?mb = "mb\<lparr>rdptr := (?r + 1) mod ?n, cnt := cnt mb - 1, qw := tl (qw mb)\<rparr>"
  from inv have r: "?r < ?n" and len: "length (buffer mb) = ?n" and n: "?n < 2 ^ 32" "0 < ?n"
    and c: "cnt mb \<le> ?n"
    by (auto simp: mb_inv_def)
  have "(cnt mb + 2 ^ 32 - 1) mod 2 ^ 32 = cnt mb - 1" using some n c size_t_dec [of "cnt mb"] by simp
  then have "mb_get mb = Some (buffer mb ! ?r, ?mb, next_wake (qw mb))"
    using r len by (auto simp: mb_get_def Let_def dequeueNext_eq ring_next)
  moreover have step: "((?r + 1) mod ?n + i) mod ?n = (?r + Suc i) mod ?n" for i
    by (simp add: mod_simps)
  moreover have "mb_inv ?mb"
    using inv some step [of "cnt mb - 1"] by (auto simp: mb_inv_def)
  moreover have "mb_items mb = (buffer mb ! ?r) # mb_items ?mb"
  proof (rule nth_equalityI)
    show "length (mb_items mb) = length ((buffer mb ! ?r) # mb_items ?mb)" using some by simp
    fix i assume i: "i < length (mb_items mb)"
    show "mb_items mb ! i = ((buffer mb ! ?r) # mb_items ?mb) ! i"
    proof (cases i)
      case 0
      with some r show ?thesis by (simp add: mb_items_def)
    next
      case (Suc j)
      with i have "j < cnt mb - 1" by simp
      then have "mb_items ?mb ! j = buffer mb ! (((?r + 1) mod ?n + j) mod ?n)"
        by (simp add: mb_items_def)
      with i Suc step [of j] show ?thesis by (simp add: mb_items_def)
    qed
  qed
  ultimately show ?thesis using that by auto
qed

section \<open>Functional behaviour of the operations\<close>

lemma chMBPostI_room:
  assumes "mb_inv mb" "\<not> reset mb" "cnt mb < top mb"
  obtains mb' where "chMBPostI mb m = Some (MSG_OK, mb', next_wake (qr mb))" and "mb_inv mb'"
    and "mb_items mb' = mb_items mb @ [m]" and "top mb' = top mb" and "\<not> reset mb'"
proof -
  obtain mb' where "mb_put mb m = Some (mb', next_wake (qr mb))" "mb_inv mb'"
    "mb_items mb' = mb_items mb @ [m]" "top mb' = top mb" "reset mb' = reset mb"
    using mb_put_spec [OF assms(1,3)] by metis
  with assms show ?thesis
    by (intro that [of mb']) (simp_all add: chMBPostI_def freeCount_pos)
qed

lemma chMBPostAheadI_room:
  assumes "mb_inv mb" "\<not> reset mb" "cnt mb < top mb"
  obtains mb' where "chMBPostAheadI mb m = Some (MSG_OK, mb', next_wake (qr mb))" and "mb_inv mb'"
    and "mb_items mb' = m # mb_items mb" and "top mb' = top mb" and "\<not> reset mb'"
proof -
  obtain mb' where "mb_put_ahead mb m = Some (mb', next_wake (qr mb))" "mb_inv mb'"
    "mb_items mb' = m # mb_items mb" "top mb' = top mb" "reset mb' = reset mb"
    using mb_put_ahead_spec [OF assms(1,3)] by metis
  with assms show ?thesis
    by (intro that [of mb']) (simp_all add: chMBPostAheadI_def freeCount_pos)
qed

lemma chMBFetchI_some:
  assumes "mb_inv mb" "\<not> reset mb" "mb_items mb = m # ms"
  obtains mb' where "chMBFetchI mb = Some ((MSG_OK, Some m), mb', next_wake (qw mb))" and "mb_inv mb'"
    and "mb_items mb' = ms" and "top mb' = top mb" and "\<not> reset mb'"
proof -
  from assms(3) have "0 < cnt mb" by (metis length_mb_items length_greater_0_conv list.distinct(1))
  moreover from this obtain m' mb' where "mb_get mb = Some (m', mb', next_wake (qw mb))" "mb_inv mb'"
    "mb_items mb = m' # mb_items mb'" "top mb' = top mb" "reset mb' = reset mb"
    using mb_get_spec [OF assms(1)] by metis
  ultimately show ?thesis
    using assms by (intro that [of mb']) (simp_all add: chMBFetchI_def chMBGetUsedCountI_def)
qed

lemma cnt_le_top: "mb_inv mb \<Longrightarrow> cnt mb \<le> top mb"
  by (simp add: mb_inv_def)

lemma postI_full: "mb_inv mb \<Longrightarrow> \<not> reset mb \<Longrightarrow> cnt mb = top mb \<Longrightarrow>
    chMBPostI mb m = Some (MSG_TIMEOUT, mb, []) \<and> chMBPostAheadI mb m = Some (MSG_TIMEOUT, mb, [])"
  using freeCount_pos [of mb] by (simp add: chMBPostI_def chMBPostAheadI_def)

lemma fetchI_empty: "mb_items mb = [] \<Longrightarrow> \<not> reset mb \<Longrightarrow>
    chMBFetchI mb = Some ((MSG_TIMEOUT, None), mb, [])"
  by (metis chMBFetchI_def chMBGetUsedCountI_def length_mb_items list.size(3) less_numeral_extra(3))

text \<open>What a caller that does not wait sees of the API: with \<^verbatim>\<open>TIME_IMMEDIATE\<close> a call
  never sleeps and does what the I-class function does.\<close>

definition now :: "('s, 'r) call option \<Rightarrow> ('r \<times> 's) option" where
  "now c = (case c of Some (Return r s w) \<Rightarrow> Some (r, s) | _ \<Rightarrow> None)"

definition post_now :: "tid \<Rightarrow> 'm mailbox_t \<Rightarrow> 'm \<Rightarrow> (msg_t \<times> 'm mailbox_t) option" where
  "post_now self mb m = now (chMBPostTimeout self mb m TIME_IMMEDIATE)"

definition post_ahead_now :: "tid \<Rightarrow> 'm mailbox_t \<Rightarrow> 'm \<Rightarrow> (msg_t \<times> 'm mailbox_t) option" where
  "post_ahead_now self mb m = now (chMBPostAheadTimeout self mb m TIME_IMMEDIATE)"

definition fetch_now :: "tid \<Rightarrow> 'm mailbox_t \<Rightarrow> ((msg_t \<times> 'm option) \<times> 'm mailbox_t) option" where
  "fetch_now self mb = now (chMBFetchTimeout self mb TIME_IMMEDIATE)"

definition unwake :: "('r \<times> 's \<times> wakeups) option \<Rightarrow> ('r \<times> 's) option" where
  "unwake c = map_option (\<lambda>(r, s, w). (r, s)) c"

lemma immediate_calls:
  "post_now self mb m = unwake (chMBPostI mb m)"
  "post_ahead_now self mb m = unwake (chMBPostAheadI mb m)"
  "fetch_now self mb = unwake (chMBFetchI mb)"
  by (auto simp: post_now_def post_ahead_now_def fetch_now_def now_def unwake_def
      chMBPostTimeout_def chMBPostTimeoutS_def chMBPostI_def chMBPostAheadTimeout_def
      chMBPostAheadTimeoutS_def chMBPostAheadI_def chMBFetchTimeout_def chMBFetchTimeoutS_def
      chMBFetchI_def chThdEnqueueTimeoutS_def split: option.splits bind_split)

section \<open>The interface: a bounded queue\<close>

datatype 'm mb_op = Post 'm | PostAhead 'm | Fetch

fun run_mb ::
  "('q \<Rightarrow> 'm \<Rightarrow> (msg_t \<times> 'q) option) \<Rightarrow> ('q \<Rightarrow> 'm \<Rightarrow> (msg_t \<times> 'q) option) \<Rightarrow>
   ('q \<Rightarrow> ((msg_t \<times> 'm option) \<times> 'q) option) \<Rightarrow> 'm mb_op list \<Rightarrow> 'q \<Rightarrow>
   ((msg_t \<times> 'm option) list \<times> 'q) option" where
  "run_mb post ahead fetch [] q = Some ([], q)"
| "run_mb post ahead fetch (Post m # ops) q = do {
     (r, q) \<leftarrow> post q m; (rs, q) \<leftarrow> run_mb post ahead fetch ops q; Some ((r, None) # rs, q) }"
| "run_mb post ahead fetch (PostAhead m # ops) q = do {
     (r, q) \<leftarrow> ahead q m; (rs, q) \<leftarrow> run_mb post ahead fetch ops q; Some ((r, None) # rs, q) }"
| "run_mb post ahead fetch (Fetch # ops) q = do {
     (r, q) \<leftarrow> fetch q; (rs, q) \<leftarrow> run_mb post ahead fetch ops q; Some (r # rs, q) }"

text \<open>The reference: a list of at most \<open>n\<close> elements.\<close>

fun run_ref :: "nat \<Rightarrow> 'm mb_op list \<Rightarrow> 'm list \<Rightarrow> (msg_t \<times> 'm option) list \<times> 'm list" where
  "run_ref n [] xs = ([], xs)"
| "run_ref n (Post m # ops) xs =
     (if length xs < n then let (rs, ys) = run_ref n ops (xs @ [m]) in ((MSG_OK, None) # rs, ys)
      else let (rs, ys) = run_ref n ops xs in ((MSG_TIMEOUT, None) # rs, ys))"
| "run_ref n (PostAhead m # ops) xs =
     (if length xs < n then let (rs, ys) = run_ref n ops (m # xs) in ((MSG_OK, None) # rs, ys)
      else let (rs, ys) = run_ref n ops xs in ((MSG_TIMEOUT, None) # rs, ys))"
| "run_ref n (Fetch # ops) xs =
     (case xs of
        [] \<Rightarrow> let (rs, ys) = run_ref n ops [] in ((MSG_TIMEOUT, None) # rs, ys)
      | x # xs \<Rightarrow> let (rs, ys) = run_ref n ops xs in ((MSG_OK, Some x) # rs, ys))"

locale bounded_fifo =
  fixes inv :: "'q \<Rightarrow> bool" and items :: "'q \<Rightarrow> 'm list" and capacity :: "'q \<Rightarrow> nat"
    and post :: "'q \<Rightarrow> 'm \<Rightarrow> (msg_t \<times> 'q) option" and ahead :: "'q \<Rightarrow> 'm \<Rightarrow> (msg_t \<times> 'q) option"
    and fetch :: "'q \<Rightarrow> ((msg_t \<times> 'm option) \<times> 'q) option"
  assumes bounded: "inv q \<Longrightarrow> length (items q) \<le> capacity q"
    and post_room: "inv q \<Longrightarrow> length (items q) < capacity q \<Longrightarrow>
      \<exists>q'. post q m = Some (MSG_OK, q') \<and> inv q' \<and> items q' = items q @ [m] \<and> capacity q' = capacity q"
    and post_full: "inv q \<Longrightarrow> length (items q) = capacity q \<Longrightarrow> post q m = Some (MSG_TIMEOUT, q)"
    and ahead_room: "inv q \<Longrightarrow> length (items q) < capacity q \<Longrightarrow>
      \<exists>q'. ahead q m = Some (MSG_OK, q') \<and> inv q' \<and> items q' = m # items q \<and> capacity q' = capacity q"
    and ahead_full: "inv q \<Longrightarrow> length (items q) = capacity q \<Longrightarrow> ahead q m = Some (MSG_TIMEOUT, q)"
    and fetch_some: "inv q \<Longrightarrow> items q = m # ms \<Longrightarrow>
      \<exists>q'. fetch q = Some ((MSG_OK, Some m), q') \<and> inv q' \<and> items q' = ms \<and> capacity q' = capacity q"
    and fetch_none: "inv q \<Longrightarrow> items q = [] \<Longrightarrow> fetch q = Some ((MSG_TIMEOUT, None), q)"
begin

lemma post_cases:
  assumes "inv q"
  obtains (room) q' where "length (items q) < capacity q" "post q m = Some (MSG_OK, q')" "inv q'"
      "items q' = items q @ [m]" "capacity q' = capacity q"
    | (full) "\<not> length (items q) < capacity q" "post q m = Some (MSG_TIMEOUT, q)"
  using bounded [OF assms] post_room [OF assms, of m] post_full [OF assms, of m]
  by (cases "length (items q) < capacity q") auto

lemma ahead_cases:
  assumes "inv q"
  obtains (room) q' where "length (items q) < capacity q" "ahead q m = Some (MSG_OK, q')" "inv q'"
      "items q' = m # items q" "capacity q' = capacity q"
    | (full) "\<not> length (items q) < capacity q" "ahead q m = Some (MSG_TIMEOUT, q)"
  using bounded [OF assms] ahead_room [OF assms, of m] ahead_full [OF assms, of m]
  by (cases "length (items q) < capacity q") auto

lemma run_refines:
  "inv q \<Longrightarrow> \<exists>q'. run_mb post ahead fetch ops q = Some (fst (run_ref (capacity q) ops (items q)), q')
     \<and> inv q' \<and> capacity q' = capacity q \<and> items q' = snd (run_ref (capacity q) ops (items q))"
proof (induction ops arbitrary: q)
  case Nil
  then show ?case by simp
next
  case (Cons op ops)
  show ?case
  proof (cases op)
    case (Post m)
    from Cons.prems show ?thesis
      by (cases rule: post_cases [where m = m])
         (use Cons Post in \<open>fastforce simp: case_prod_beta Let_def\<close>)+
  next
    case (PostAhead m)
    from Cons.prems show ?thesis
      by (cases rule: ahead_cases [where m = m])
         (use Cons PostAhead in \<open>fastforce simp: case_prod_beta Let_def\<close>)+
  next
    case Fetch
    show ?thesis
    proof (cases "items q")
      case Nil
      then show ?thesis
        using Cons.IH [OF Cons.prems] fetch_none [OF Cons.prems Nil] Fetch
        by (auto simp: case_prod_beta Let_def)
    next
      case (Cons m ms)
      with fetch_some [OF Cons.prems this] Cons.IH Fetch show ?thesis
        by (fastforce simp: case_prod_beta Let_def)
    qed
  qed
qed

end

text \<open>The interface holds of the mailbox calls the application makes, for every caller.\<close>

definition mb_open :: "'m mailbox_t \<Rightarrow> bool" where
  "mb_open mb \<longleftrightarrow> mb_inv mb \<and> \<not> reset mb"

interpretation mbox: bounded_fifo mb_open mb_items top "post_now self" "post_ahead_now self" "fetch_now self"
  for self :: tid
proof
  fix q :: "'m mailbox_t" and m ms
  assume q: "mb_open q"
  then have inv: "mb_inv q" "\<not> reset q" by (simp_all add: mb_open_def)
  show "length (mb_items q) \<le> top q" using inv by (simp add: cnt_le_top)
  show "\<exists>q'. post_now self q m = Some (MSG_OK, q') \<and> mb_open q' \<and> mb_items q' = mb_items q @ [m] \<and> top q' = top q"
    if "length (mb_items q) < top q"
    by (rule chMBPostI_room [OF inv, of m])
       (use that in \<open>auto simp: immediate_calls unwake_def mb_open_def\<close>)
  show "\<exists>q'. post_ahead_now self q m = Some (MSG_OK, q') \<and> mb_open q' \<and> mb_items q' = m # mb_items q \<and> top q' = top q"
    if "length (mb_items q) < top q"
    by (rule chMBPostAheadI_room [OF inv, of m])
       (use that in \<open>auto simp: immediate_calls unwake_def mb_open_def\<close>)
  show "post_now self q m = Some (MSG_TIMEOUT, q)" "post_ahead_now self q m = Some (MSG_TIMEOUT, q)"
    if "length (mb_items q) = top q"
    using postI_full [OF inv] that by (simp_all add: immediate_calls unwake_def)
  show "\<exists>q'. fetch_now self q = Some ((MSG_OK, Some m), q') \<and> mb_open q' \<and> mb_items q' = ms \<and> top q' = top q"
    if "mb_items q = m # ms"
    by (rule chMBFetchI_some [OF inv that]) (auto simp: immediate_calls unwake_def mb_open_def)
  show "fetch_now self q = Some ((MSG_TIMEOUT, None), q)" if "mb_items q = []"
    using fetchI_empty [OF that inv(2)] by (simp add: immediate_calls unwake_def)
qed

section \<open>Waiting readers and writers\<close>

text \<open>
  A mailbox shared by any number of threads.  \<open>rp\<close> and \<open>wp\<close> hold the readers and writers
  that were woken with \<^verbatim>\<open>MSG_OK\<close> and have not run yet; a step is a call, the resumption of
  such a thread, the expiry of a sleeper's timer, a reset or its end.
\<close>

record 'm mb_sys =
  box :: "'m mailbox_t"
  rp :: "tid list"
  wp :: "tid list"

inductive mb_step :: "'m mb_sys \<Rightarrow> 'm mb_sys \<Rightarrow> bool" where
  post: "chMBPostTimeoutS t (box s) m timeout = Some (Return r b w) \<Longrightarrow>
    mb_step s (s\<lparr>box := b, rp := rp s @ map fst w\<rparr>)"
| post_sleep: "chMBPostTimeoutS t (box s) m timeout = Some (Sleep b) \<Longrightarrow>
    mb_step s (s\<lparr>box := b\<rparr>)"
| post_resumed: "t \<in> set (wp s) \<Longrightarrow>
    chMBPostTimeoutS_resume t (box s) m timeout MSG_OK = Some (Return r b w) \<Longrightarrow>
    mb_step s (s\<lparr>box := b, wp := remove1 t (wp s), rp := rp s @ map fst w\<rparr>)"
| post_resumed_sleep: "t \<in> set (wp s) \<Longrightarrow>
    chMBPostTimeoutS_resume t (box s) m timeout MSG_OK = Some (Sleep b) \<Longrightarrow>
    mb_step s (s\<lparr>box := b, wp := remove1 t (wp s)\<rparr>)"
| fetch: "chMBFetchTimeoutS t (box s) timeout = Some (Return r b w) \<Longrightarrow>
    mb_step s (s\<lparr>box := b, wp := wp s @ map fst w\<rparr>)"
| fetch_sleep: "chMBFetchTimeoutS t (box s) timeout = Some (Sleep b) \<Longrightarrow>
    mb_step s (s\<lparr>box := b\<rparr>)"
| fetch_resumed: "t \<in> set (rp s) \<Longrightarrow>
    chMBFetchTimeoutS_resume t (box s) timeout MSG_OK = Some (Return r b w) \<Longrightarrow>
    mb_step s (s\<lparr>box := b, rp := remove1 t (rp s), wp := wp s @ map fst w\<rparr>)"
| fetch_resumed_sleep: "t \<in> set (rp s) \<Longrightarrow>
    chMBFetchTimeoutS_resume t (box s) timeout MSG_OK = Some (Sleep b) \<Longrightarrow>
    mb_step s (s\<lparr>box := b, rp := remove1 t (rp s)\<rparr>)"
| reader_timeout: "mb_step s (s\<lparr>box := (box s)\<lparr>qr := dequeue_thread t (qr (box s))\<rparr>\<rparr>)"
| writer_timeout: "mb_step s (s\<lparr>box := (box s)\<lparr>qw := dequeue_thread t (qw (box s))\<rparr>\<rparr>)"
| reset_all: "mb_step s (s\<lparr>box := fst (chMBResetI (box s))\<rparr>)"
| resume_after_reset: "mb_step s (s\<lparr>box := chMBResumeX (box s)\<rparr>)"

definition mb_waits :: "'m mb_sys \<Rightarrow> bool" where
  "mb_waits s \<longleftrightarrow> mb_inv (box s) \<and>
     (reset (box s) \<longrightarrow> qr (box s) = [] \<and> qw (box s) = []) \<and>
     (qr (box s) \<noteq> [] \<longrightarrow> cnt (box s) \<le> length (rp s)) \<and>
     (qw (box s) \<noteq> [] \<longrightarrow> top (box s) - cnt (box s) \<le> length (wp s))"

text \<open>What a blocking call can end in, on every branch.\<close>

lemma postS_Return:
  assumes "chMBPostTimeoutS t mb m timeout = Some (Return r b w)" and inv: "mb_inv mb"
  obtains (put) "\<not> reset mb" "r = MSG_OK" "cnt mb < top mb" "mb_inv b" "cnt b = cnt mb + 1"
      "top b = top mb" "\<not> reset b" "qr b = tl (qr mb)" "qw b = qw mb" "w = next_wake (qr mb)"
      "mb_items b = mb_items mb @ [m]"
    | (not) "r \<noteq> MSG_OK" "b = mb" "w = []" "reset mb \<or> cnt mb = top mb"
proof (cases "\<not> reset mb \<and> cnt mb < top mb")
  case True
  with inv obtain mb' where put: "mb_put mb m = Some (mb', next_wake (qr mb))" "mb_inv mb'"
    "mb_items mb' = mb_items mb @ [m]" "top mb' = top mb" "reset mb' = reset mb"
    "qr mb' = tl (qr mb)" "qw mb' = qw mb"
    using mb_put_spec [of mb m] by metis
  then have "cnt mb' = cnt mb + 1"
    by (metis length_append_singleton length_mb_items Suc_eq_plus1)
  with put True assms show ?thesis
    by (intro that(1)) (auto simp: chMBPostTimeoutS_def freeCount_pos)
next
  case False
  with assms cnt_le_top [OF inv] show ?thesis
    by (intro that(2)) (auto simp: chMBPostTimeoutS_def freeCount_pos split: if_splits option.splits)
qed

lemma postS_Sleep:
  assumes "chMBPostTimeoutS t mb m timeout = Some (Sleep b)" and "mb_inv mb"
  shows "b = mb\<lparr>qw := qw mb @ [t]\<rparr> \<and> \<not> reset mb \<and> cnt mb = top mb"
  using assms cnt_le_top [of mb] freeCount_pos [of mb]
  by (auto simp: chMBPostTimeoutS_def chThdEnqueueTimeoutS_def split: if_splits option.splits bind_splits)

lemma fetchS_Return:
  assumes "chMBFetchTimeoutS t mb timeout = Some (Return r b w)" and inv: "mb_inv mb"
  obtains (got) m where "\<not> reset mb" "r = (MSG_OK, Some m)" "0 < cnt mb" "mb_inv b" "cnt b = cnt mb - 1"
      "top b = top mb" "\<not> reset b" "qw b = tl (qw mb)" "qr b = qr mb" "w = next_wake (qw mb)"
      "mb_items mb = m # mb_items b"
    | (not) "fst r \<noteq> MSG_OK" "b = mb" "w = []" "reset mb \<or> cnt mb = 0"
proof (cases "\<not> reset mb \<and> 0 < cnt mb")
  case True
  with inv obtain m mb' where got: "mb_get mb = Some (m, mb', next_wake (qw mb))" "mb_inv mb'"
    "mb_items mb = m # mb_items mb'" "top mb' = top mb" "reset mb' = reset mb"
    "qw mb' = tl (qw mb)" "qr mb' = qr mb"
    using mb_get_spec [of mb] by metis
  then have "cnt mb' = cnt mb - 1"
    by (metis length_Cons length_mb_items diff_Suc_1)
  with got True assms show ?thesis
    by (intro that(1)) (auto simp: chMBFetchTimeoutS_def chMBGetUsedCountI_def)
next
  case False
  with assms show ?thesis
    by (intro that(2)) (auto simp: chMBFetchTimeoutS_def chMBGetUsedCountI_def split: if_splits option.splits)
qed

lemma fetchS_Sleep:
  assumes "chMBFetchTimeoutS t mb timeout = Some (Sleep b)"
  shows "b = mb\<lparr>qr := qr mb @ [t]\<rparr> \<and> \<not> reset mb \<and> cnt mb = 0"
  using assms
  by (auto simp: chMBFetchTimeoutS_def chThdEnqueueTimeoutS_def chMBGetUsedCountI_def
      split: if_splits option.splits bind_splits)

lemma mb_inv_queues [simp]:
  "mb_inv (mb\<lparr>qr := q\<rparr>) = mb_inv mb" "mb_inv (mb\<lparr>qw := q\<rparr>) = mb_inv mb"
  "mb_inv (chMBResumeX mb) = mb_inv mb"
  by (simp_all add: mb_inv_def chMBResumeX_def)

lemma chMBResetI_props:
  "mb_inv mb \<Longrightarrow> mb_inv (fst (chMBResetI mb))" "reset (fst (chMBResetI mb))"
  "qr (fst (chMBResetI mb)) = []" "qw (fst (chMBResetI mb)) = []" "mb_items (fst (chMBResetI mb)) = []"
  by (auto simp: chMBResetI_def mb_inv_def mb_items_def)

lemma length_next_wake: "q \<noteq> [] \<Longrightarrow> length (map fst (next_wake q)) = 1"
  by (cases q) (simp_all add: next_wake_def)

lemma tl_waiting: "tl q \<noteq> [] \<Longrightarrow> q \<noteq> []"
  by (cases q) simp_all

lemma mb_step_waits:
  assumes "mb_step s s'" and "mb_waits s"
  shows "mb_waits s'"
  using assms
proof (induction rule: mb_step.induct)
  case (post t s m timeout r b w)
  then have inv: "mb_inv (box s)" by (simp add: mb_waits_def)
  from post(1) inv show ?case
    by (cases rule: postS_Return)
       (use post(2) length_next_wake [of "qr (box s)"] tl_waiting [of "qr (box s)"] in \<open>auto simp: mb_waits_def\<close>)
next
  case (post_sleep t s m timeout b)
  then show ?case
    using postS_Sleep [OF post_sleep(1)] by (auto simp: mb_waits_def)
next
  case (post_resumed t s m timeout r b w)
  then have inv: "mb_inv (box s)" by (simp add: mb_waits_def)
  from post_resumed(2) have "chMBPostTimeoutS t (box s) m timeout = Some (Return r b w)"
    by (simp add: chMBPostTimeoutS_resume_def)
  then show ?case using inv
  proof (cases rule: postS_Return)
    case put
    then show ?thesis
      using post_resumed(1,3) length_next_wake [of "qr (box s)"] tl_waiting [of "qr (box s)"]
      by (auto simp: mb_waits_def length_remove1)
  next
    case not
    then show ?thesis
      using post_resumed(1,3) by (auto simp: mb_waits_def length_remove1)
  qed
next
  case (post_resumed_sleep t s m timeout b)
  then show ?case
    using postS_Sleep [of t "box s" m timeout b] by (auto simp: mb_waits_def chMBPostTimeoutS_resume_def length_remove1)
next
  case (fetch t s timeout r b w)
  then have inv: "mb_inv (box s)" by (simp add: mb_waits_def)
  from fetch(1) inv show ?case
    by (cases rule: fetchS_Return)
       (use fetch(2) length_next_wake [of "qw (box s)"] tl_waiting [of "qw (box s)"] in \<open>auto simp: mb_waits_def\<close>)
next
  case (fetch_sleep t s timeout b)
  then show ?case
    using fetchS_Sleep [OF fetch_sleep(1)] by (auto simp: mb_waits_def)
next
  case (fetch_resumed t s timeout r b w)
  then have inv: "mb_inv (box s)" by (simp add: mb_waits_def)
  from fetch_resumed(2) have "chMBFetchTimeoutS t (box s) timeout = Some (Return r b w)"
    by (simp add: chMBFetchTimeoutS_resume_def)
  then show ?case using inv
  proof (cases rule: fetchS_Return)
    case (got m)
    then show ?thesis
      using fetch_resumed(1,3) length_next_wake [of "qw (box s)"] tl_waiting [of "qw (box s)"]
      by (auto simp: mb_waits_def length_remove1)
  next
    case not
    then show ?thesis
      using fetch_resumed(1,3) by (auto simp: mb_waits_def length_remove1)
  qed
next
  case (fetch_resumed_sleep t s timeout b)
  then show ?case
    using fetchS_Sleep [of t "box s" timeout b] by (auto simp: mb_waits_def chMBFetchTimeoutS_resume_def length_remove1)
next
  case (reader_timeout s t)
  then show ?case by (auto simp: mb_waits_def dequeue_thread_def)
next
  case (writer_timeout s t)
  then show ?case by (auto simp: mb_waits_def dequeue_thread_def)
next
  case (reset_all s)
  then show ?case by (simp add: mb_waits_def chMBResetI_props)
next
  case (resume_after_reset s)
  then show ?case by (auto simp: mb_waits_def chMBResumeX_def mb_inv_def)
qed

section \<open>Properties\<close>

text \<open>
  C5.  The ring buffer is a bounded first-in first-out queue: for every sequence of posts,
  posts ahead and fetches that do not wait, the mailbox returns exactly the results of a list
  of at most \<^verbatim>\<open>top\<close> elements, and never touches memory outside of its buffer.
\<close>

theorem mailbox_refines_queue:
  assumes "mb_inv mb" and "\<not> reset mb"
  shows "\<exists>mb'. run_mb (post_now self) (post_ahead_now self) (fetch_now self) ops mb
            = Some (fst (run_ref (top mb) ops (mb_items mb)), mb')
         \<and> mb_inv mb' \<and> mb_items mb' = snd (run_ref (top mb) ops (mb_items mb))"
  using mbox.run_refines [of mb self ops] assms by (auto simp: mb_open_def)

theorem mailbox_refines_queue_witness:
  "\<exists>mb'. run_mb (post_now 1) (post_ahead_now 1) (fetch_now 1) [Post 7, Post 8, PostAhead 9, Fetch, Fetch]
      (MAILBOX_DATA [0, 0 :: nat] 2) =
        Some ([(MSG_OK, None), (MSG_OK, None), (MSG_TIMEOUT, None), (MSG_OK, Some 7), (MSG_OK, Some 8)], mb')
      \<and> mb_inv mb' \<and> mb_items mb' = []"
  using mailbox_refines_queue [of "MAILBOX_DATA [0, 0 :: nat] 2" 1 "[Post 7, Post 8, PostAhead 9, Fetch, Fetch]"]
  by (simp add: mb_inv_def mb_items_def MAILBOX_DATA_def)

text \<open>
  C9.  No wake-up is lost: in every state that threads can reach by posting, fetching,
  sleeping, being resumed, timing out and resetting a shared mailbox, a reader sleeps beside
  a stored message only if at least as many readers are already awake as there are messages,
  and a writer sleeps beside a free slot only if as many writers are awake as there are slots.
\<close>

theorem mailbox_no_lost_wakeup:
  assumes "mb_step\<^sup>*\<^sup>* \<lparr>box = MAILBOX_DATA buf n, rp = [], wp = []\<rparr> s"
    and "length buf = n" and "0 < n" and "n < 2 ^ 32"
  shows "(qr (box s) \<noteq> [] \<longrightarrow> length (mb_items (box s)) \<le> length (rp s)) \<and>
         (qw (box s) \<noteq> [] \<longrightarrow> top (box s) - length (mb_items (box s)) \<le> length (wp s))"
proof -
  have "mb_waits s"
    using assms(1)
  proof (induction rule: rtranclp_induct)
    case base
    then show ?case using assms(2-) by (simp add: mb_waits_def mb_inv_def MAILBOX_DATA_def)
  next
    case (step s s')
    then show ?case using mb_step_waits by blast
  qed
  then show ?thesis by (simp add: mb_waits_def)
qed

theorem mailbox_no_lost_wakeup_witness:
  "let s = \<lparr>box = MAILBOX_DATA [0 :: nat] 1, rp = [], wp = []\<rparr>;
       s' = s\<lparr>box := (box s)\<lparr>qr := [5]\<rparr>\<rparr>
   in mb_step\<^sup>*\<^sup>* s s' \<and> length (mb_items (box s')) \<le> length (rp s')"
proof -
  define s where "s = \<lparr>box = MAILBOX_DATA [0 :: nat] 1, rp = [], wp = []\<rparr>"
  let ?s' = "s\<lparr>box := (box s)\<lparr>qr := [5]\<rparr>\<rparr>"
  have "mb_step s ?s'"
    by (rule mb_step.fetch_sleep [of 5 _ TIME_INFINITE])
       (simp add: s_def chMBFetchTimeoutS_def chMBGetUsedCountI_def MAILBOX_DATA_def
         chThdEnqueueTimeoutS_def TIME_INFINITE_def TIME_IMMEDIATE_def)
  then have "mb_step\<^sup>*\<^sup>* s ?s'" by simp
  then show ?thesis
    using mailbox_no_lost_wakeup [of "[0 :: nat]" 1 ?s'] by (simp add: s_def)
qed

end
