(* ===== verification/Ch_Pool.thy ===== *)
theory Ch_Pool
  imports Firmware_Prelude
begin

text \<open>
  Memory pools (\<^verbatim>\<open>os/oslib/src/chmempools.c\<close>, \<^verbatim>\<open>os/oslib/include/chmempools.h\<close>).  A free
  object holds the pointer to the next free object in its own first four bytes, so the model
  has the memory byte by byte: an address is a \<open>nat\<close> below $2^{32}$, 0 is \<^verbatim>\<open>NULL\<close>, and a
  pointer is stored little-endian.  What the owner of an allocated object writes and what the
  pool writes meet in the same bytes, and the lemmas show that they do not disturb each other.
\<close>

section \<open>Memory\<close>

type_synonym memory = "nat \<Rightarrow> u8"

definition read_ptr :: "memory \<Rightarrow> nat \<Rightarrow> nat" where
  "read_ptr m a = unat (be_word32 (m (a + 3)) (m (a + 2)) (m (a + 1)) (m a))"

definition write_ptr :: "memory \<Rightarrow> nat \<Rightarrow> nat \<Rightarrow> memory" where
  "write_ptr m a p = (let w = word_of_nat p :: u32 in
     m(a := ucast w, a + 1 := ucast (drop_bit 8 w), a + 2 := ucast (drop_bit 16 w),
       a + 3 := ucast (drop_bit 24 w)))"

definition write_mem :: "memory \<Rightarrow> nat \<Rightarrow> u8 list \<Rightarrow> memory" where
  "write_mem m a bs = (\<lambda>i. if a \<le> i \<and> i < a + length bs then bs ! (i - a) else m i)"

definition read_mem :: "memory \<Rightarrow> nat \<Rightarrow> nat \<Rightarrow> u8 list" where
  "read_mem m a n = map (\<lambda>i. m (a + i)) [0..<n]"

section \<open>The code\<close>

definition PORT_NATURAL_ALIGN :: nat where "PORT_NATURAL_ALIGN = 4"

definition sizeof_ptr :: nat where "sizeof_ptr = 4"

definition MEM_IS_ALIGNED :: "nat \<Rightarrow> nat \<Rightarrow> bool" where
  "MEM_IS_ALIGNED p a \<longleftrightarrow> (word_of_nat p :: u32) AND (word_of_nat a - 1) = 0"

definition MEM_IS_VALID_ALIGNMENT :: "nat \<Rightarrow> bool" where
  "MEM_IS_VALID_ALIGNMENT a \<longleftrightarrow> a \<noteq> 0 \<and> (word_of_nat a :: u32) AND (word_of_nat a - 1) = 0"

record memory_pool_t =
  pool_next :: nat
  object_size :: nat
  align :: nat
  provider :: "(nat \<Rightarrow> nat \<Rightarrow> nat) option"

definition MEMORYPOOL_DATA :: "nat \<Rightarrow> nat \<Rightarrow> (nat \<Rightarrow> nat \<Rightarrow> nat) option \<Rightarrow> memory_pool_t" where
  "MEMORYPOOL_DATA sz al prov = \<lparr>pool_next = 0, object_size = sz, align = al, provider = prov\<rparr>"

definition chPoolObjectInitAligned ::
    "nat \<Rightarrow> nat \<Rightarrow> (nat \<Rightarrow> nat \<Rightarrow> nat) option \<Rightarrow> memory_pool_t option" where
  "chPoolObjectInitAligned sz al prov = do {
     _ \<leftarrow> dbg_check (sz \<ge> sizeof_ptr \<and> al \<ge> PORT_NATURAL_ALIGN \<and> MEM_IS_VALID_ALIGNMENT al);
     Some \<lparr>pool_next = 0, object_size = sz, align = al, provider = prov\<rparr> }"

definition chPoolObjectInit :: "nat \<Rightarrow> (nat \<Rightarrow> nat \<Rightarrow> nat) option \<Rightarrow> memory_pool_t option" where
  "chPoolObjectInit sz prov = chPoolObjectInitAligned sz PORT_NATURAL_ALIGN prov"

text \<open>A pool and the memory its objects live in.\<close>

record pool_state =
  pool :: memory_pool_t
  mem :: memory

definition chPoolAllocI :: "pool_state \<Rightarrow> (nat \<times> pool_state) option" where
  "chPoolAllocI s =
     (let mp = pool s; objp = pool_next mp in
      if objp \<noteq> 0 then Some (objp, s\<lparr>pool := mp\<lparr>pool_next := read_ptr (mem s) (pool_next mp)\<rparr>\<rparr>)
      else (case provider mp of
              None \<Rightarrow> Some (objp, s)
            | Some f \<Rightarrow> do {
                let objp = f (object_size mp) (align mp);
                _ \<leftarrow> dbg_check (MEM_IS_ALIGNED objp (align mp));
                Some (objp, s) }))"

definition chPoolAlloc :: "pool_state \<Rightarrow> (nat \<times> pool_state) option" where
  "chPoolAlloc s = chPoolAllocI s"

definition chPoolFreeI :: "pool_state \<Rightarrow> nat \<Rightarrow> pool_state option" where
  "chPoolFreeI s objp = do {
     _ \<leftarrow> dbg_check (objp \<noteq> 0 \<and> MEM_IS_ALIGNED objp (align (pool s)));
     let m = write_ptr (mem s) objp (pool_next (pool s));
     Some \<lparr>pool = (pool s)\<lparr>pool_next := objp\<rparr>, mem = m\<rparr> }"

definition chPoolFree :: "pool_state \<Rightarrow> nat \<Rightarrow> pool_state option" where
  "chPoolFree s objp = chPoolFreeI s objp"

definition chPoolAdd :: "pool_state \<Rightarrow> nat \<Rightarrow> pool_state option" where
  "chPoolAdd s objp = chPoolFree s objp"

definition chPoolAddI :: "pool_state \<Rightarrow> nat \<Rightarrow> pool_state option" where
  "chPoolAddI s objp = chPoolFreeI s objp"

fun load_loop :: "nat \<Rightarrow> pool_state \<Rightarrow> nat \<Rightarrow> pool_state option" where
  "load_loop 0 s p = Some s"
| "load_loop (Suc n) s p = do {
     s \<leftarrow> chPoolAdd s p;
     load_loop n s (p + object_size (pool s)) }"

definition chPoolLoadArray :: "pool_state \<Rightarrow> nat \<Rightarrow> nat \<Rightarrow> pool_state option" where
  "chPoolLoadArray s p n = do {
     _ \<leftarrow> dbg_check (n \<noteq> 0);
     load_loop n s p }"

section \<open>Lemmas on memory\<close>

lemma read_ptr_bytes:
  "read_ptr m a = unat (be_word32 (m (a + 3)) (m (a + 2)) (m (a + 1)) (m a))"
  by (simp add: read_ptr_def)

lemma read_write_ptr: "p < 2 ^ 32 \<Longrightarrow> read_ptr (write_ptr m a p) a = p"
  using be_word32_be_bytes32 [of "word_of_nat p"] unat_word_of_nat32 [of p]
  by (simp add: read_ptr_def write_ptr_def Let_def)

lemma write_ptr_other: "i < a \<or> a + 4 \<le> i \<Longrightarrow> write_ptr m a p i = m i"
  by (auto simp: write_ptr_def Let_def)

lemma read_write_ptr_other: "a + 4 \<le> b \<or> b + 4 \<le> a \<Longrightarrow> read_ptr (write_ptr m a p) b = read_ptr m b"
  by (auto simp: read_ptr_def write_ptr_other)

lemma write_mem_other: "i < a \<or> a + length bs \<le> i \<Longrightarrow> write_mem m a bs i = m i"
  by (auto simp: write_mem_def)

lemma read_ptr_write_mem:
  "a + length bs \<le> b \<or> b + 4 \<le> a \<Longrightarrow> read_ptr (write_mem m a bs) b = read_ptr m b"
  by (auto simp: read_ptr_def write_mem_other)

lemma read_write_mem: "read_mem (write_mem m a bs) a (length bs) = bs"
  by (rule nth_equalityI) (simp_all add: read_mem_def write_mem_def)

section \<open>The free list\<close>

text \<open>\<open>flist m p xs\<close>: following the headers from \<open>p\<close> visits the objects \<open>xs\<close> and ends in
  \<^verbatim>\<open>NULL\<close>.\<close>

fun flist :: "memory \<Rightarrow> nat \<Rightarrow> nat list \<Rightarrow> bool" where
  "flist m p [] \<longleftrightarrow> p = 0"
| "flist m p (x # xs) \<longleftrightarrow> p = x \<and> x \<noteq> 0 \<and> flist m (read_ptr m x) xs"

lemma flist_unique: "flist m p xs \<Longrightarrow> flist m p ys \<Longrightarrow> xs = ys"
proof (induction xs arbitrary: p ys)
  case Nil
  then show ?case by (cases ys) auto
next
  case (Cons x xs)
  then show ?case by (cases ys) auto
qed

lemma flist_frame:
  "(\<And>x. x \<in> set xs \<Longrightarrow> read_ptr m' x = read_ptr m x) \<Longrightarrow> flist m' p xs = flist m p xs"
  by (induction xs arbitrary: p) auto

text \<open>\<open>disjoint_blocks sz objs\<close>: the objects do not overlap and lie inside the address space.\<close>

definition disjoint_blocks :: "nat \<Rightarrow> nat set \<Rightarrow> bool" where
  "disjoint_blocks sz objs \<longleftrightarrow> finite objs \<and>
     (\<forall>a \<in> objs. a \<noteq> 0 \<and> a + sz \<le> 2 ^ 32) \<and>
     (\<forall>a \<in> objs. \<forall>b \<in> objs. a \<noteq> b \<longrightarrow> a + sz \<le> b \<or> b + sz \<le> a)"

definition pool_inv :: "nat set \<Rightarrow> pool_state \<Rightarrow> nat list \<Rightarrow> bool" where
  "pool_inv objs s free \<longleftrightarrow>
     4 \<le> object_size (pool s) \<and> provider (pool s) = None \<and>
     disjoint_blocks (object_size (pool s)) objs \<and>
     (\<forall>a \<in> objs. MEM_IS_ALIGNED a (align (pool s))) \<and>
     flist (mem s) (pool_next (pool s)) free \<and> distinct free \<and> set free \<subseteq> objs"

lemma pool_inv_objs:
  assumes "pool_inv objs s free"
  shows "finite objs" "0 \<notin> objs" "set free \<subseteq> objs" "distinct free"
  using assms by (auto simp: pool_inv_def disjoint_blocks_def)

lemma pool_inv_disjoint:
  assumes "pool_inv objs s free" "a \<in> objs" "b \<in> objs" "a \<noteq> b"
  shows "a + object_size (pool s) \<le> b \<or> b + object_size (pool s) \<le> a"
  using assms by (auto simp: pool_inv_def disjoint_blocks_def)

lemma pool_inv_addr: "pool_inv objs s free \<Longrightarrow> a \<in> objs \<Longrightarrow> a < 2 ^ 32"
  by (force simp: pool_inv_def disjoint_blocks_def)

lemma alloc_from_list:
  assumes "pool_inv objs s (a # free)"
  shows "chPoolAlloc s = Some (a, s\<lparr>pool := (pool s)\<lparr>pool_next := read_ptr (mem s) a\<rparr>\<rparr>)"
    and "pool_inv objs (s\<lparr>pool := (pool s)\<lparr>pool_next := read_ptr (mem s) a\<rparr>\<rparr>) free"
  using assms by (auto simp: chPoolAlloc_def chPoolAllocI_def pool_inv_def Let_def)

lemma alloc_empty: "pool_inv objs s [] \<Longrightarrow> chPoolAlloc s = Some (0, s)"
  by (simp add: chPoolAlloc_def chPoolAllocI_def pool_inv_def Let_def)

text \<open>Writing into an object that is not free leaves the list of the others intact.\<close>

lemma flist_write_ptr:
  assumes "pool_inv objs s free" "a \<in> objs" "a \<notin> set free"
  shows "flist (write_ptr (mem s) a p) q free = flist (mem s) q free"
proof (rule flist_frame)
  fix x assume x: "x \<in> set free"
  then have "x \<in> objs" "x \<noteq> a" using assms by (auto dest: pool_inv_objs(3))
  with pool_inv_disjoint [OF assms(1,2)] have "a + 4 \<le> x \<or> x + 4 \<le> a"
    using assms(1) by (force simp: pool_inv_def)
  then show "read_ptr (write_ptr (mem s) a p) x = read_ptr (mem s) x"
    by (rule read_write_ptr_other)
qed

lemma flist_head: "flist m p xs \<Longrightarrow> p = (case xs of [] \<Rightarrow> 0 | x # _ \<Rightarrow> x)"
  by (cases xs) auto

lemma free_to_list:
  assumes inv: "pool_inv objs s free" and a: "a \<in> objs" "a \<notin> set free"
  defines "s' \<equiv> \<lparr>pool = (pool s)\<lparr>pool_next := a\<rparr>, mem = write_ptr (mem s) a (pool_next (pool s))\<rparr>"
  shows "chPoolFree s a = Some s'" and "pool_inv objs s' (a # free)"
proof -
  have "pool_next (pool s) < 2 ^ 32"
  proof (cases free)
    case Nil
    with inv show ?thesis by (simp add: pool_inv_def)
  next
    case (Cons x xs)
    with inv have "x \<in> objs" "pool_next (pool s) = x" by (auto simp: pool_inv_def)
    with pool_inv_addr [OF inv] show ?thesis by simp
  qed
  then have "read_ptr (write_ptr (mem s) a (pool_next (pool s))) a = pool_next (pool s)"
    by (rule read_write_ptr)
  moreover have nz: "a \<noteq> 0" using pool_inv_objs(2) [OF inv] a by metis
  ultimately show "pool_inv objs s' (a # free)"
    using inv a flist_write_ptr [OF inv a] pool_inv_objs [OF inv]
    by (auto simp: pool_inv_def s'_def)
  show "chPoolFree s a = Some s'"
    using inv a nz
    by (auto simp: chPoolFree_def chPoolFreeI_def pool_inv_def s'_def Let_def)
qed

lemma store_keeps_pool:
  assumes inv: "pool_inv objs s free" and a: "a \<in> objs" "a \<notin> set free"
    and len: "length bs \<le> object_size (pool s)"
  shows "pool_inv objs (s\<lparr>mem := write_mem (mem s) a bs\<rparr>) free"
proof -
  have "flist (write_mem (mem s) a bs) (pool_next (pool s)) free = flist (mem s) (pool_next (pool s)) free"
  proof (rule flist_frame)
    fix x assume x: "x \<in> set free"
    then have "x \<in> objs" "x \<noteq> a" using a inv by (auto dest: pool_inv_objs(3))
    with pool_inv_disjoint [OF inv a(1)] have "a + length bs \<le> x \<or> x + 4 \<le> a"
      using inv len by (force simp: pool_inv_def)
    then show "read_ptr (write_mem (mem s) a bs) x = read_ptr (mem s) x"
      by (rule read_ptr_write_mem)
  qed
  with inv show ?thesis by (simp add: pool_inv_def)
qed

section \<open>The interface: an allocator of disjoint blocks\<close>

locale block_pool =
  fixes inv :: "nat set \<Rightarrow> 's \<Rightarrow> nat list \<Rightarrow> bool"
    and bsize :: "'s \<Rightarrow> nat"
    and byte :: "'s \<Rightarrow> nat \<Rightarrow> u8"
    and alloc :: "'s \<Rightarrow> (nat \<times> 's) option"
    and free :: "'s \<Rightarrow> nat \<Rightarrow> 's option"
    and store :: "'s \<Rightarrow> nat \<Rightarrow> u8 list \<Rightarrow> 's"
  assumes objs: "inv objs s fs \<Longrightarrow> finite objs \<and> 0 \<notin> objs \<and> set fs \<subseteq> objs \<and> distinct fs"
    and apart: "inv objs s fs \<Longrightarrow> a \<in> objs \<Longrightarrow> b \<in> objs \<Longrightarrow> a \<noteq> b \<Longrightarrow>
      a + bsize s \<le> b \<or> b + bsize s \<le> a"
    and alloc_some: "inv objs s (a # fs) \<Longrightarrow>
      \<exists>s'. alloc s = Some (a, s') \<and> inv objs s' fs \<and> byte s' = byte s \<and> bsize s' = bsize s"
    and alloc_none: "inv objs s [] \<Longrightarrow> alloc s = Some (0, s)"
    and free_block: "inv objs s fs \<Longrightarrow> a \<in> objs \<Longrightarrow> a \<notin> set fs \<Longrightarrow>
      \<exists>s'. free s a = Some s' \<and> inv objs s' (a # fs) \<and> bsize s' = bsize s \<and>
        (\<forall>i. i < a \<or> a + bsize s \<le> i \<longrightarrow> byte s' i = byte s i)"
    and store_block: "inv objs s fs \<Longrightarrow> a \<in> objs \<Longrightarrow> a \<notin> set fs \<Longrightarrow> length bs \<le> bsize s \<Longrightarrow>
      inv objs (store s a bs) fs \<and> bsize (store s a bs) = bsize s \<and>
      (\<forall>i. byte (store s a bs) i = (if a \<le> i \<and> i < a + length bs then bs ! (i - a) else byte s i))"
begin

lemma alloc_cases:
  assumes "inv objs s fs"
  obtains (none) "fs = []" "alloc s = Some (0, s)"
    | (some) a fs' s' where "fs = a # fs'" "alloc s = Some (a, s')" "inv objs s' fs'" "a \<in> objs" "a \<noteq> 0"
        "a \<notin> set fs'" "byte s' = byte s" "bsize s' = bsize s"
proof (cases fs)
  case Nil
  with assms alloc_none that(1) show ?thesis by blast
next
  case (Cons a fs')
  moreover obtain s' where "alloc s = Some (a, s')" "inv objs s' fs'" "byte s' = byte s" "bsize s' = bsize s"
    using alloc_some assms Cons by blast
  ultimately show ?thesis
    using that(2) [of a fs' s'] objs [OF assms] by auto
qed

text \<open>The bytes of a block survive every operation on the other blocks.\<close>

lemma free_other:
  assumes "inv objs s fs" "a \<in> objs" "a \<notin> set fs" "b \<in> objs" "b \<noteq> a" "i < bsize s"
    and "free s a = Some s'"
  shows "byte s' (b + i) = byte s (b + i)"
proof -
  have "b + i < a \<or> a + bsize s \<le> b + i" using apart [of objs s fs a b] assms by auto
  with free_block [OF assms(1-3)] assms(7) show ?thesis by auto
qed

lemma store_other:
  assumes "inv objs s fs" "a \<in> objs" "a \<notin> set fs" "b \<in> objs" "b \<noteq> a" "i < bsize s"
    and "length bs \<le> bsize s"
  shows "byte (store s a bs) (b + i) = byte s (b + i)"
proof -
  have "b + i < a \<or> a + length bs \<le> b + i" using apart [of objs s fs a b] assms by auto
  with store_block [OF assms(1-3,7)] show ?thesis by auto
qed

end

definition store_obj :: "pool_state \<Rightarrow> nat \<Rightarrow> u8 list \<Rightarrow> pool_state" where
  "store_obj s a bs = s\<lparr>mem := write_mem (mem s) a bs\<rparr>"

interpretation mpool: block_pool pool_inv "\<lambda>s. object_size (pool s)" mem chPoolAlloc chPoolFree store_obj
proof
  fix objs s fs a b bs
  show "pool_inv objs s fs \<Longrightarrow> finite objs \<and> 0 \<notin> objs \<and> set fs \<subseteq> objs \<and> distinct fs"
    using pool_inv_objs by blast
  show "pool_inv objs s fs \<Longrightarrow> a \<in> objs \<Longrightarrow> b \<in> objs \<Longrightarrow> a \<noteq> b \<Longrightarrow>
      a + object_size (pool s) \<le> b \<or> b + object_size (pool s) \<le> a"
    by (rule pool_inv_disjoint)
  show "pool_inv objs s (a # fs) \<Longrightarrow> \<exists>s'. chPoolAlloc s = Some (a, s') \<and> pool_inv objs s' fs
      \<and> mem s' = mem s \<and> object_size (pool s') = object_size (pool s)"
    using alloc_from_list [of objs s a fs] by simp
  show "pool_inv objs s [] \<Longrightarrow> chPoolAlloc s = Some (0, s)"
    by (rule alloc_empty)
  show "\<exists>s'. chPoolFree s a = Some s' \<and> pool_inv objs s' (a # fs) \<and>
      object_size (pool s') = object_size (pool s) \<and>
      (\<forall>i. i < a \<or> a + object_size (pool s) \<le> i \<longrightarrow> mem s' i = mem s i)"
    if "pool_inv objs s fs" "a \<in> objs" "a \<notin> set fs"
    using free_to_list [OF that] that(1) by (auto simp: pool_inv_def intro!: write_ptr_other)
  show "pool_inv objs (store_obj s a bs) fs \<and> object_size (pool (store_obj s a bs)) = object_size (pool s) \<and>
      (\<forall>i. mem (store_obj s a bs) i = (if a \<le> i \<and> i < a + length bs then bs ! (i - a) else mem s i))"
    if "pool_inv objs s fs" "a \<in> objs" "a \<notin> set fs" "length bs \<le> object_size (pool s)"
    using store_keeps_pool [OF that] by (simp add: store_obj_def write_mem_def)
qed

section \<open>Loading an array\<close>

lemma aligned_4: "4 dvd a \<Longrightarrow> MEM_IS_ALIGNED a PORT_NATURAL_ALIGN"
proof -
  assume "4 dvd a"
  then have "take_bit 2 a = 0" by (simp add: take_bit_eq_mod)
  then have z: "take_bit 2 (word_of_nat a :: u32) = 0"
    unfolding take_bit_of_nat by simp
  have m: "(word_of_nat 4 - 1 :: u32) = mask 2" by (simp add: mask_eq_exp_minus_1)
  show ?thesis
    unfolding MEM_IS_ALIGNED_def PORT_NATURAL_ALIGN_def m using z by (simp only: take_bit_eq_mask)
qed

definition array_objs :: "nat \<Rightarrow> nat \<Rightarrow> nat \<Rightarrow> nat list" where
  "array_objs base sz n = map (\<lambda>i. base + i * sz) [0..<n]"

lemma set_array_objs: "set (array_objs base sz n) = (\<lambda>i. base + i * sz) ` {0..<n}"
  by (simp add: array_objs_def)

lemma array_objs_Suc: "array_objs base sz (Suc n) = base # array_objs (base + sz) sz n"
  by (rule nth_equalityI) (auto simp: array_objs_def nth_Cons simp del: upt_Suc split: nat.split)

lemma distinct_array_objs: "0 < sz \<Longrightarrow> distinct (array_objs base sz n)"
  by (simp add: array_objs_def distinct_map inj_on_def)

lemma array_blocks:
  assumes "base \<noteq> 0" "base + n * sz \<le> 2 ^ 32"
  shows "disjoint_blocks sz (set (array_objs base sz n))"
proof -
  have "i * sz + sz \<le> j * sz" if "i < j" for i j
    using mult_le_mono1 [of "Suc i" j sz] that by simp
  then have "i * sz + sz \<le> j * sz \<or> j * sz + sz \<le> i * sz" if "i \<noteq> j" for i j
    using that by (metis nat_neq_iff)
  moreover have "base + i * sz + sz \<le> 2 ^ 32" if "i < n" for i
    using mult_le_mono1 [of "Suc i" n sz] that assms by simp
  ultimately show ?thesis
    using assms by (force simp: disjoint_blocks_def set_array_objs)
qed

lemma load_loop_spec:
  assumes "pool_inv objs s free" "set (array_objs p (object_size (pool s)) n) \<subseteq> objs"
    "set (array_objs p (object_size (pool s)) n) \<inter> set free = {}"
  shows "\<exists>s'. load_loop n s p = Some s' \<and> object_size (pool s') = object_size (pool s) \<and>
    pool_inv objs s' (rev (array_objs p (object_size (pool s)) n) @ free)"
  using assms
proof (induction n arbitrary: s p free)
  case 0
  then show ?case by (simp add: array_objs_def)
next
  case (Suc n)
  let ?sz = "object_size (pool s)"
  from Suc.prems have p: "p \<in> objs" "p \<notin> set free" by (auto simp: array_objs_Suc)
  obtain s1 where s1: "chPoolFree s p = Some s1" "pool_inv objs s1 (p # free)" "object_size (pool s1) = ?sz"
    using mpool.free_block [OF Suc.prems(1) p] by blast
  have "0 < ?sz" using Suc.prems(1) by (simp add: pool_inv_def)
  then have "p \<notin> set (array_objs (p + ?sz) ?sz n)"
    using distinct_array_objs [of ?sz p "Suc n"] by (simp add: array_objs_Suc)
  with Suc.IH [OF s1(2), of "p + ?sz"] Suc.prems(2,3) s1 show ?case
    by (auto simp: array_objs_Suc chPoolAdd_def)
qed

fun alloc_many :: "nat \<Rightarrow> pool_state \<Rightarrow> (nat list \<times> pool_state) option" where
  "alloc_many 0 s = Some ([], s)"
| "alloc_many (Suc n) s = do {
     (a, s) \<leftarrow> chPoolAlloc s; (as, s) \<leftarrow> alloc_many n s; Some (a # as, s) }"

lemma alloc_many_drains:
  "pool_inv objs s free \<Longrightarrow>
   \<exists>s'. alloc_many (length free + k) s = Some (free @ replicate k 0, s') \<and> pool_inv objs s' []"
proof (induction free arbitrary: s)
  case Nil
  then have "alloc_many k s = Some (replicate k 0, s)"
    by (induction k) (simp_all add: alloc_empty)
  with Nil show ?case by simp
next
  case (Cons a free)
  then show ?case using mpool.alloc_some [OF Cons.prems] by fastforce
qed

text \<open>
  C10.  Initialising a pool and loading an array into it succeeds, and the pool then hands out
  exactly the elements of the array, each one once and none overlapping another, before it
  answers \<^verbatim>\<open>NULL\<close>.  The loader relies on the array being aligned to four bytes.
\<close>

theorem pool_load_then_drain:
  assumes "4 \<le> sz" and "base \<noteq> 0" and "4 dvd base" and "4 dvd sz" and "0 < n" and "base + n * sz \<le> 2 ^ 32"
  shows "\<exists>mp s s'. chPoolObjectInit sz None = Some mp \<and>
    chPoolLoadArray \<lparr>pool = mp, mem = m\<rparr> base n = Some s \<and>
    alloc_many (n + 1) s = Some (rev (array_objs base sz n) @ [0], s') \<and>
    disjoint_blocks sz (set (array_objs base sz n))"
proof -
  let ?objs = "set (array_objs base sz n)" and ?mp = "MEMORYPOOL_DATA sz PORT_NATURAL_ALIGN None"
  let ?s = "\<lparr>pool = ?mp, mem = m\<rparr>"
  have blocks: "disjoint_blocks sz ?objs" using assms by (intro array_blocks)
  have "pool_inv ?objs ?s []"
    using assms blocks aligned_4
    by (auto simp: pool_inv_def MEMORYPOOL_DATA_def set_array_objs dvd_add dvd_mult)
  moreover have "object_size (pool ?s) = sz" by (simp add: MEMORYPOOL_DATA_def)
  ultimately obtain s where s: "load_loop n ?s base = Some s" "pool_inv ?objs s (rev (array_objs base sz n))"
    using load_loop_spec [of ?objs ?s "[]" base n] by auto
  moreover have "length (array_objs base sz n) = n" by (simp add: array_objs_def)
  ultimately obtain s' where "alloc_many (n + 1) s = Some (rev (array_objs base sz n) @ [0], s')"
    using alloc_many_drains [OF s(2), of 1] by auto
  moreover have "chPoolObjectInit sz None = Some ?mp"
    using assms by (simp add: chPoolObjectInit_def chPoolObjectInitAligned_def sizeof_ptr_def
        PORT_NATURAL_ALIGN_def MEM_IS_VALID_ALIGNMENT_def MEMORYPOOL_DATA_def)
  ultimately show ?thesis
    using s(1) assms(5) blocks by (auto simp: chPoolLoadArray_def)
qed

theorem pool_load_then_drain_witness:
  "\<exists>mp s s'. chPoolObjectInit 24 None = Some mp \<and>
    chPoolLoadArray \<lparr>pool = mp, mem = (\<lambda>_. 0)\<rparr> 4096 3 = Some s \<and>
    alloc_many 4 s = Some ([4144, 4120, 4096, 0], s')"
  using pool_load_then_drain [of 24 4096 3 "\<lambda>_. 0"]
  by (auto simp: array_objs_def upt_rec)

end
