(* ===== verification/Pipeline.thy ===== *)
theory Pipeline
  imports Msp Ch_Mailbox Ch_Pool "HOL-Library.Multiset"
begin

text \<open>
  The way of a message from a sensor thread to the radio (\<^verbatim>\<open>threads/pools.c\<close>, the send part
  of the sensor threads and of \<^verbatim>\<open>cmd_send\<close>, the loop of \<^verbatim>\<open>hc12StreamThread\<close>): an object is
  taken from the pool \<^verbatim>\<open>streamMemPool\<close>, filled with a frame, its address posted to
  \<^verbatim>\<open>streamMail\<close>, fetched by the radio thread, transmitted, overwritten with an end of line and
  given back to the pool.  Any number of threads interleave between the kernel calls.
\<close>

section \<open>The code\<close>

definition STREAM_TX_POOL_SIZE :: nat where "STREAM_TX_POOL_SIZE = 5"

text \<open>\<^verbatim>\<open>sizeof(streamPoolObject[0])\<close>.\<close>

definition object_bytes :: nat where "object_bytes = STREAM_MESSAGE_SIZE + 1"

definition streamMail_init :: "nat mailbox_t" where
  "streamMail_init = MAILBOX_DATA (replicate STREAM_TX_POOL_SIZE 0) STREAM_TX_POOL_SIZE"

text \<open>\<open>base\<close> is the address the linker gives to \<^verbatim>\<open>streamPoolObject\<close>.\<close>

definition shared_pools_init :: "memory \<Rightarrow> nat \<Rightarrow> pool_state option" where
  "shared_pools_init m base = do {
     mp \<leftarrow> chPoolObjectInit object_bytes None;
     chPoolLoadArray \<lparr>pool = mp, mem = m\<rparr> base STREAM_TX_POOL_SIZE }"

text \<open>Where the radio thread is in its loop: waiting for a message, holding a fetched one,
  holding one it has written to the channel, holding one whose first bytes it has overwritten.\<close>

datatype radio_pc = Waiting | Fetched nat | Written nat | Ended nat

text \<open>\<open>posted\<close> logs the bytes of each object at the time it was posted, \<open>aired\<close> the bytes the
  radio thread handed to \<^verbatim>\<open>chnWriteTimeout\<close>; they observe the run and do not influence it.\<close>

record pipe =
  stream_pool :: pool_state
  streamMail :: "nat mailbox_t"
  held :: "(tid \<times> nat) list"
  radio :: radio_pc
  posted :: "u8 list list"
  aired :: "u8 list list"

definition obj_at :: "pool_state \<Rightarrow> nat \<Rightarrow> poolStreamObject_t" where
  "obj_at p a = read_mem (mem p) a object_bytes"

text \<open>\<^verbatim>\<open>cmd_send\<close>: \<^verbatim>\<open>strcpy\<close> of the argument with its terminating zero, then \<^verbatim>\<open>size = strlen\<close>.\<close>

definition cmd_send_fill :: "poolStreamObject_t \<Rightarrow> u8 list \<Rightarrow> poolStreamObject_t option" where
  "cmd_send_fill obj arg = do {
     m \<leftarrow> store_bytes obj 0 (arg @ [0]);
     store8 m STREAM_MESSAGE_SIZE (word_of_nat (length (takeWhile (\<lambda>b. b \<noteq> 0) m))) }"

text \<open>The radio thread: \<^verbatim>\<open>message[0] = 0x0a; message[1] = 0x0d\<close>.\<close>

definition end_of_line :: "poolStreamObject_t \<Rightarrow> poolStreamObject_t option" where
  "end_of_line obj = store_bytes obj 0 [0x0a, 0x0d]"

inductive pipe_step :: "pipe \<Rightarrow> pipe \<Rightarrow> bool" where
  alloc: "chPoolAlloc (stream_pool s) = Some (a, p) \<Longrightarrow> a \<noteq> 0 \<Longrightarrow> t \<notin> fst ` set (held s) \<Longrightarrow>
    pipe_step s (s\<lparr>stream_pool := p, held := (t, a) # held s\<rparr>)"
| alloc_fails: "chPoolAlloc (stream_pool s) = Some (0, p) \<Longrightarrow>
    pipe_step s (s\<lparr>stream_pool := p\<rparr>)"
| fill: "(t, a) \<in> set (held s) \<Longrightarrow>
    MSP__createMspFrame (obj_at (stream_pool s) a) cmd argc argv = Some obj \<Longrightarrow>
    pipe_step s (s\<lparr>stream_pool := store_obj (stream_pool s) a obj\<rparr>)"
| fill_text: "(t, a) \<in> set (held s) \<Longrightarrow>
    cmd_send_fill (obj_at (stream_pool s) a) arg = Some obj \<Longrightarrow>
    pipe_step s (s\<lparr>stream_pool := store_obj (stream_pool s) a obj\<rparr>)"
| post: "(t, a) \<in> set (held s) \<Longrightarrow>
    chMBPostTimeout t (streamMail s) a TIME_IMMEDIATE = Some (Return r mb w) \<Longrightarrow>
    pipe_step s (s\<lparr>streamMail := mb, held := remove1 (t, a) (held s),
                   posted := posted s @ [obj_payload (obj_at (stream_pool s) a)]\<rparr>)"
| fetch: "radio s = Waiting \<Longrightarrow>
    chMBFetchTimeout t (streamMail s) timeout = Some (Return (MSG_OK, Some a) mb w) \<Longrightarrow>
    pipe_step s (s\<lparr>streamMail := mb, radio := Fetched a\<rparr>)"
| fetch_sleeps: "radio s = Waiting \<Longrightarrow> chMBFetchTimeout t (streamMail s) timeout = Some (Sleep mb) \<Longrightarrow>
    pipe_step s (s\<lparr>streamMail := mb\<rparr>)"
| fetch_expires: "pipe_step s (s\<lparr>streamMail := (streamMail s)\<lparr>qr := dequeue_thread t (qr (streamMail s))\<rparr>\<rparr>)"
| transmit: "radio s = Fetched a \<Longrightarrow>
    pipe_step s (s\<lparr>radio := Written a, aired := aired s @ [obj_payload (obj_at (stream_pool s) a)]\<rparr>)"
| finish: "radio s = Written a \<Longrightarrow> end_of_line (obj_at (stream_pool s) a) = Some obj \<Longrightarrow>
    pipe_step s (s\<lparr>stream_pool := store_obj (stream_pool s) a obj, radio := Ended a\<rparr>)"
| release: "radio s = Ended a \<Longrightarrow> chPoolFree (stream_pool s) a = Some p \<Longrightarrow>
    pipe_step s (s\<lparr>stream_pool := p, radio := Waiting\<rparr>)"

definition pipe_init :: "pool_state \<Rightarrow> pipe" where
  "pipe_init p = \<lparr>stream_pool = p, streamMail = streamMail_init, held = [], radio = Waiting,
                  posted = [], aired = []\<rparr>"

section \<open>Every object is in exactly one place\<close>

fun radio_objs :: "radio_pc \<Rightarrow> nat list" where
  "radio_objs Waiting = []"
| "radio_objs (Fetched a) = [a]"
| "radio_objs (Written a) = [a]"
| "radio_objs (Ended a) = [a]"

text \<open>The frames on their way: the one the radio thread has fetched, then the mailbox.\<close>

definition in_flight :: "pipe \<Rightarrow> u8 list list" where
  "in_flight s = map (\<lambda>a. obj_payload (obj_at (stream_pool s) a))
     ((case radio s of Fetched a \<Rightarrow> [a] | _ \<Rightarrow> []) @ mb_items (streamMail s))"

definition pipe_objs :: "nat list \<Rightarrow> pipe \<Rightarrow> nat multiset" where
  "pipe_objs fs s = mset fs + mset (mb_items (streamMail s)) + mset (map snd (held s))
     + mset (radio_objs (radio s))"

definition pipe_inv :: "nat set \<Rightarrow> pipe \<Rightarrow> nat list \<Rightarrow> bool" where
  "pipe_inv objs s fs \<longleftrightarrow>
     pool_inv objs (stream_pool s) fs \<and> object_size (pool (stream_pool s)) = object_bytes \<and>
     mb_open (streamMail s) \<and> top (streamMail s) = card objs \<and>
     pipe_objs fs s = mset_set objs \<and>
     posted s = aired s @ in_flight s"

lemma mset_set_split:
  assumes "A + B = mset_set S" "x \<in># A"
  shows "x \<notin># B" "x \<in> S"
proof -
  have "count A x + count B x = (if x \<in> S \<and> finite S then 1 else 0)"
    using assms(1) by (metis count_mset_set count_union)
  moreover obtain n where "count A x = Suc n"
    using assms(2) by (metis not0_implies_Suc count_eq_zero_iff)
  ultimately have "count B x = 0 \<and> x \<in> S" by (simp split: if_splits)
  then show "x \<notin># B" "x \<in> S" by (auto simp: not_in_iff)
qed

lemma obj_at_eq:
  "(\<And>i. i < object_bytes \<Longrightarrow> mem p' (b + i) = mem p (b + i)) \<Longrightarrow> obj_at p' b = obj_at p b"
  by (simp add: obj_at_def read_mem_def)

lemma length_obj_at [simp]: "length (obj_at p a) = object_bytes"
  by (simp add: obj_at_def read_mem_def)

lemma cmd_send_fill_length: "cmd_send_fill obj arg = Some obj' \<Longrightarrow> length obj' = length obj"
  by (auto simp: cmd_send_fill_def split: bind_splits simp del: store_bytes.simps
      dest!: store8_length store_bytes_length)

lemma end_of_line_length: "end_of_line obj = Some obj' \<Longrightarrow> length obj' = length obj"
  by (auto simp: end_of_line_def simp del: store_bytes.simps dest!: store_bytes_length)

text \<open>Filling or freeing an object that is not in flight changes nothing of what is in flight.\<close>

lemma in_flight_objs: "pipe_objs fs s = mset_set objs \<Longrightarrow> b \<in># mset (mb_items (streamMail s)) + mset (radio_objs (radio s)) \<Longrightarrow> b \<in> objs"
  using mset_set_split(2) [of "mset (mb_items (streamMail s)) + mset (radio_objs (radio s))" "mset fs + mset (map snd (held s))" objs b]
  by (simp add: pipe_objs_def ac_simps)

lemma in_flight_frame:
  assumes "\<And>b. b \<in> set (mb_items (streamMail s)) \<or> radio s = Fetched b \<Longrightarrow> obj_at p b = obj_at (stream_pool s) b"
  shows "in_flight (s\<lparr>stream_pool := p\<rparr>) = in_flight s"
  using assms by (auto simp: in_flight_def split: radio_pc.split)

lemma store_step:
  assumes inv: "pipe_inv objs s fs" and a: "a \<in> objs" "a \<notin> set fs" "a \<notin> set (mb_items (streamMail s))"
      "radio s \<noteq> Fetched a" and len: "length obj = object_bytes"
  shows "pipe_inv objs (s\<lparr>stream_pool := store_obj (stream_pool s) a obj\<rparr>) fs"
proof -
  let ?p = "store_obj (stream_pool s) a obj"
  from inv have pinv: "pool_inv objs (stream_pool s) fs"
    and sz: "object_size (pool (stream_pool s)) = object_bytes"
    and objs: "pipe_objs fs s = mset_set objs"
    by (simp_all add: pipe_inv_def)
  note st = mpool.store_block [OF pinv a(1,2), of obj] mpool.store_other [OF pinv a(1,2)]
  have "obj_at ?p b = obj_at (stream_pool s) b"
    if b: "b \<in> set (mb_items (streamMail s)) \<or> radio s = Fetched b" for b
  proof (rule obj_at_eq)
    fix i assume "i < object_bytes"
    moreover have "b \<in> objs" using in_flight_objs [OF objs, of b] b by auto
    ultimately show "mem ?p (b + i) = mem (stream_pool s) (b + i)"
      using st(2) [of b i obj] b a(3,4) len sz by auto
  qed
  then show ?thesis
    using inv st(1) len sz in_flight_frame [of s ?p] by (auto simp: pipe_inv_def pipe_objs_def)
qed

lemma held_obj:
  assumes inv: "pipe_inv objs s fs" and h: "(t, a) \<in> set (held s)"
  shows "a \<in> objs" "a \<notin> set fs" "a \<notin> set (mb_items (streamMail s))" "a \<notin> set (radio_objs (radio s))"
proof -
  have "mset (map snd (held s)) + (mset fs + mset (mb_items (streamMail s)) + mset (radio_objs (radio s)))
      = mset_set objs"
    using inv by (simp add: pipe_inv_def pipe_objs_def ac_simps)
  moreover have "a \<in># mset (map snd (held s))" using h by force
  ultimately show "a \<in> objs" "a \<notin> set fs" "a \<notin> set (mb_items (streamMail s))" "a \<notin> set (radio_objs (radio s))"
    using mset_set_split by fastforce+
qed

lemma radio_obj:
  assumes inv: "pipe_inv objs s fs" and h: "a \<in> set (radio_objs (radio s))"
  shows "a \<in> objs" "a \<notin> set fs" "a \<notin> set (mb_items (streamMail s))"
proof -
  have "mset (radio_objs (radio s)) + (mset fs + mset (mb_items (streamMail s)) + mset (map snd (held s)))
      = mset_set objs"
    using inv by (simp add: pipe_inv_def pipe_objs_def ac_simps)
  moreover have "a \<in># mset (radio_objs (radio s))" using h by simp
  ultimately show "a \<in> objs" "a \<notin> set fs" "a \<notin> set (mb_items (streamMail s))"
    using mset_set_split by fastforce+
qed

text \<open>While a thread holds an object the mailbox has room for it.\<close>

lemma post_has_room:
  assumes inv: "pipe_inv objs s fs" and h: "(t, a) \<in> set (held s)"
  shows "length (mb_items (streamMail s)) < top (streamMail s)"
proof -
  have "size (pipe_objs fs s) = card objs" using inv by (simp add: pipe_inv_def)
  moreover obtain n where "length (held s) = Suc n" using h by (cases "held s") auto
  ultimately show ?thesis using inv by (simp add: pipe_objs_def pipe_inv_def)
qed

lemma post_returns_ok:
  assumes inv: "pipe_inv objs s fs" and h: "(t, a) \<in> set (held s)"
  obtains mb w where "chMBPostTimeout t (streamMail s) a TIME_IMMEDIATE = Some (Return MSG_OK mb w)"
    and "mb_open mb" and "mb_items mb = mb_items (streamMail s) @ [a]" and "top mb = top (streamMail s)"
proof -
  have "mb_open (streamMail s)" using inv by (simp add: pipe_inv_def)
  from mbox.post_room [OF this post_has_room [OF inv h], of t a] show ?thesis
    by (auto simp: post_now_def now_def split: option.splits call.splits intro: that)
qed

lemma post_step:
  assumes inv: "pipe_inv objs s fs" and h: "(t, a) \<in> set (held s)"
    and p: "chMBPostTimeout t (streamMail s) a TIME_IMMEDIATE = Some (Return r mb w)"
  shows "pipe_inv objs (s\<lparr>streamMail := mb, held := remove1 (t, a) (held s),
           posted := posted s @ [obj_payload (obj_at (stream_pool s) a)]\<rparr>) fs"
proof -
  have mb: "mb_open mb" "mb_items mb = mb_items (streamMail s) @ [a]" "top mb = top (streamMail s)"
    by (rule post_returns_ok [OF inv h], use p in simp)+
  have "mset (map snd (held s)) = add_mset a (mset (map snd (remove1 (t, a) (held s))))"
  proof -
    have "mset (held s) = add_mset (t, a) (mset (remove1 (t, a) (held s)))" using h by simp
    then have "image_mset snd (mset (held s)) = image_mset snd (add_mset (t, a) (mset (remove1 (t, a) (held s))))"
      by (rule arg_cong)
    then show ?thesis by simp
  qed
  with inv mb show ?thesis
    by (auto simp: pipe_inv_def pipe_objs_def in_flight_def ac_simps split: radio_pc.splits)
qed

lemma fetch_step:
  assumes inv: "pipe_inv objs s fs" and r: "radio s = Waiting"
    and f: "chMBFetchTimeout t (streamMail s) timeout = Some (Return (MSG_OK, Some a) mb w)"
  shows "pipe_inv objs (s\<lparr>streamMail := mb, radio := Fetched a\<rparr>) fs"
proof -
  from inv have "mb_inv (streamMail s)" by (simp add: pipe_inv_def mb_open_def)
  with f have "mb_open mb \<and> mb_items (streamMail s) = a # mb_items mb \<and> top mb = top (streamMail s)"
    unfolding chMBFetchTimeout_def by (auto simp: mb_open_def elim: fetchS_Return)
  with inv r show ?thesis
    by (auto simp: pipe_inv_def pipe_objs_def in_flight_def)
qed

lemma release_step:
  assumes inv: "pipe_inv objs s fs" and r: "radio s = Ended a"
    and f: "chPoolFree (stream_pool s) a = Some p"
  shows "pipe_inv objs (s\<lparr>stream_pool := p, radio := Waiting\<rparr>) (a # fs)"
proof -
  from inv have pinv: "pool_inv objs (stream_pool s) fs"
    and sz: "object_size (pool (stream_pool s)) = object_bytes"
    and objs: "pipe_objs fs s = mset_set objs"
    by (simp_all add: pipe_inv_def)
  note a = radio_obj [OF inv, of a, unfolded r, simplified]
  have p: "pool_inv objs p (a # fs)" "object_size (pool p) = object_bytes"
    using mpool.free_block [OF pinv a(1,2)] f sz by auto
  have "obj_at p b = obj_at (stream_pool s) b" if "b \<in> set (mb_items (streamMail s))" for b
  proof (rule obj_at_eq)
    fix i assume "i < object_bytes"
    moreover have "b \<in> objs" using in_flight_objs [OF objs, of b] that by simp
    ultimately show "mem p (b + i) = mem (stream_pool s) (b + i)"
      using mpool.free_other [OF pinv a(1,2), of b i p] that a(3) f sz by auto
  qed
  then have "in_flight (s\<lparr>stream_pool := p, radio := Waiting\<rparr>) = in_flight s"
    by (simp add: in_flight_def r)
  with inv p r show ?thesis
    by (auto simp: pipe_inv_def pipe_objs_def)
qed

lemma pipe_step_inv:
  assumes "pipe_step s s'" and "pipe_inv objs s fs"
  shows "\<exists>fs'. pipe_inv objs s' fs'"
  using assms
proof (induction rule: pipe_step.induct)
  case (alloc s a p t)
  then have "pool_inv objs (stream_pool s) fs" by (simp add: pipe_inv_def)
  then obtain fs' where "fs = a # fs'" "pool_inv objs p fs'" "mem p = mem (stream_pool s)"
      "object_size (pool p) = object_size (pool (stream_pool s))"
    using alloc(1,2) by (cases rule: mpool.alloc_cases) auto
  with alloc(4) have "pipe_inv objs (s\<lparr>stream_pool := p, held := (t, a) # held s\<rparr>) fs'"
    by (auto simp: pipe_inv_def pipe_objs_def in_flight_def obj_at_def)
  then show ?case ..
next
  case (alloc_fails s p)
  then have "pool_inv objs (stream_pool s) fs" by (simp add: pipe_inv_def)
  then have "p = stream_pool s"
    using alloc_fails(1) by (cases rule: mpool.alloc_cases) auto
  with alloc_fails(2) show ?case by auto
next
  case (fill t a s cmd argc argv obj)
  then show ?case
    using store_step [OF fill(3) held_obj(1-3) [OF fill(3,1)]] held_obj(4) [OF fill(3,1)]
    by (force dest: createMspFrame_length)
next
  case (fill_text t a s arg obj)
  then show ?case
    using store_step [OF fill_text(3) held_obj(1-3) [OF fill_text(3,1)]] held_obj(4) [OF fill_text(3,1)]
    by (force dest: cmd_send_fill_length)
next
  case (post t a s r mb w)
  then show ?case using post_step by blast
next
  case (fetch s t timeout a mb w)
  then show ?case using fetch_step by blast
next
  case (fetch_sleeps s t timeout mb)
  then have "mb = (streamMail s)\<lparr>qr := qr (streamMail s) @ [t]\<rparr>"
    by (simp add: chMBFetchTimeout_def fetchS_Sleep)
  with fetch_sleeps(3) have "pipe_inv objs (s\<lparr>streamMail := mb\<rparr>) fs"
    by (auto simp: pipe_inv_def mb_open_def pipe_objs_def in_flight_def mb_items_def)
  then show ?case ..
next
  case (fetch_expires s t)
  then have "pipe_inv objs (s\<lparr>streamMail := (streamMail s)\<lparr>qr := dequeue_thread t (qr (streamMail s))\<rparr>\<rparr>) fs"
    by (auto simp: pipe_inv_def mb_open_def pipe_objs_def in_flight_def mb_items_def)
  then show ?case ..
next
  case (transmit s a)
  then have "pipe_inv objs (s\<lparr>radio := Written a, aired := aired s @ [obj_payload (obj_at (stream_pool s) a)]\<rparr>) fs"
    by (auto simp: pipe_inv_def pipe_objs_def in_flight_def)
  then show ?case ..
next
  case (finish s a obj)
  then have "pipe_inv objs (s\<lparr>stream_pool := store_obj (stream_pool s) a obj\<rparr>) fs"
    using store_step [OF finish(3), of a obj] radio_obj [OF finish(3), of a]
    by (force dest: end_of_line_length)
  then have "pipe_inv objs (s\<lparr>stream_pool := store_obj (stream_pool s) a obj, radio := Ended a\<rparr>) fs"
    using finish(1) by (auto simp: pipe_inv_def pipe_objs_def in_flight_def)
  then show ?case ..
next
  case (release s a p)
  then show ?case using release_step by blast
qed

section \<open>The initial state\<close>

lemma pipe_init_inv:
  assumes "base \<noteq> 0" and "4 dvd base" and "base + 120 \<le> 2 ^ 32"
  obtains p where "shared_pools_init m base = Some p"
    and "pipe_inv (set (array_objs base object_bytes STREAM_TX_POOL_SIZE)) (pipe_init p)
           (rev (array_objs base object_bytes STREAM_TX_POOL_SIZE))"
proof -
  let ?l = "array_objs base object_bytes STREAM_TX_POOL_SIZE"
  let ?s = "\<lparr>pool = MEMORYPOOL_DATA object_bytes PORT_NATURAL_ALIGN None, mem = m\<rparr>"
  have sz: "object_bytes = 24" "STREAM_TX_POOL_SIZE = 5"
    by (simp_all add: object_bytes_def STREAM_MESSAGE_SIZE_def STREAM_TX_POOL_SIZE_def)
  have "disjoint_blocks 24 (set ?l)"
    using array_blocks [of base 5 24] assms by (simp add: sz)
  moreover have "4 dvd a" if "a \<in> set ?l" for a
    using that assms(2) by (auto simp: set_array_objs sz intro!: dvd_add dvd_mult)
  ultimately have "pool_inv (set ?l) ?s []"
    using aligned_4 by (auto simp: pool_inv_def MEMORYPOOL_DATA_def sz)
  moreover have "object_size (pool ?s) = object_bytes" by (simp add: MEMORYPOOL_DATA_def)
  ultimately obtain p where p: "load_loop STREAM_TX_POOL_SIZE ?s base = Some p"
      "pool_inv (set ?l) p (rev ?l)" "object_size (pool p) = object_bytes"
    using load_loop_spec [of "set ?l" ?s "[]" base STREAM_TX_POOL_SIZE] by auto
  have "chPoolObjectInit object_bytes None = Some (MEMORYPOOL_DATA object_bytes PORT_NATURAL_ALIGN None)"
    by (simp add: sz chPoolObjectInit_def chPoolObjectInitAligned_def sizeof_ptr_def
        PORT_NATURAL_ALIGN_def MEM_IS_VALID_ALIGNMENT_def MEMORYPOOL_DATA_def)
  with p(1) have "shared_pools_init m base = Some p"
    by (simp add: shared_pools_init_def chPoolLoadArray_def sz)
  moreover have "pipe_inv (set ?l) (pipe_init p) (rev ?l)"
  proof -
    have "distinct ?l" by (rule distinct_array_objs) (simp add: sz)
    moreover have "length ?l = 5" by (simp add: array_objs_def sz)
    ultimately have "card (set ?l) = 5" "mset ?l = mset_set (set ?l)"
      by (simp_all add: distinct_card mset_set_set)
    moreover have "mb_open streamMail_init" "mb_items streamMail_init = []" "top streamMail_init = 5"
      by (simp_all add: streamMail_init_def mb_open_def mb_inv_def mb_items_def MAILBOX_DATA_def sz)
    ultimately show ?thesis
      using p by (simp add: pipe_inv_def pipe_init_def pipe_objs_def in_flight_def)
  qed
  ultimately show ?thesis by (rule that)
qed

lemma reachable_inv:
  assumes "base \<noteq> 0" "4 dvd base" "base + 120 \<le> 2 ^ 32"
    and "shared_pools_init m base = Some p" and "pipe_step\<^sup>*\<^sup>* (pipe_init p) s"
  obtains fs where "pipe_inv (set (array_objs base object_bytes STREAM_TX_POOL_SIZE)) s fs"
proof -
  let ?o = "set (array_objs base object_bytes STREAM_TX_POOL_SIZE)"
  have "\<exists>fs. pipe_inv ?o s fs"
    using assms(5)
  proof (induction rule: rtranclp_induct)
    case base
    obtain p' where "shared_pools_init m base = Some p'" "\<exists>fs. pipe_inv ?o (pipe_init p') fs"
      using pipe_init_inv [OF assms(1-3), of m] by metis
    with assms(4) show ?case by simp
  next
    case (step s s')
    then show ?case using pipe_step_inv by blast
  qed
  then show ?thesis using that by blast
qed

section \<open>Properties\<close>

text \<open>A concrete run used by the witnesses: thread 1 takes an object from the fresh pool.\<close>

lemma first_alloc:
  obtains p q a where "shared_pools_init (\<lambda>_. 0) 4096 = Some p"
    and "pipe_step\<^sup>*\<^sup>* (pipe_init p) ((pipe_init p)\<lparr>stream_pool := q, held := [(1, a)]\<rparr>)"
proof -
  let ?l = "array_objs 4096 object_bytes STREAM_TX_POOL_SIZE"
  obtain p where p: "shared_pools_init (\<lambda>_. 0) 4096 = Some p" "pipe_inv (set ?l) (pipe_init p) (rev ?l)"
    by (rule pipe_init_inv [of 4096 "\<lambda>_. 0"]) simp_all
  then have inv: "pool_inv (set ?l) p (rev ?l)" by (simp add: pipe_inv_def pipe_init_def)
  have ne: "rev ?l \<noteq> []" by (simp add: array_objs_def STREAM_TX_POOL_SIZE_def)
  from inv obtain a q where "chPoolAlloc p = Some (a, q)" "a \<noteq> 0"
    by (cases rule: mpool.alloc_cases) (use ne in auto)
  then have "pipe_step (pipe_init p) ((pipe_init p)\<lparr>stream_pool := q, held := (1, a) # held (pipe_init p)\<rparr>)"
    by (intro pipe_step.alloc) (simp_all add: pipe_init_def)
  then have "pipe_step (pipe_init p) ((pipe_init p)\<lparr>stream_pool := q, held := [(1, a)]\<rparr>)"
    by (simp add: pipe_init_def)
  with p(1) show ?thesis using that by blast
qed



text \<open>
  C8.  The mailbox is as large as the pool, so a post never fails: a thread that holds a
  message object always gets \<^verbatim>\<open>MSG_OK\<close>.  The ignored result of \<^verbatim>\<open>chMBPostTimeout\<close> in the
  threads therefore never leaks an object.
\<close>

theorem pipeline_post_succeeds:
  assumes "base \<noteq> 0" and "4 dvd base" and "base + 120 \<le> 2 ^ 32"
    and "shared_pools_init m base = Some p" and "pipe_step\<^sup>*\<^sup>* (pipe_init p) s"
    and "(t, a) \<in> set (held s)"
  shows "\<exists>mb w. chMBPostTimeout t (streamMail s) a TIME_IMMEDIATE = Some (Return MSG_OK mb w) \<and>
           mb_items mb = mb_items (streamMail s) @ [a]"
proof -
  obtain fs where "pipe_inv (set (array_objs base object_bytes STREAM_TX_POOL_SIZE)) s fs"
    using reachable_inv [OF assms(1-5)] .
  then show ?thesis
    by (rule post_returns_ok [OF _ assms(6)]) blast
qed

theorem pipeline_post_succeeds_witness:
  "\<exists>p s a mb w. shared_pools_init (\<lambda>_. 0) 4096 = Some p \<and> pipe_step\<^sup>*\<^sup>* (pipe_init p) s \<and>
     chMBPostTimeout 1 (streamMail s) a TIME_IMMEDIATE = Some (Return MSG_OK mb w)"
proof (rule first_alloc)
  fix p q a
  let ?s = "(pipe_init p)\<lparr>stream_pool := q, held := [(1, a)]\<rparr>"
  assume "shared_pools_init (\<lambda>_. 0) 4096 = Some p" and "pipe_step\<^sup>*\<^sup>* (pipe_init p) ?s"
  moreover from this
  have "\<exists>mb w. chMBPostTimeout 1 (streamMail ?s) a TIME_IMMEDIATE = Some (Return MSG_OK mb w) \<and>
      mb_items mb = mb_items (streamMail ?s) @ [a]"
    by (intro pipeline_post_succeeds [of 4096 "\<lambda>_. 0" p]) simp_all
  ultimately show ?thesis by blast
qed



end
