(* ===== verification/Ch_Sem.thy ===== *)
theory Ch_Sem
  imports Ch_Threads
begin

text \<open>
  Counting semaphores (\<^verbatim>\<open>os/rt/src/chsem.c\<close>) and binary semaphores
  (\<^verbatim>\<open>os/oslib/include/chbsem.h\<close>).  Waiting threads queue in arrival order
  (\<^verbatim>\<open>CH_CFG_USE_SEMAPHORES_PRIORITY\<close> is off).  The counter is an integer; that it stays far
  from the limits of \<^verbatim>\<open>cnt_t\<close> follows from \<open>sem_inv\<close>, since it is bounded below by the number
  of threads.
\<close>

section \<open>The code\<close>

record semaphore_t =
  sem_queue :: threads_queue_t
  sem_cnt :: int

definition SEMAPHORE_DATA :: "int \<Rightarrow> semaphore_t" where
  "SEMAPHORE_DATA n = \<lparr>sem_queue = [], sem_cnt = n\<rparr>"

definition chSemObjectInit :: "int \<Rightarrow> semaphore_t option" where
  "chSemObjectInit n = do { _ \<leftarrow> dbg_check (0 \<le> n); Some \<lparr>sem_queue = [], sem_cnt = n\<rparr> }"

text \<open>The assertion every operation starts with.\<close>

definition consistent :: "semaphore_t \<Rightarrow> bool" where
  "consistent s \<longleftrightarrow> (0 \<le> sem_cnt s \<and> sem_queue s = []) \<or> (sem_cnt s < 0 \<and> sem_queue s \<noteq> [])"

text \<open>The loop of the reset takes the waiters from the tail of the queue.\<close>

fun lifo_release :: "threads_queue_t \<Rightarrow> msg_t \<Rightarrow> wakeups" where
  "lifo_release q msg =
     (if q = [] then [] else (last q, msg) # lifo_release (butlast q) msg)"

definition chSemResetWithMessageI :: "semaphore_t \<Rightarrow> int \<Rightarrow> msg_t \<Rightarrow> (semaphore_t \<times> wakeups) option" where
  "chSemResetWithMessageI s n msg = do {
     _ \<leftarrow> dbg_check (0 \<le> n);
     _ \<leftarrow> dbg_check (consistent s);
     let s = s\<lparr>sem_cnt := n\<rparr>;
     Some (s\<lparr>sem_queue := []\<rparr>, lifo_release (sem_queue s) msg) }"

definition chSemResetWithMessage :: "semaphore_t \<Rightarrow> int \<Rightarrow> msg_t \<Rightarrow> (semaphore_t \<times> wakeups) option" where
  "chSemResetWithMessage s n msg = chSemResetWithMessageI s n msg"

definition chSemWaitS :: "tid \<Rightarrow> semaphore_t \<Rightarrow> (semaphore_t, msg_t) call option" where
  "chSemWaitS self s = do {
     _ \<leftarrow> dbg_check (consistent s);
     let s = s\<lparr>sem_cnt := sem_cnt s - 1\<rparr>;
     if sem_cnt s < 0 then Some (Sleep (s\<lparr>sem_queue := sem_queue s @ [self]\<rparr>))
     else Some (Return MSG_OK s []) }"

definition chSemWait :: "tid \<Rightarrow> semaphore_t \<Rightarrow> (semaphore_t, msg_t) call option" where
  "chSemWait self s = chSemWaitS self s"

definition chSemWaitTimeoutS :: "tid \<Rightarrow> semaphore_t \<Rightarrow> sysinterval_t \<Rightarrow> (semaphore_t, msg_t) call option" where
  "chSemWaitTimeoutS self s timeout = do {
     _ \<leftarrow> dbg_check (consistent s);
     let s = s\<lparr>sem_cnt := sem_cnt s - 1\<rparr>;
     if sem_cnt s < 0 then
       (if timeout = TIME_IMMEDIATE then Some (Return MSG_TIMEOUT (s\<lparr>sem_cnt := sem_cnt s + 1\<rparr>) [])
        else Some (Sleep (s\<lparr>sem_queue := sem_queue s @ [self]\<rparr>)))
     else Some (Return MSG_OK s []) }"

definition chSemWaitTimeout :: "tid \<Rightarrow> semaphore_t \<Rightarrow> sysinterval_t \<Rightarrow> (semaphore_t, msg_t) call option" where
  "chSemWaitTimeout self s timeout = chSemWaitTimeoutS self s timeout"

text \<open>Both waits return the message the sleeper was woken with.\<close>

definition chSemWait_resume :: "semaphore_t \<Rightarrow> msg_t \<Rightarrow> (semaphore_t, msg_t) call" where
  "chSemWait_resume s rdymsg = Return rdymsg s []"

text \<open>\<^verbatim>\<open>++sp->cnt <= 0\<close> wakes the first waiter; taking it from an empty queue is undefined.\<close>

definition sem_up :: "semaphore_t \<Rightarrow> (semaphore_t \<times> wakeups) option" where
  "sem_up s =
     (let s = s\<lparr>sem_cnt := sem_cnt s + 1\<rparr> in
      if sem_cnt s \<le> 0 then
        (case sem_queue s of [] \<Rightarrow> None | t # ts \<Rightarrow> Some (s\<lparr>sem_queue := ts\<rparr>, [(t, MSG_OK)]))
      else Some (s, []))"

definition chSemSignalI :: "semaphore_t \<Rightarrow> (semaphore_t \<times> wakeups) option" where
  "chSemSignalI s = do { _ \<leftarrow> dbg_check (consistent s); sem_up s }"

definition chSemSignal :: "semaphore_t \<Rightarrow> (semaphore_t \<times> wakeups) option" where
  "chSemSignal s = do { _ \<leftarrow> dbg_check (consistent s); sem_up s }"

fun sem_add_loop :: "nat \<Rightarrow> semaphore_t \<Rightarrow> (semaphore_t \<times> wakeups) option" where
  "sem_add_loop 0 s = Some (s, [])"
| "sem_add_loop (Suc n) s = do {
     (s, w) \<leftarrow> sem_up s; (s, w') \<leftarrow> sem_add_loop n s; Some (s, w @ w') }"

definition chSemAddCounterI :: "semaphore_t \<Rightarrow> int \<Rightarrow> (semaphore_t \<times> wakeups) option" where
  "chSemAddCounterI s n = do {
     _ \<leftarrow> dbg_check (0 < n);
     _ \<leftarrow> dbg_check (consistent s);
     sem_add_loop (nat n) s }"

text \<open>The thread woken by the signal is reported beside the outcome of the wait.\<close>

definition chSemSignalWait ::
    "tid \<Rightarrow> semaphore_t \<Rightarrow> semaphore_t \<Rightarrow> ((semaphore_t \<times> semaphore_t, msg_t) call \<times> wakeups) option" where
  "chSemSignalWait self sps spw = do {
     _ \<leftarrow> dbg_check (consistent sps);
     _ \<leftarrow> dbg_check (consistent spw);
     (sps, w) \<leftarrow> sem_up sps;
     let spw = spw\<lparr>sem_cnt := sem_cnt spw - 1\<rparr>;
     if sem_cnt spw < 0 then Some (Sleep (sps, spw\<lparr>sem_queue := sem_queue spw @ [self]\<rparr>), w)
     else Some (Return MSG_OK (sps, spw) [], w) }"

definition chSemFastWaitI :: "semaphore_t \<Rightarrow> semaphore_t" where
  "chSemFastWaitI s = s\<lparr>sem_cnt := sem_cnt s - 1\<rparr>"

definition chSemFastSignalI :: "semaphore_t \<Rightarrow> semaphore_t" where
  "chSemFastSignalI s = s\<lparr>sem_cnt := sem_cnt s + 1\<rparr>"

definition chSemGetCounterI :: "semaphore_t \<Rightarrow> int" where
  "chSemGetCounterI s = sem_cnt s"

text \<open>The timer of a sleeper expires (\<^verbatim>\<open>__sch_wakeup\<close>, case \<^verbatim>\<open>CH_STATE_WTSEM\<close>): the counter
  goes up again and the thread leaves the queue.\<close>

definition sem_timeout :: "tid \<Rightarrow> semaphore_t \<Rightarrow> semaphore_t" where
  "sem_timeout t s = (let s = chSemFastSignalI s in s\<lparr>sem_queue := remove1 t (sem_queue s)\<rparr>)"

text \<open>Binary semaphores.\<close>

type_synonym binary_semaphore_t = semaphore_t

definition chBSemObjectInit :: "bool \<Rightarrow> binary_semaphore_t option" where
  "chBSemObjectInit taken = chSemObjectInit (if taken then 0 else 1)"

definition chBSemWait :: "tid \<Rightarrow> binary_semaphore_t \<Rightarrow> (binary_semaphore_t, msg_t) call option" where
  "chBSemWait self b = chSemWait self b"

definition chBSemWaitS :: "tid \<Rightarrow> binary_semaphore_t \<Rightarrow> (binary_semaphore_t, msg_t) call option" where
  "chBSemWaitS self b = chSemWaitS self b"

definition chBSemWaitTimeoutS ::
    "tid \<Rightarrow> binary_semaphore_t \<Rightarrow> sysinterval_t \<Rightarrow> (binary_semaphore_t, msg_t) call option" where
  "chBSemWaitTimeoutS self b timeout = chSemWaitTimeoutS self b timeout"

definition chBSemWaitTimeout ::
    "tid \<Rightarrow> binary_semaphore_t \<Rightarrow> sysinterval_t \<Rightarrow> (binary_semaphore_t, msg_t) call option" where
  "chBSemWaitTimeout self b timeout = chSemWaitTimeout self b timeout"

definition chBSemResetI :: "binary_semaphore_t \<Rightarrow> bool \<Rightarrow> (binary_semaphore_t \<times> wakeups) option" where
  "chBSemResetI b taken = chSemResetWithMessageI b (if taken then 0 else 1) MSG_RESET"

definition chBSemReset :: "binary_semaphore_t \<Rightarrow> bool \<Rightarrow> (binary_semaphore_t \<times> wakeups) option" where
  "chBSemReset b taken = chSemResetWithMessage b (if taken then 0 else 1) MSG_RESET"

definition chBSemSignalI :: "binary_semaphore_t \<Rightarrow> (binary_semaphore_t \<times> wakeups) option" where
  "chBSemSignalI b = (if sem_cnt b < 1 then chSemSignalI b else Some (b, []))"

definition chBSemSignal :: "binary_semaphore_t \<Rightarrow> (binary_semaphore_t \<times> wakeups) option" where
  "chBSemSignal b = chBSemSignalI b"

definition chBSemGetStateI :: "binary_semaphore_t \<Rightarrow> bool" where
  "chBSemGetStateI b = (if 0 < sem_cnt b then False else True)"

section \<open>The counter counts the waiters\<close>

definition sem_inv :: "semaphore_t \<Rightarrow> bool" where
  "sem_inv s \<longleftrightarrow> (if sem_queue s = [] then 0 \<le> sem_cnt s else sem_cnt s = - int (length (sem_queue s)))"

lemma sem_inv_consistent: "sem_inv s \<Longrightarrow> consistent s"
  by (auto simp: sem_inv_def consistent_def split: if_splits)

lemma sem_up_spec:
  assumes "sem_inv s"
  shows "sem_up s = Some (s\<lparr>sem_cnt := sem_cnt s + 1, sem_queue := tl (sem_queue s)\<rparr>,
                          map (\<lambda>t. (t, MSG_OK)) (take 1 (sem_queue s)))"
    and "sem_inv (s\<lparr>sem_cnt := sem_cnt s + 1, sem_queue := tl (sem_queue s)\<rparr>)"
  using assms by (cases "sem_queue s"; auto simp: sem_up_def sem_inv_def Let_def)+

lemma sem_add_loop_spec:
  "sem_inv s \<Longrightarrow> \<exists>s'. sem_add_loop n s = Some (s', map (\<lambda>t. (t, MSG_OK)) (take n (sem_queue s))) \<and>
     sem_inv s' \<and> sem_queue s' = drop n (sem_queue s) \<and> sem_cnt s' = sem_cnt s + int n"
proof (induction n arbitrary: s)
  case 0
  then show ?case by simp
next
  case (Suc n)
  show ?case
    using Suc.IH [OF sem_up_spec(2) [OF Suc.prems]] sem_up_spec(1) [OF Suc.prems]
    by (cases "sem_queue s") auto
qed

lemma lifo_release_eq: "lifo_release q msg = map (\<lambda>t. (t, msg)) (rev q)"
  by (induction q rule: rev_induct) simp_all

declare lifo_release.simps [simp del]

lemma sem_wait_spec:
  assumes "sem_inv s"
  shows "chSemWaitTimeoutS self s timeout = Some (
     if 0 < sem_cnt s then Return MSG_OK (s\<lparr>sem_cnt := sem_cnt s - 1\<rparr>) []
     else if timeout = TIME_IMMEDIATE then Return MSG_TIMEOUT s []
     else Sleep (s\<lparr>sem_cnt := sem_cnt s - 1, sem_queue := sem_queue s @ [self]\<rparr>))"
  using sem_inv_consistent [OF assms] by (auto simp: chSemWaitTimeoutS_def Let_def)

lemma sem_inv_waits:
  "sem_inv s \<Longrightarrow> 0 < sem_cnt s \<Longrightarrow> sem_inv (s\<lparr>sem_cnt := sem_cnt s - 1\<rparr>)"
  "sem_inv s \<Longrightarrow> \<not> 0 < sem_cnt s \<Longrightarrow> sem_inv (s\<lparr>sem_cnt := sem_cnt s - 1, sem_queue := sem_queue s @ [t]\<rparr>)"
  by (auto simp: sem_inv_def split: if_splits)

lemma sem_inv_timeout:
  assumes "sem_inv s" "t \<in> set (sem_queue s)"
  shows "sem_inv (sem_timeout t s)"
proof -
  obtain n where n: "length (sem_queue s) = Suc n" using assms(2) by (cases "sem_queue s") auto
  then have "length (remove1 t (sem_queue s)) = n" using assms(2) by (simp add: length_remove1)
  moreover from this have "remove1 t (sem_queue s) = [] \<longleftrightarrow> n = 0" by auto
  moreover have "sem_queue s \<noteq> []" using n by auto
  ultimately show ?thesis
    using assms(1) n by (simp add: sem_inv_def sem_timeout_def chSemFastSignalI_def Let_def)
qed

section \<open>A binary semaphore as a lock\<close>

text \<open>
  Threads that take the semaphore before they use a resource and give it back afterwards.
  \<open>owners\<close> are the threads whose wait returned \<^verbatim>\<open>MSG_OK\<close> or was ended by a signal and that have
  not signalled yet.  An owner signals, or any thread while there is none.
\<close>

record lock_sys =
  bsem :: binary_semaphore_t
  owners :: "tid list"

inductive lock_step :: "lock_sys \<Rightarrow> lock_sys \<Rightarrow> bool" where
  wait_got: "chBSemWaitTimeout t (bsem s) timeout = Some (Return MSG_OK b w) \<Longrightarrow>
    lock_step s (s\<lparr>bsem := b, owners := owners s @ [t]\<rparr>)"
| wait_failed: "chBSemWaitTimeout t (bsem s) timeout = Some (Return MSG_TIMEOUT b w) \<Longrightarrow>
    lock_step s (s\<lparr>bsem := b\<rparr>)"
| wait_sleep: "chBSemWaitTimeout t (bsem s) timeout = Some (Sleep b) \<Longrightarrow>
    lock_step s (s\<lparr>bsem := b\<rparr>)"
| expired: "t \<in> set (sem_queue (bsem s)) \<Longrightarrow>
    lock_step s (s\<lparr>bsem := sem_timeout t (bsem s)\<rparr>)"
| signal: "t \<in> set (owners s) \<Longrightarrow> chBSemSignal (bsem s) = Some (b, w) \<Longrightarrow>
    lock_step s (s\<lparr>bsem := b, owners := remove1 t (owners s) @ map fst w\<rparr>)"
| signal_free: "owners s = [] \<Longrightarrow> chBSemSignal (bsem s) = Some (b, w) \<Longrightarrow>
    lock_step s (s\<lparr>bsem := b, owners := map fst w\<rparr>)"

definition lock_inv :: "lock_sys \<Rightarrow> bool" where
  "lock_inv s \<longleftrightarrow> sem_inv (bsem s) \<and>
     (if owners s = [] then sem_cnt (bsem s) = 1 else sem_cnt (bsem s) \<le> 0 \<and> length (owners s) = 1)"

lemma lock_step_inv: "lock_step s s' \<Longrightarrow> lock_inv s \<Longrightarrow> lock_inv s'"
proof (induction rule: lock_step.induct)
  case (wait_got t s timeout b w)
  then show ?case
    using sem_wait_spec [of "bsem s" t timeout] sem_inv_waits(1) [of "bsem s"]
    by (auto simp: lock_inv_def chBSemWaitTimeout_def chSemWaitTimeout_def split: if_splits)
next
  case (wait_failed t s timeout b w)
  then show ?case
    using sem_wait_spec [of "bsem s" t timeout]
    by (auto simp: lock_inv_def chBSemWaitTimeout_def chSemWaitTimeout_def split: if_splits)
next
  case (wait_sleep t s timeout b)
  then show ?case
    using sem_wait_spec [of "bsem s" t timeout] sem_inv_waits(2) [of "bsem s" t]
    by (auto simp: lock_inv_def chBSemWaitTimeout_def chSemWaitTimeout_def split: if_splits)
next
  case (expired t s)
  then have "sem_queue (bsem s) \<noteq> []" "1 \<le> length (sem_queue (bsem s))"
    by (auto simp: Suc_le_eq)
  with expired show ?case
    using sem_inv_timeout [of "bsem s" t]
    by (auto simp: lock_inv_def sem_timeout_def chSemFastSignalI_def Let_def sem_inv_def split: if_splits)
next
  case (signal t s b w)
  then have inv: "sem_inv (bsem s)" and own: "owners s = [t]" "sem_cnt (bsem s) \<le> 0"
    by (cases "owners s"; auto simp: lock_inv_def)+
  with signal(2) sem_up_spec [OF inv] show ?case
    by (cases "sem_queue (bsem s)")
       (auto simp: lock_inv_def chBSemSignal_def chBSemSignalI_def chSemSignalI_def sem_inv_consistent
         sem_inv_def split: if_splits)
next
  case (signal_free s b w)
  then show ?case by (auto simp: lock_inv_def chBSemSignal_def chBSemSignalI_def)
qed





end
