(* ===== verification/Ch_Lists.thy ===== *)
theory Ch_Lists
  imports Firmware_Prelude
begin

text \<open>
  The linked lists every kernel object is built from (\<^verbatim>\<open>os/rt/include/chlists.h\<close> and
  \<^verbatim>\<open>ch_sch_prio_insert\<close> of \<^verbatim>\<open>chschd.h\<close>), as pointer code: a heap of nodes with their \<^verbatim>\<open>next\<close>, \<^verbatim>\<open>prev\<close>
  and \<^verbatim>\<open>prio\<close> fields, and one definition per inline function that makes the same assignments in the
  same order.  Threads and list headers are both nodes, the two header structures of a thread share
  their link fields as the union \<^verbatim>\<open>hdr\<close> does.

  \<open>ring h q xs\<close> says that the circular list with header \<open>q\<close> holds the nodes \<open>xs\<close>.  The lemmas show
  that each function does on the heap what its name says on \<open>xs\<close>, that it leaves every other
  list alone, and that the scanning loops of the priority queues end at the header.
\<close>

section \<open>The code\<close>

type_synonym tprio_t = u32

record 'n links =
  nxt :: "'n \<Rightarrow> 'n"
  prv :: "'n \<Rightarrow> 'n"
  prio :: "'n \<Rightarrow> tprio_t"

definition set_nxt :: "'n \<Rightarrow> 'n \<Rightarrow> 'n links \<Rightarrow> 'n links" where
  "set_nxt a b h = h\<lparr>nxt := (nxt h)(a := b)\<rparr>"

definition set_prv :: "'n \<Rightarrow> 'n \<Rightarrow> 'n links \<Rightarrow> 'n links" where
  "set_prv a b h = h\<lparr>prv := (prv h)(a := b)\<rparr>"

lemma set_links [simp]:
  "nxt (set_nxt a b h) = (nxt h)(a := b)" "prv (set_nxt a b h) = prv h" "prio (set_nxt a b h) = prio h"
  "nxt (set_prv a b h) = nxt h" "prv (set_prv a b h) = (prv h)(a := b)" "prio (set_prv a b h) = prio h"
  by (simp_all add: set_nxt_def set_prv_def)

subsection \<open>Single links\<close>

definition ch_list_init :: "'n \<Rightarrow> 'n links \<Rightarrow> 'n links" where
  "ch_list_init lp h = set_nxt lp lp h"

definition ch_list_isempty :: "'n \<Rightarrow> 'n links \<Rightarrow> bool" where
  "ch_list_isempty lp h \<longleftrightarrow> nxt h lp = lp"

definition ch_list_notempty :: "'n \<Rightarrow> 'n links \<Rightarrow> bool" where
  "ch_list_notempty lp h \<longleftrightarrow> nxt h lp \<noteq> lp"

definition ch_list_push :: "'n \<Rightarrow> 'n \<Rightarrow> 'n links \<Rightarrow> 'n links" where
  "ch_list_push p lp h = (let h = set_nxt p (nxt h lp) h in set_nxt lp p h)"

definition ch_list_pop :: "'n \<Rightarrow> 'n links \<Rightarrow> 'n \<times> 'n links" where
  "ch_list_pop lp h = (let p = nxt h lp in (p, set_nxt lp (nxt h p) h))"

subsection \<open>Double links\<close>

definition ch_queue_init :: "'n \<Rightarrow> 'n links \<Rightarrow> 'n links" where
  "ch_queue_init qp h = (let h = set_nxt qp qp h in set_prv qp qp h)"

definition ch_queue_isempty :: "'n \<Rightarrow> 'n links \<Rightarrow> bool" where
  "ch_queue_isempty qp h \<longleftrightarrow> nxt h qp = qp"

definition ch_queue_notempty :: "'n \<Rightarrow> 'n links \<Rightarrow> bool" where
  "ch_queue_notempty qp h \<longleftrightarrow> nxt h qp \<noteq> qp"

definition ch_queue_insert :: "'n \<Rightarrow> 'n \<Rightarrow> 'n links \<Rightarrow> 'n links" where
  "ch_queue_insert p qp h = (
     let h = set_nxt p qp h;
         h = set_prv p (prv h qp) h;
         h = set_nxt (prv h p) p h
     in set_prv qp p h)"

definition ch_queue_fifo_remove :: "'n \<Rightarrow> 'n links \<Rightarrow> 'n \<times> 'n links" where
  "ch_queue_fifo_remove qp h = (
     let p = nxt h qp;
         h = set_nxt qp (nxt h p) h;
         h = set_prv (nxt h qp) qp h
     in (p, h))"

definition ch_queue_lifo_remove :: "'n \<Rightarrow> 'n links \<Rightarrow> 'n \<times> 'n links" where
  "ch_queue_lifo_remove qp h = (
     let p = prv h qp;
         h = set_prv qp (prv h p) h;
         h = set_nxt (prv h qp) qp h
     in (p, h))"

definition ch_queue_dequeue :: "'n \<Rightarrow> 'n links \<Rightarrow> 'n links" where
  "ch_queue_dequeue p h = (
     let h = set_nxt (prv h p) (nxt h p) h
     in set_prv (nxt h p) (prv h p) h)"

subsection \<open>Priority queues\<close>

definition ch_pqueue_init :: "'n \<Rightarrow> 'n links \<Rightarrow> 'n links" where
  "ch_pqueue_init pqp h = (
     let h = set_nxt pqp pqp h;
         h = set_prv pqp pqp h
     in h\<lparr>prio := (prio h)(pqp := 0)\<rparr>)"

definition ch_pqueue_remove_highest :: "'n \<Rightarrow> 'n links \<Rightarrow> 'n \<times> 'n links" where
  "ch_pqueue_remove_highest pqp h = (
     let p = nxt h pqp;
         h = set_nxt pqp (nxt h p) h;
         h = set_prv (nxt h pqp) pqp h
     in (p, h))"

text \<open>The loops \<^verbatim>\<open>do pqp = pqp->next while (...)\<close>; \<open>None\<close> is a loop that does not end.\<close>

partial_function (option) scan_behind :: "'n links \<Rightarrow> 'n \<Rightarrow> 'n \<Rightarrow> 'n option" where
  "scan_behind h p pqp = (let pqp = nxt h pqp in if prio h p \<le> prio h pqp then scan_behind h p pqp else Some pqp)"

partial_function (option) scan_ahead :: "'n links \<Rightarrow> 'n \<Rightarrow> 'n \<Rightarrow> 'n option" where
  "scan_ahead h p pqp = (let pqp = nxt h pqp in if prio h p < prio h pqp then scan_ahead h p pqp else Some pqp)"

definition ch_pqueue_insert_behind :: "'n \<Rightarrow> 'n \<Rightarrow> 'n links \<Rightarrow> 'n links option" where
  "ch_pqueue_insert_behind pqp p h = do {
     pqp \<leftarrow> scan_behind h p pqp;
     let h = set_nxt p pqp h;
     let h = set_prv p (prv h pqp) h;
     let h = set_nxt (prv h p) p h;
     Some (set_prv pqp p h) }"

definition ch_pqueue_insert_ahead :: "'n \<Rightarrow> 'n \<Rightarrow> 'n links \<Rightarrow> 'n links option" where
  "ch_pqueue_insert_ahead pqp p h = do {
     pqp \<leftarrow> scan_ahead h p pqp;
     let h = set_nxt p pqp h;
     let h = set_prv p (prv h pqp) h;
     let h = set_nxt (prv h p) p h;
     Some (set_prv pqp p h) }"

partial_function (option) scan_prio :: "'n links \<Rightarrow> 'n \<Rightarrow> 'n \<Rightarrow> 'n \<Rightarrow> 'n option" where
  "scan_prio h tp qp cp =
     (let cp = nxt h cp in if cp \<noteq> qp \<and> prio h tp \<le> prio h cp then scan_prio h tp qp cp else Some cp)"

definition ch_sch_prio_insert :: "'n \<Rightarrow> 'n \<Rightarrow> 'n links \<Rightarrow> 'n links option" where
  "ch_sch_prio_insert tp qp h = do {
     cp \<leftarrow> scan_prio h tp qp qp;
     let h = set_nxt tp cp h;
     let h = set_prv tp (prv h cp) h;
     let h = set_nxt (prv h tp) tp h;
     Some (set_prv cp tp h) }"

section \<open>Lists in the heap\<close>

fun linked :: "'n links \<Rightarrow> 'n list \<Rightarrow> bool" where
  "linked h (a # b # l) \<longleftrightarrow> nxt h a = b \<and> prv h b = a \<and> linked h (b # l)"
| "linked h l \<longleftrightarrow> True"

definition ring :: "'n links \<Rightarrow> 'n \<Rightarrow> 'n list \<Rightarrow> bool" where
  "ring h q xs \<longleftrightarrow> distinct (q # xs) \<and> linked h (q # xs @ [q])"

lemma linked_append: "linked h (xs @ y # ys) \<longleftrightarrow> linked h (xs @ [y]) \<and> linked h (y # ys)"
proof (induction xs)
  case (Cons a xs)
  then show ?case by (cases xs) auto
qed simp

lemma linked_set_nxt: "a \<notin> set (butlast l) \<Longrightarrow> linked (set_nxt a b h) l \<longleftrightarrow> linked h l"
  by (induction h l rule: linked.induct) auto

lemma linked_set_prv: "a \<notin> set (tl l) \<Longrightarrow> linked (set_prv a b h) l \<longleftrightarrow> linked h l"
  by (induction h l rule: linked.induct) auto

lemma linked_cong: "\<lbrakk>\<forall>a \<in> set l. nxt h a = nxt h' a \<and> prv h a = prv h' a\<rbrakk> \<Longrightarrow> linked h l \<longleftrightarrow> linked h' l"
  by (induction h l rule: linked.induct) auto

lemma ring_first: "ring h q (x # xs) \<Longrightarrow> nxt h q = x \<and> prv h x = q"
  by (simp add: ring_def)

lemma ring_empty: "ring h q [] \<longleftrightarrow> nxt h q = q \<and> prv h q = q"
  by (auto simp: ring_def)

lemma ring_isempty: "ring h q xs \<Longrightarrow> nxt h q = q \<longleftrightarrow> xs = []"
  by (cases xs) (auto simp: ring_def)

lemma ring_last: "ring h q (xs @ [x]) \<Longrightarrow> prv h q = x \<and> nxt h x = q"
  using linked_append [of h "q # xs" x "[q]"] by (simp add: ring_def)

lemma ring_prio [simp]: "ring (h\<lparr>prio := f\<rparr>) q xs \<longleftrightarrow> ring h q xs"
proof -
  have "linked (h\<lparr>prio := f\<rparr>) l \<longleftrightarrow> linked h l" for l by (rule linked_cong) simp
  then show ?thesis by (simp add: ring_def)
qed

lemma ring_split:
  assumes "ring h q (xs @ ys)"
  obtains A l c B where "q # xs = A @ [l]" "ys @ [q] = c # B" "nxt h l = c" "prv h c = l"
    "linked h (A @ [l])" "linked h (c # B)" "l \<notin> set A" "l \<notin> set ys" "c \<notin> set xs" "c \<notin> set B"
proof -
  obtain A l where A: "q # xs = A @ [l]" by (cases "q # xs" rule: rev_cases) auto
  obtain c B where B: "ys @ [q] = c # B" by (cases ys) auto
  have d: "distinct (A @ [l])" "distinct (ys @ [q])" "set xs \<inter> set ys = {}" "q \<notin> set xs" "q \<notin> set ys"
    using assms unfolding A [symmetric] ring_def by auto
  have "q # (xs @ ys) @ [q] = A @ l # c # B"
    using arg_cong2 [of _ _ _ _ "(@)", OF A B] by simp
  then have "linked h (A @ l # c # B)" using assms by (simp only: ring_def)
  then have lk: "linked h (A @ [l])" "linked h (l # c # B)" using linked_append [of h A l "c # B"] by blast+
  have "set (q # xs) = set (A @ [l])" "set (ys @ [q]) = set (c # B)" by (simp_all only: A B)
  then have "l \<in> insert q (set xs)" "c \<in> insert q (set ys)" by simp_all
  then have n: "l \<notin> set ys" "c \<notin> set xs" using d by blast+
  have "distinct (c # B)" using d(2) by (simp only: B)
  then show thesis using that [OF A B _ _ lk(1) _ _ n] lk(2) d(1) by simp
qed

lemma ring_insert:
  assumes r: "ring h q (xs @ ys)" and p: "p \<notin> set (q # xs @ ys)"
  shows "ring (ch_queue_insert p (hd (ys @ [q])) h) q (xs @ p # ys)"
proof -
  obtain A l c B where s: "q # xs = A @ [l]" "ys @ [q] = c # B" "nxt h l = c" "prv h c = l"
    "linked h (A @ [l])" "linked h (c # B)" "l \<notin> set A" "l \<notin> set ys" "c \<notin> set xs" "c \<notin> set B"
    using ring_split [OF r] .
  define h' where "h' = ch_queue_insert p c h"
  have "set (q # xs) = set (A @ [l])" "set (ys @ [q]) = set (c # B)" by (simp_all only: s)
  then have pn: "p \<noteq> l" "p \<noteq> c" "p \<notin> set A" "p \<notin> set B" using p by auto
  have tls: "tl (A @ [l]) = xs" "butlast (c # B) = ys" using s(1,2) by (metis list.sel(3), metis butlast_snoc)
  have eq: "h' = set_prv c p (set_nxt l p (set_prv p l (set_nxt p c h)))"
    using s(4) pn by (simp add: h'_def ch_queue_insert_def Let_def)
  have "linked h' (A @ [l])"
    using s pn tls p unfolding eq by (simp add: linked_set_nxt linked_set_prv)
  moreover have "linked h' (c # B)"
    using s pn tls p unfolding eq by (simp add: linked_set_nxt linked_set_prv del: butlast.simps)
  moreover have "nxt h' l = p" "prv h' p = l" "nxt h' p = c" "prv h' c = p"
    using pn by (simp_all add: eq)
  ultimately have "linked h' (A @ l # p # c # B)" by (subst linked_append) simp
  moreover have "q # (xs @ p # ys) @ [q] = A @ l # p # c # B"
    using arg_cong2 [of _ _ _ _ "\<lambda>x y. x @ p # y", OF s(1,2)] by simp
  ultimately have "linked h' (q # (xs @ p # ys) @ [q])" by simp
  then show ?thesis using r p s(2) by (auto simp: ring_def h'_def)
qed

lemma ring_dequeue:
  assumes r: "ring h q (xs @ x # ys)"
  shows "ring (ch_queue_dequeue x h) q (xs @ ys)"
proof -
  obtain A l c B where s: "q # xs = A @ [l]" "(x # ys) @ [q] = c # B" "nxt h l = c" "prv h c = l"
    "linked h (A @ [l])" "linked h (c # B)" "l \<notin> set A" "l \<notin> set (x # ys)" "c \<notin> set xs" "c \<notin> set B"
    using ring_split [OF r] .
  obtain d D where B: "B = d # D" using s(2) by (cases B) auto
  have c: "c = x" "ys @ [q] = d # D" using s(2) B by auto
  have x: "nxt h x = d" "prv h d = x" "prv h x = l" "linked h (d # D)" using s(4,6) B c by auto
  have dist: "x \<noteq> q" "x \<notin> set xs" "distinct (ys @ [q])" "set xs \<inter> set ys = {}" "q \<notin> set xs" "x \<notin> set ys"
    using r by (auto simp: ring_def)
  have lx: "l \<noteq> x" using s(8) by simp
  have d: "d \<notin> set xs" "d \<notin> set D" "d \<noteq> x" using c(2) dist by (cases ys; auto)+
  have tls: "tl (A @ [l]) = xs" "butlast (d # D) = ys" using s(1) c(2) by (metis list.sel(3), metis butlast_snoc)
  define h' where "h' = ch_queue_dequeue x h"
  have eq: "h' = set_prv d l (set_nxt l d h)" using x lx by (simp add: h'_def ch_queue_dequeue_def Let_def)
  have "linked h' (A @ [l])" using s(5,7) d tls unfolding eq by (simp add: linked_set_nxt linked_set_prv)
  moreover have "linked h' (d # D)" using s(8) x(4) d tls unfolding eq
    by (simp add: linked_set_nxt linked_set_prv del: butlast.simps)
  moreover have "nxt h' l = d" "prv h' d = l" by (simp_all add: eq)
  ultimately have "linked h' (A @ l # d # D)" by (subst linked_append) simp
  moreover have "q # (xs @ ys) @ [q] = A @ l # d # D"
    using arg_cong2 [of _ _ _ _ "(@)", OF s(1) c(2)] by simp
  ultimately have "linked h' (q # (xs @ ys) @ [q])" by simp
  then show ?thesis using r by (auto simp: ring_def h'_def)
qed
lemma ring_fifo_remove:
  assumes "ring h q (x # xs)"
  shows "ch_queue_fifo_remove q h = (x, ch_queue_dequeue x h)"
proof -
  have "nxt h q = x" "prv h x = q" "x \<noteq> q" using ring_first [OF assms] assms by (auto simp: ring_def)
  then show ?thesis by (simp add: ch_queue_fifo_remove_def ch_queue_dequeue_def Let_def)
qed

lemma ring_lifo_remove:
  assumes "ring h q (xs @ [x])"
  shows "ch_queue_lifo_remove q h = (x, ch_queue_dequeue x h)"
proof -
  have l: "prv h q = x" "nxt h x = q" "x \<noteq> q" using ring_last [OF assms] assms by (auto simp: ring_def)
  have "set_nxt a b (set_prv c d h) = set_prv c d (set_nxt a b h)" for a b c d
    by (simp add: set_nxt_def set_prv_def)
  moreover have "prv h x \<noteq> x"
  proof (cases xs rule: rev_cases)
    case Nil
    then show ?thesis using assms l(3) ring_first [of h q x "[]"] by simp
  next
    case (snoc ys y)
    then have "linked h ((q # ys) @ y # x # [q])" using assms by (simp add: ring_def)
    then have "prv h x = y" using linked_append [of h "q # ys" y "[x, q]"] by simp
    then show ?thesis using assms snoc by (auto simp: ring_def)
  qed
  ultimately show ?thesis using l by (simp add: ch_queue_lifo_remove_def ch_queue_dequeue_def Let_def)
qed

text \<open>Every other list in the heap stays as it is.\<close>

lemma ring_insert_frame:
  assumes "ring h q (xs @ ys)" "ring h q' zs" "set (q' # zs) \<inter> set (p # q # xs @ ys) = {}"
  shows "ring (ch_queue_insert p (hd (ys @ [q])) h) q' zs"
proof -
  obtain A l c B where s: "q # xs = A @ [l]" "ys @ [q] = c # B" "prv h c = l"
    using ring_split [OF assms(1)] by metis
  have "l \<in> set (q # xs)" "c \<in> set (ys @ [q])" by (simp_all only: s) simp_all
  then have "nxt h a = nxt (ch_queue_insert p c h) a \<and> prv h a = prv (ch_queue_insert p c h) a"
    if "a \<in> set (q' # zs @ [q'])" for a
    using that assms(3) s(3) by (auto simp: ch_queue_insert_def Let_def)
  then show ?thesis using assms(2) s(2) linked_cong [of "q' # zs @ [q']" h] by (simp add: ring_def)
qed

lemma ring_dequeue_frame:
  assumes "ring h q (xs @ x # ys)" "ring h q' zs" "set (q' # zs) \<inter> set (q # xs @ x # ys) = {}"
  shows "ring (ch_queue_dequeue x h) q' zs"
proof -
  obtain A l c B where s: "q # xs = A @ [l]" "(x # ys) @ [q] = c # B" "prv h c = l" "linked h (c # B)"
    using ring_split [OF assms(1)] by metis
  obtain d D where B: "B = d # D" "ys @ [q] = d # D" using s(2) by (cases B) auto
  have "l \<in> set (q # xs)" "d \<in> set (ys @ [q])" by (simp_all only: s B) simp_all
  moreover have "prv h x = l" "nxt h x = d" using s(2-4) B by auto
  moreover from this have "nxt (ch_queue_dequeue x h) a = ((nxt h)(l := d)) a" for a
    by (simp add: ch_queue_dequeue_def Let_def)
  moreover have "l \<noteq> x" using \<open>l \<in> set (q # xs)\<close> assms(1) by (auto simp: ring_def)
  ultimately have "nxt h a = nxt (ch_queue_dequeue x h) a \<and> prv h a = prv (ch_queue_dequeue x h) a"
    if "a \<in> set (q' # zs @ [q'])" for a
    using that assms(3) by (auto simp: ch_queue_dequeue_def Let_def)
  then show ?thesis using assms(2) linked_cong [of "q' # zs @ [q']" h] by (simp add: ring_def)
qed

section \<open>Priority order\<close>

text \<open>The place of a newcomer behind and ahead of its peers.\<close>

definition behind :: "('n \<Rightarrow> tprio_t) \<Rightarrow> 'n \<Rightarrow> 'n list \<Rightarrow> 'n list" where
  "behind pr p xs = takeWhile (\<lambda>x. pr p \<le> pr x) xs @ p # dropWhile (\<lambda>x. pr p \<le> pr x) xs"

definition ahead :: "('n \<Rightarrow> tprio_t) \<Rightarrow> 'n \<Rightarrow> 'n list \<Rightarrow> 'n list" where
  "ahead pr p xs = takeWhile (\<lambda>x. pr p < pr x) xs @ p # dropWhile (\<lambda>x. pr p < pr x) xs"

abbreviation descending :: "('n \<Rightarrow> tprio_t) \<Rightarrow> 'n list \<Rightarrow> bool" where
  "descending pr xs \<equiv> sorted_wrt (\<lambda>x y. pr y \<le> pr x) xs"

lemma set_behind [simp]: "set (behind pr p xs) = insert p (set xs)"
  using set_append [of "takeWhile (\<lambda>x. pr p \<le> pr x) xs" "dropWhile (\<lambda>x. pr p \<le> pr x) xs"]
  by (auto simp: behind_def)

lemma set_ahead [simp]: "set (ahead pr p xs) = insert p (set xs)"
  using set_append [of "takeWhile (\<lambda>x. pr p < pr x) xs" "dropWhile (\<lambda>x. pr p < pr x) xs"]
  by (auto simp: ahead_def)

lemma descending_split:
  assumes "descending pr xs" and up: "\<And>x y. P y \<Longrightarrow> pr y \<le> pr x \<Longrightarrow> P x"
    and P: "\<And>x. P x \<Longrightarrow> pr p \<le> pr x" and nP: "\<And>x. \<not> P x \<Longrightarrow> pr x \<le> pr p"
  shows "descending pr (takeWhile P xs @ p # dropWhile P xs)"
proof -
  have d: "descending pr (takeWhile P xs @ dropWhile P xs)" using assms(1) by simp
  have "\<not> P y" if "y \<in> set (dropWhile P xs)" for y
  proof
    assume "P y"
    obtain z zs where z: "dropWhile P xs = z # zs" using \<open>y \<in> _\<close> by (cases "dropWhile P xs") auto
    then have "\<not> P z" by (metis hd_dropWhile list.distinct(1) list.sel(1))
    moreover have "pr y \<le> pr z" using d z that by (auto simp: sorted_wrt_append)
    ultimately show False using up \<open>P y\<close> by blast
  qed
  then have "pr y \<le> pr p" if "y \<in> set (dropWhile P xs)" for y using that nP by blast
  moreover have "pr p \<le> pr x" if "x \<in> set (takeWhile P xs)" for x using that P set_takeWhileD by metis
  ultimately show ?thesis using d by (auto simp: sorted_wrt_append intro: order_trans [of _ "pr p"])
qed

lemma descending_behind: "descending pr xs \<Longrightarrow> descending pr (behind pr p xs)"
  unfolding behind_def by (rule descending_split) auto

lemma descending_ahead: "descending pr xs \<Longrightarrow> descending pr (ahead pr p xs)"
  unfolding ahead_def by (rule descending_split) auto
lemma pqueue_eqs:
  "ch_pqueue_remove_highest = ch_queue_fifo_remove"
  "ch_pqueue_insert_behind q p h = map_option (\<lambda>c. ch_queue_insert p c h) (scan_behind h p q)"
  "ch_pqueue_insert_ahead q p h = map_option (\<lambda>c. ch_queue_insert p c h) (scan_ahead h p q)"
  "ch_sch_prio_insert p q h = map_option (\<lambda>c. ch_queue_insert p c h) (scan_prio h p q q)"
  by (simp_all add: fun_eq_iff ch_pqueue_remove_highest_def ch_queue_fifo_remove_def ch_pqueue_insert_behind_def
      ch_pqueue_insert_ahead_def ch_sch_prio_insert_def ch_queue_insert_def Let_def map_option_case split: bind_split option.split)

text \<open>The loops end at the header, whose priority 0 is below that of every thread.\<close>

lemma scan_behind_ends:
  "\<lbrakk>linked h (s # xs @ [q]); prio h q < prio h p\<rbrakk> \<Longrightarrow>
   scan_behind h p s = Some (hd (dropWhile (\<lambda>x. prio h p \<le> prio h x) xs @ [q]))"
proof (induction xs arbitrary: s)
  case Nil
  then show ?case by (subst scan_behind.simps) (auto simp: Let_def)
next
  case (Cons x xs)
  then have "nxt h s = x" "linked h (x # xs @ [q])" by (auto simp: neq_Nil_conv)
  then show ?case using Cons by (subst scan_behind.simps) (simp add: Let_def)
qed

lemma scan_ahead_ends:
  "\<lbrakk>linked h (s # xs @ [q]); prio h q \<le> prio h p\<rbrakk> \<Longrightarrow>
   scan_ahead h p s = Some (hd (dropWhile (\<lambda>x. prio h p < prio h x) xs @ [q]))"
proof (induction xs arbitrary: s)
  case Nil
  then show ?case by (subst scan_ahead.simps) (auto simp: Let_def)
next
  case (Cons x xs)
  then have "nxt h s = x" "linked h (x # xs @ [q])" by (auto simp: neq_Nil_conv)
  then show ?case using Cons by (subst scan_ahead.simps) (simp add: Let_def)
qed

lemma scan_prio_ends:
  "\<lbrakk>linked h (s # xs @ [q]); q \<notin> set xs\<rbrakk> \<Longrightarrow>
   scan_prio h p q s = Some (hd (dropWhile (\<lambda>x. prio h p \<le> prio h x) xs @ [q]))"
proof (induction xs arbitrary: s)
  case Nil
  then show ?case by (subst scan_prio.simps) (simp add: Let_def)
next
  case (Cons x xs)
  then have "nxt h s = x" "linked h (x # xs @ [q])" by (auto simp: neq_Nil_conv)
  then show ?case using Cons by (subst scan_prio.simps) (auto simp: Let_def)
qed

lemma prio_insert [simp]: "prio (ch_queue_insert p c h) = prio h" "prio (ch_queue_dequeue p h) = prio h"
  by (simp_all add: ch_queue_insert_def ch_queue_dequeue_def Let_def)

text \<open>What the three insertions do: \<open>others\<close> are the other lists of the heap.\<close>

definition inserted :: "'n links \<Rightarrow> 'n \<Rightarrow> 'n list \<Rightarrow> 'n \<Rightarrow> 'n list \<Rightarrow> 'n links \<Rightarrow> bool" where
  "inserted h q xs p ys h' \<longleftrightarrow> ring h' q ys \<and> prio h' = prio h \<and>
     (\<forall>q' zs. ring h q' zs \<and> set (q' # zs) \<inter> set (p # q # xs) = {} \<longrightarrow> ring h' q' zs)"

lemma insertedI:
  assumes "ring h q (xs @ ys)" "p \<notin> set (q # xs @ ys)"
  shows "inserted h q (xs @ ys) p (xs @ p # ys) (ch_queue_insert p (hd (ys @ [q])) h)"
  using assms ring_insert_frame [OF assms(1)] by (auto simp: inserted_def intro: ring_insert)

lemma insert_behind_ok:
  assumes "ring h q xs" "p \<notin> set (q # xs)" "prio h q < prio h p"
  shows "\<exists>h'. ch_pqueue_insert_behind q p h = Some h' \<and> inserted h q xs p (behind (prio h) p xs) h'"
  using scan_behind_ends [of h q xs q p] assms
    insertedI [of h q "takeWhile (\<lambda>x. prio h p \<le> prio h x) xs" "dropWhile (\<lambda>x. prio h p \<le> prio h x) xs" p]
  by (simp add: pqueue_eqs behind_def ring_def)

lemma insert_ahead_ok:
  assumes "ring h q xs" "p \<notin> set (q # xs)" "prio h q \<le> prio h p"
  shows "\<exists>h'. ch_pqueue_insert_ahead q p h = Some h' \<and> inserted h q xs p (ahead (prio h) p xs) h'"
  using scan_ahead_ends [of h q xs q p] assms
    insertedI [of h q "takeWhile (\<lambda>x. prio h p < prio h x) xs" "dropWhile (\<lambda>x. prio h p < prio h x) xs" p]
  by (simp add: pqueue_eqs ahead_def ring_def)

lemma prio_insert_ok:
  assumes "ring h q xs" "p \<notin> set (q # xs)"
  shows "\<exists>h'. ch_sch_prio_insert p q h = Some h' \<and> inserted h q xs p (behind (prio h) p xs) h'"
  using scan_prio_ends [of h q xs q p] assms
    insertedI [of h q "takeWhile (\<lambda>x. prio h p \<le> prio h x) xs" "dropWhile (\<lambda>x. prio h p \<le> prio h x) xs" p]
  by (simp add: pqueue_eqs behind_def ring_def)

lemma queue_insert_ok:
  assumes "ring h q xs" "p \<notin> set (q # xs)"
  shows "inserted h q xs p (xs @ [p]) (ch_queue_insert p q h)"
  using insertedI [of h q xs "[]" p] assms by simp

text \<open>And the removals.\<close>

definition removed :: "'n links \<Rightarrow> 'n \<Rightarrow> 'n list \<Rightarrow> 'n list \<Rightarrow> 'n links \<Rightarrow> bool" where
  "removed h q xs ys h' \<longleftrightarrow> ring h' q ys \<and> prio h' = prio h \<and>
     (\<forall>q' zs. ring h q' zs \<and> set (q' # zs) \<inter> set (q # xs) = {} \<longrightarrow> ring h' q' zs)"

lemma dequeue_ok:
  assumes "ring h q (xs @ x # ys)"
  shows "removed h q (xs @ x # ys) (xs @ ys) (ch_queue_dequeue x h)"
  using assms ring_dequeue_frame [OF assms] by (auto simp: removed_def intro: ring_dequeue)

lemma fifo_remove_ok:
  "ring h q (x # xs) \<Longrightarrow> \<exists>h'. ch_queue_fifo_remove q h = (x, h') \<and> removed h q (x # xs) xs h'"
  using dequeue_ok [of h q "[]" x xs] by (simp add: ring_fifo_remove)
section \<open>Properties\<close>

text \<open>
  C31.  The pointer code implements lists: appending, taking the first, taking the last and
  unlinking an arbitrary element of a circular list do on the heap what they do on the sequence of
  its nodes, and every list that shares no node with it stays as it was.
\<close>

theorem queue_refines_list:
  assumes "ring h q xs" and "p \<notin> set (q # xs)" and "x \<in> set xs"
  shows "inserted h q xs p (xs @ [p]) (ch_queue_insert p q h) \<and>
    (\<exists>h'. ch_queue_fifo_remove q h = (hd xs, h') \<and> removed h q xs (tl xs) h') \<and>
    (\<exists>h'. ch_queue_lifo_remove q h = (last xs, h') \<and> removed h q xs (butlast xs) h') \<and>
    removed h q xs (remove1 x xs) (ch_queue_dequeue x h)"
proof (intro conjI)
  show "inserted h q xs p (xs @ [p]) (ch_queue_insert p q h)" using assms(1,2) by (rule queue_insert_ok)
  have ne: "xs \<noteq> []" using assms(3) by auto
  show "\<exists>h'. ch_queue_fifo_remove q h = (hd xs, h') \<and> removed h q xs (tl xs) h'"
    using fifo_remove_ok [of h q "hd xs" "tl xs"] assms(1) ne by simp
  show "\<exists>h'. ch_queue_lifo_remove q h = (last xs, h') \<and> removed h q xs (butlast xs) h'"
    using ring_lifo_remove [of h q "butlast xs" "last xs"] dequeue_ok [of h q "butlast xs" "last xs" "[]"] assms(1) ne
    by simp
  obtain ys zs where "xs = ys @ x # zs" "x \<notin> set ys" using assms(3) by (metis split_list_first)
  then show "removed h q xs (remove1 x xs) (ch_queue_dequeue x h)"
    using dequeue_ok [of h q ys x zs] assms(1) by (simp add: remove1_append)
qed

theorem queue_refines_list_witness:
  "\<exists>h h'. ring h (0 :: nat) [1, 2] \<and> inserted h 0 [1, 2] 3 [1, 2, 3] (ch_queue_insert 3 0 h) \<and>
     ch_queue_fifo_remove 0 h = (1, h') \<and> removed h 0 [1, 2] [1] (ch_queue_dequeue 2 h)"
proof -
  define h where "h = ch_queue_insert 2 0 (ch_queue_insert 1 0 (ch_queue_init 0 \<lparr>nxt = id :: nat \<Rightarrow> nat, prv = id, prio = \<lambda>_. 128\<rparr>))"
  have "ring h (0 :: nat) [1, 2]"
    by (simp add: h_def ring_def ch_queue_insert_def ch_queue_init_def Let_def)
  with queue_refines_list [of h 0 "[1, 2]" 3 2] show ?thesis by auto
qed



end
