(* ===== verification/Ch_Vt.thy ===== *)
theory Ch_Vt
  imports Ch_Time
begin

text \<open>
  The virtual timers of the kernel: \<^verbatim>\<open>os/rt/src/chvt.c\<close> in its tickless form
  (\<^verbatim>\<open>CH_CFG_ST_TIMEDELTA\<close> is 2, the hardware counter has 16 bits and an interval 32).  Every sleep
  and every timeout of the firmware, up to the 300 seconds between two measurements, is one of
  these timers.

  The doubly linked delta list is the list of its elements from the header on, each with its
  distance to the one before; the header's own distance is the largest 32-bit value, so a scan ends
  there at the latest.  \<open>alarm\<close> is the compare register of the hardware timer, \<open>None\<close> when it is
  stopped, and the system time is an argument of every operation that reads it.

  The specification keeps an absolute deadline, a natural number, for every armed timer.  The
  theorems show that the delta list represents exactly these deadlines in spite of the 16-bit clock
  and of the clamping of the alarm, that a tick calls exactly the expired timers in their order, and
  that no assertion fails; and that the special treatment of delays near the 32-bit limit
  moves other deadlines.
\<close>

section \<open>The code\<close>

type_synonym vt = nat

record 'f virtual_timers_list_t =
  dlist :: "(vt \<times> sysinterval_t) list"
  lasttime :: systime_t
  vt_func :: "vt \<Rightarrow> 'f option"
  alarm :: "systime_t option"

definition CH_CFG_ST_TIMEDELTA :: sysinterval_t where "CH_CFG_ST_TIMEDELTA = 2"

definition vt_object_init :: "'f virtual_timers_list_t \<Rightarrow> 'f virtual_timers_list_t" where
  "vt_object_init v = v\<lparr>dlist := [], lasttime := 0\<rparr>"

text \<open>The compression: the new list and what is left of the interval.\<close>

fun compress :: "sysinterval_t \<Rightarrow> (vt \<times> sysinterval_t) list \<Rightarrow> (vt \<times> sysinterval_t) list \<times> sysinterval_t" where
  "compress deltanow [] = ([], deltanow)"
| "compress deltanow ((t, delta) # l) =
     (if delta < deltanow
      then let (l', rest) = compress (deltanow - delta) l in ((t, 0) # l', rest)
      else ((t, delta - deltanow) # l, deltanow))"

definition vt_list_compress :: "'f virtual_timers_list_t \<Rightarrow> sysinterval_t \<Rightarrow> 'f virtual_timers_list_t" where
  "vt_list_compress v deltanow =
     (let (l, rest) = compress deltanow (dlist v) in v\<lparr>dlist := l, lasttime := lasttime v + ucast rest\<rparr>)"

fun vt_insert :: "vt \<Rightarrow> sysinterval_t \<Rightarrow> (vt \<times> sysinterval_t) list \<Rightarrow> (vt \<times> sysinterval_t) list option" where
  "vt_insert vtp delta [] = Some [(vtp, delta)]"
| "vt_insert vtp delta ((t, d) # l) =
     (if d < delta then do {
        _ \<leftarrow> dbg_check (t \<noteq> vtp);
        l \<leftarrow> vt_insert vtp (delta - d) l;
        Some ((t, d) # l) }
      else Some ((vtp, delta) # (t, d - delta) # l))"

definition clamp_systime :: "sysinterval_t \<Rightarrow> sysinterval_t" where
  "clamp_systime delay = (if delay > ucast TIME_MAX_SYSTIME then ucast TIME_MAX_SYSTIME else delay)"

definition chVTDoSetI ::
    "'f virtual_timers_list_t \<Rightarrow> systime_t \<Rightarrow> vt \<Rightarrow> sysinterval_t \<Rightarrow> 'f \<Rightarrow> 'f virtual_timers_list_t option" where
  "chVTDoSetI v now vtp delay fn = do {
     _ \<leftarrow> dbg_check (delay \<noteq> TIME_IMMEDIATE);
     let v = v\<lparr>vt_func := (vt_func v)(vtp := Some fn)\<rparr>;
     let delay = (if delay < CH_CFG_ST_TIMEDELTA then CH_CFG_ST_TIMEDELTA else delay);
     if dlist v = [] then do {
       let v = v\<lparr>lasttime := now, dlist := [(vtp, delay)]\<rparr>;
       a \<leftarrow> chTimeAddX (lasttime v) (clamp_systime delay);
       Some (v\<lparr>alarm := Some a\<rparr>) }
     else do {
       let deltanow = chTimeDiffX (lasttime v) now;
       let delta = deltanow + delay;
       (v, delta) \<leftarrow> (if delta < deltanow then Some (vt_list_compress v deltanow, delta - deltanow)
         else if delta < snd (hd (dlist v)) then do {
           a \<leftarrow> chTimeAddX (lasttime v) (clamp_systime delta);
           Some (v\<lparr>alarm := Some a\<rparr>, delta) }
         else Some (v, delta));
       l \<leftarrow> vt_insert vtp delta (dlist v);
       Some (v\<lparr>dlist := l\<rparr>) } }"

text \<open>Unlinking an element: its distance is added to that of the next one, if there is one.\<close>

fun vt_unlink :: "vt \<Rightarrow> (vt \<times> sysinterval_t) list \<Rightarrow> (vt \<times> sysinterval_t) list option" where
  "vt_unlink vtp [] = None"
| "vt_unlink vtp ((t, d) # l) =
     (if t = vtp then Some (case l of [] \<Rightarrow> [] | (t', d') # l' \<Rightarrow> (t', d' + d) # l')
      else do { l \<leftarrow> vt_unlink vtp l; Some ((t, d) # l) })"

definition chVTDoResetI :: "'f virtual_timers_list_t \<Rightarrow> systime_t \<Rightarrow> vt \<Rightarrow> 'f virtual_timers_list_t option" where
  "chVTDoResetI v now vtp = do {
     _ \<leftarrow> dbg_check (vt_func v vtp \<noteq> None);
     l \<leftarrow> vt_unlink vtp (dlist v);
     let first = fst (hd (dlist v)) = vtp;
     let v = v\<lparr>dlist := l, vt_func := (vt_func v)(vtp := None)\<rparr>;
     if \<not> first then Some v
     else if dlist v = [] then Some (v\<lparr>alarm := None\<rparr>)
     else do {
       let nowdelta = chTimeDiffX (lasttime v) now;
       if nowdelta \<ge> snd (hd (dlist v)) then Some v
       else do {
         let delta = snd (hd (dlist v)) - nowdelta;
         let delta = (if delta < CH_CFG_ST_TIMEDELTA then nowdelta + CH_CFG_ST_TIMEDELTA
                      else clamp_systime (nowdelta + delta));
         a \<leftarrow> chTimeAddX (lasttime v) delta;
         Some (v\<lparr>alarm := Some a\<rparr>) } } }"

text \<open>
  The ticker.  A callback works on the rest of the kernel, \<open>'k\<close>.  The inner loop consumes the timers
  that have expired at the time last read; the outer loop reads the time again until none has.
\<close>

function vt_consume ::
    "('f \<Rightarrow> 'k \<Rightarrow> 'k) \<Rightarrow> 'f virtual_timers_list_t \<Rightarrow> sysinterval_t \<Rightarrow> 'k \<Rightarrow> 'f virtual_timers_list_t \<times> sysinterval_t \<times> 'k" where
  "vt_consume run v nowdelta k =
     (case dlist v of
        [] \<Rightarrow> (v, nowdelta, k)
      | (vtp, delta) # l \<Rightarrow>
          if delta \<le> nowdelta then
            let fn = vt_func v vtp;
                v = v\<lparr>lasttime := lasttime v + ucast delta, dlist := l, vt_func := (vt_func v)(vtp := None)\<rparr>;
                v = (if l = [] then v\<lparr>alarm := None\<rparr> else v)
            in vt_consume run v (nowdelta - delta) (case fn of None \<Rightarrow> k | Some fn \<Rightarrow> run fn k)
          else (v, nowdelta, k))"
  by pat_completeness auto
termination
  by (relation "measure (\<lambda>(run, v, nowdelta, k). length (dlist v))") auto

declare vt_consume.simps [simp del]

lemma vt_consume_Nil [simp]: "dlist v = [] \<Longrightarrow> vt_consume run v nowdelta k = (v, nowdelta, k)"
  by (subst vt_consume.simps) simp

lemma vt_consume_length: "length (dlist (fst (vt_consume run v nowdelta k))) \<le> length (dlist v)"
proof (induction run v nowdelta k rule: vt_consume.induct)
  case (1 run v nowdelta k)
  show ?case
  proof (cases "dlist v")
    case Nil
    then show ?thesis by (subst vt_consume.simps) simp
  next
    case (Cons e l)
    with 1 show ?thesis by (cases e, subst vt_consume.simps) (fastforce simp: Let_def)
  qed
qed

lemma vt_consume_shorter:
  "dlist v \<noteq> [] \<Longrightarrow> snd (hd (dlist v)) \<le> nowdelta \<Longrightarrow>
   length (dlist (fst (vt_consume run v nowdelta k))) < length (dlist v)"
  by (cases "dlist v", simp, subst vt_consume.simps)
     (auto simp: Let_def less_Suc_eq_le split: prod.splits intro: order_trans [OF vt_consume_length])

text \<open>\<open>clock\<close> gives the successive readings of the counter, the \<open>n\<close>-th being the next one.\<close>

function tick_loop ::
    "('f \<Rightarrow> 'k \<Rightarrow> 'k) \<Rightarrow> (nat \<Rightarrow> systime_t) \<Rightarrow> nat \<Rightarrow> 'f virtual_timers_list_t \<Rightarrow> 'k \<Rightarrow>
     'f virtual_timers_list_t \<times> systime_t \<times> sysinterval_t \<times> nat \<times> 'k" where
  "tick_loop run clock n v k =
     (let now = clock n; nowdelta = chTimeDiffX (lasttime v) now in
      if dlist v = [] \<or> nowdelta < snd (hd (dlist v)) then (v, now, nowdelta, Suc n, k)
      else (case vt_consume run v nowdelta k of (v', _, k') \<Rightarrow> tick_loop run clock (Suc n) v' k'))"
  by pat_completeness auto
termination
proof (relation "measure (\<lambda>(run, clock, n, v, k). length (dlist v))", simp, goal_cases)
  case (1 run clock n v k now nowdelta vn v' y k')
  then show ?case
    using vt_consume_shorter [of v nowdelta run k] by (simp add: not_less) (metis fst_conv)
qed

declare tick_loop.simps [simp del]

definition chVTDoTickI ::
    "('f \<Rightarrow> 'k \<Rightarrow> 'k) \<Rightarrow> (nat \<Rightarrow> systime_t) \<Rightarrow> 'f virtual_timers_list_t \<Rightarrow> 'k \<Rightarrow> ('f virtual_timers_list_t \<times> 'k) option" where
  "chVTDoTickI run clock v k = (case tick_loop run clock 0 v k of (v, now, nowdelta, n, k) \<Rightarrow>
     (case dlist v of
        [] \<Rightarrow> Some (v, k)
      | (vtp, delta) # l \<Rightarrow> do {
          let v = v\<lparr>lasttime := lasttime v + ucast nowdelta, dlist := (vtp, delta - nowdelta) # l\<rparr>;
          let delta = (delta - nowdelta) - chTimeDiffX (lasttime v) now;
          let delta = (if delta < CH_CFG_ST_TIMEDELTA then CH_CFG_ST_TIMEDELTA else clamp_systime delta);
          a \<leftarrow> chTimeAddX now delta;
          _ \<leftarrow> dbg_check (chTimeDiffX (lasttime v) (clock n) \<le> chTimeDiffX (lasttime v) a);
          Some (v\<lparr>alarm := Some a\<rparr>, k) }))"

definition chVTIsArmedI :: "'f virtual_timers_list_t \<Rightarrow> vt \<Rightarrow> bool" where
  "chVTIsArmedI v vtp \<longleftrightarrow> vt_func v vtp \<noteq> None"

definition chVTResetI :: "'f virtual_timers_list_t \<Rightarrow> systime_t \<Rightarrow> vt \<Rightarrow> 'f virtual_timers_list_t option" where
  "chVTResetI v now vtp = (if chVTIsArmedI v vtp then chVTDoResetI v now vtp else Some v)"

definition chVTSetI ::
    "'f virtual_timers_list_t \<Rightarrow> systime_t \<Rightarrow> vt \<Rightarrow> sysinterval_t \<Rightarrow> 'f \<Rightarrow> 'f virtual_timers_list_t option" where
  "chVTSetI v now vtp delay fn = do {
     v \<leftarrow> chVTResetI v now vtp;
     chVTDoSetI v now vtp delay fn }"

definition chVTGetTimersStateI :: "'f virtual_timers_list_t \<Rightarrow> systime_t \<Rightarrow> sysinterval_t option" where
  "chVTGetTimersStateI v now =
     (if dlist v = [] then None
      else Some (snd (hd (dlist v)) + CH_CFG_ST_TIMEDELTA - chTimeDiffX (lasttime v) now))"

definition chVTTimeElapsedSinceX :: "systime_t \<Rightarrow> systime_t \<Rightarrow> sysinterval_t" where
  "chVTTimeElapsedSinceX now start = chTimeDiffX start now"

definition chVTIsSystemTimeWithinX :: "systime_t \<Rightarrow> systime_t \<Rightarrow> systime_t \<Rightarrow> bool" where
  "chVTIsSystemTimeWithinX now start end = chTimeIsInRangeX now start end"
section \<open>Deadlines\<close>

text \<open>The absolute deadlines a delta list stands for, counted from the base \<open>b\<close>.\<close>

fun deadlines :: "nat \<Rightarrow> (vt \<times> sysinterval_t) list \<Rightarrow> (vt \<times> nat) list" where
  "deadlines b [] = []"
| "deadlines b ((t, d) # l) = (t, b + unat d) # deadlines (b + unat d) l"

definition total :: "(vt \<times> sysinterval_t) list \<Rightarrow> nat" where
  "total l = (\<Sum>(t, d) \<leftarrow> l. unat d)"

definition ins_deadline :: "vt \<Rightarrow> nat \<Rightarrow> (vt \<times> nat) list \<Rightarrow> (vt \<times> nat) list" where
  "ins_deadline t x A = takeWhile (\<lambda>e. snd e < x) A @ (t, x) # dropWhile (\<lambda>e. snd e < x) A"

lemma total_simps [simp]: "total [] = 0" "total ((t, d) # l) = unat d + total l"
  by (simp_all add: total_def)

lemma fst_deadlines [simp]: "map fst (deadlines b l) = map fst l"
  by (induction b l rule: deadlines.induct) simp_all

lemma fst_set_deadlines [simp]: "fst ` set (deadlines b l) = fst ` set l"
  by (metis fst_deadlines list.set_map)

lemma deadlines_eq_Nil [simp]: "deadlines b l = [] \<longleftrightarrow> l = []"
  by (cases "(b, l)" rule: deadlines.cases) simp_all

lemma deadlines_base: "e \<in> set (deadlines b l) \<Longrightarrow> b \<le> snd e"
  by (induction b l rule: deadlines.induct) fastforce+

lemma deadlines_total: "e \<in> set (deadlines b l) \<Longrightarrow> snd e \<le> b + total l"
  by (induction b l rule: deadlines.induct) fastforce+

lemma deadlines_sorted: "sorted (map snd (deadlines b l))"
  by (induction b l rule: deadlines.induct) (auto dest: deadlines_base)

lemma unat_diff: "b \<le> a \<Longrightarrow> unat (a - b :: u32) = unat a - unat b"
  by (simp add: unat_sub)

lemma vt_insert_ok:
  "t \<notin> set (map fst l) \<Longrightarrow>
   \<exists>l'. vt_insert t delta l = Some l' \<and> deadlines b l' = ins_deadline t (b + unat delta) (deadlines b l) \<and>
     total l' = max (total l) (unat delta)"
proof (induction t delta l arbitrary: b rule: vt_insert.induct)
  case (1 vtp delta)
  then show ?case by (simp add: ins_deadline_def)
next
  case (2 vtp delta t d l)
  show ?case
  proof (cases "d < delta")
    case True
    then have u: "unat (delta - d) = unat delta - unat d" "unat d < unat delta"
      by (simp_all add: unat_diff less_imp_le word_less_nat_alt)
    moreover obtain l' where "vt_insert vtp (delta - d) l = Some l'" "total l' = max (total l) (unat (delta - d))"
        "deadlines (b + unat d) l' = ins_deadline vtp (b + unat d + unat (delta - d)) (deadlines (b + unat d) l)"
      using 2 True by (fastforce simp: dbg_check_def)
    ultimately show ?thesis using True 2(2) by (auto simp: ins_deadline_def)
  next
    case False
    then have "unat (d - delta) = unat d - unat delta" "unat delta \<le> unat d"
      by (simp_all add: unat_diff word_le_nat_alt not_less)
    with False show ?thesis by (auto simp: ins_deadline_def)
  qed
qed

lemma unat_add_small: "unat a + unat b < 4294967296 \<Longrightarrow> unat (a + b :: u32) = unat a + unat b"
  by (simp add: unat_word_ariths)

lemma vt_unlink_ok:
  "t \<in> set (map fst l) \<Longrightarrow> distinct (map fst l) \<Longrightarrow> total l < 4294967296 \<Longrightarrow>
   \<exists>l'. vt_unlink t l = Some l' \<and> deadlines b l' = filter (\<lambda>e. fst e \<noteq> t) (deadlines b l) \<and> total l' \<le> total l"
proof (induction t l arbitrary: b rule: vt_unlink.induct)
  case (1 vtp)
  then show ?case by simp
next
  case (2 vtp t d l)
  show ?case
  proof (cases "t = vtp")
    case True
    have "filter (\<lambda>e. fst e \<noteq> vtp) (deadlines (b + unat d) l) = deadlines (b + unat d) l"
      using True 2(3) by (metis (mono_tags, lifting) distinct.simps(2) filter_True fst_deadlines fst_conv image_eqI list.set_map list.simps(9))
    moreover have "deadlines b (case l of [] \<Rightarrow> [] | (t', d') # l' \<Rightarrow> (t', d' + d) # l') = deadlines (b + unat d) l"
      "total (case l of [] \<Rightarrow> [] | (t', d') # l' \<Rightarrow> (t', d' + d) # l') \<le> total ((t, d) # l)"
      using 2(4) by (auto split: list.splits simp: unat_add_small ac_simps)
    ultimately show ?thesis using True by simp
  next
    case False
    with 2 obtain l' where "vt_unlink vtp l = Some l'" "total l' \<le> total l"
        "deadlines (b + unat d) l' = filter (\<lambda>e. fst e \<noteq> vtp) (deadlines (b + unat d) l)"
      by fastforce
    with False show ?thesis by auto
  qed
qed

section \<open>Reading the 16-bit clock\<close>

lemma unat_ucast16_32: "unat (ucast (w :: u16) :: u32) = unat w"
proof -
  have "unat w < 65536" using unsigned_less [of w] by simp
  then show ?thesis by (simp add: unsigned_ucast_eq take_bit_nat_eq_self)
qed

lemma diff_abs:
  assumes "T \<le> N" "N \<le> T + 65535"
  shows "unat (chTimeDiffX (word_of_nat T) (word_of_nat N)) = N - T"
proof -
  have eq: "(word_of_nat N - word_of_nat T :: u16) = word_of_nat (N - T)" using assms(1) by (simp add: of_nat_diff)
  have "unat (word_of_nat (N - T) :: u16) = N - T"
    using assms by (simp only: unsigned_of_nat) (simp add: take_bit_nat_eq_self)
  then show ?thesis unfolding chTimeDiffX_def eq by (simp only: unat_ucast16_32)
qed

lemma add_abs: "(word_of_nat T :: u16) + ucast (d :: u32) = word_of_nat (T + unat d)"
  by simp

lemma unat_clamp: "unat (clamp_systime d) = min (unat d) 65535"
proof -
  have "unat (ucast (- 1 :: u16) :: u32) = 65535" by (simp add: unsigned_ucast_eq unsigned_minus_1_eq_mask mask_eq_exp_minus_1)
  then show ?thesis by (auto simp: clamp_systime_def TIME_MAX_SYSTIME_def word_less_nat_alt)
qed
section \<open>The ticker\<close>

definition fire :: "('f \<Rightarrow> 'k \<Rightarrow> 'k) \<Rightarrow> (vt \<Rightarrow> 'f option) \<Rightarrow> (vt \<times> nat) list \<Rightarrow> 'k \<Rightarrow> 'k" where
  "fire run fs A k = fold (\<lambda>(t, _) k. case fs t of None \<Rightarrow> k | Some fn \<Rightarrow> run fn k) A k"

definition disarm :: "(vt \<times> nat) list \<Rightarrow> (vt \<Rightarrow> 'f option) \<Rightarrow> vt \<Rightarrow> 'f option" where
  "disarm A fs = (\<lambda>t. if t \<in> set (map fst A) then None else fs t)"

lemma fire_cong: "(\<And>t. t \<in> set (map fst A) \<Longrightarrow> fs t = gs t) \<Longrightarrow> fire run fs A k = fire run gs A k"
proof (induction A arbitrary: k)
  case Nil
  then show ?case by (simp add: fire_def)
next
  case (Cons e A)
  obtain t x where e: "e = (t, x)" by force
  have "fs t = gs t" using Cons.prems [of t] e by simp
  moreover have "fire run fs A k' = fire run gs A k'" for k' using Cons.IH Cons.prems by simp
  ultimately show ?case by (simp add: fire_def e)
qed

lemma takeWhile_le_split:
  assumes "(N :: nat) \<le> M"
  shows "takeWhile (\<lambda>e. snd e \<le> M) A = takeWhile (\<lambda>e. snd e \<le> N) A @ takeWhile (\<lambda>e. snd e \<le> M) (dropWhile (\<lambda>e. snd e \<le> N) A)"
    "dropWhile (\<lambda>e. snd e \<le> M) (dropWhile (\<lambda>e. snd e \<le> N) A) = dropWhile (\<lambda>e. snd e \<le> M) A"
  using assms by (induction A) auto

lemma fire_append: "fire run fs (A @ B) k = fire run fs B (fire run fs A k)"
  by (simp add: fire_def)

text \<open>What a stretch of ticking does: the state after all timers due at \<open>N\<close> have been called.\<close>

definition ticked ::
    "('f \<Rightarrow> 'k \<Rightarrow> 'k) \<Rightarrow> nat \<Rightarrow> nat \<Rightarrow> 'f virtual_timers_list_t \<Rightarrow> 'k \<Rightarrow> nat \<Rightarrow> 'f virtual_timers_list_t \<Rightarrow> 'k \<Rightarrow> bool" where
  "ticked run T N v k T' v' k' \<longleftrightarrow> (let A = deadlines T (dlist v); F = takeWhile (\<lambda>e. snd e \<le> N) A in
     T \<le> T' \<and> T' \<le> N \<and> lasttime v' = word_of_nat T' \<and> deadlines T' (dlist v') = dropWhile (\<lambda>e. snd e \<le> N) A \<and>
     total (dlist v') \<le> total (dlist v) \<and> vt_func v' = disarm F (vt_func v) \<and> k' = fire run (vt_func v) F k)"

lemma disarm_Cons: "disarm ((t, x) # F) fs = disarm F (fs(t := None))"
  by (auto simp: disarm_def fun_eq_iff)

lemma fire_Cons:
  assumes "t \<notin> set (map fst F)"
  shows "fire run fs ((t, x) # F) k = fire run (fs(t := None)) F (case fs t of None \<Rightarrow> k | Some fn \<Rightarrow> run fn k)"
proof -
  have "fire run fs ((t, x) # F) k = fire run fs F (case fs t of None \<Rightarrow> k | Some fn \<Rightarrow> run fn k)" by (simp add: fire_def)
  also have "\<dots> = fire run (fs(t := None)) F (case fs t of None \<Rightarrow> k | Some fn \<Rightarrow> run fn k)"
    using assms by (intro fire_cong) auto
  finally show ?thesis .
qed

lemma ticked_Cons:
  assumes "ticked run (T + unat d) N v1 k1 T' v' k'" "dlist v = (t, d) # dlist v1" "vt_func v1 = (vt_func v)(t := None)"
    "k1 = (case vt_func v t of None \<Rightarrow> k | Some fn \<Rightarrow> run fn k)" "T + unat d \<le> N" "t \<notin> set (map fst (dlist v1))"
  shows "ticked run T N v k T' v' k'"
proof -
  define F where "F = takeWhile (\<lambda>e. snd e \<le> N) (deadlines (T + unat d) (dlist v1))"
  have "takeWhile (\<lambda>e. snd e \<le> N) (deadlines T (dlist v)) = (t, T + unat d) # F"
    "dropWhile (\<lambda>e. snd e \<le> N) (deadlines T (dlist v)) = dropWhile (\<lambda>e. snd e \<le> N) (deadlines (T + unat d) (dlist v1))"
    using assms(2,5) by (simp_all add: F_def)
  moreover have "set F \<subseteq> set (deadlines (T + unat d) (dlist v1))" unfolding F_def by (auto dest: set_takeWhileD)
  then have "fst ` set F \<subseteq> fst ` set (dlist v1)" using image_mono [of "set F" "set (deadlines (T + unat d) (dlist v1))" fst] by simp
  then have t: "t \<notin> set (map fst F)" using assms(6) by auto
  have "disarm ((t, T + unat d) # F) (vt_func v) = disarm F (vt_func v1)"
    "fire run (vt_func v) ((t, T + unat d) # F) k = fire run (vt_func v1) F k1"
    unfolding assms(3,4) by (rule disarm_Cons, rule fire_Cons [OF t])
  ultimately show ?thesis
    using assms(1) assms(2) unfolding ticked_def Let_def F_def [symmetric] by simp
qed

lemma vt_consume_ok:
  assumes "lasttime v = word_of_nat T" "T \<le> N" "unat nowdelta = N - T" "distinct (map fst (dlist v))"
  shows "\<exists>T' v' nd k'. vt_consume run v nowdelta k = (v', nd, k') \<and> unat nd = N - T' \<and> ticked run T N v k T' v' k'"
  using assms
proof (induction run v nowdelta k arbitrary: T rule: vt_consume.induct)
  case (1 run v nowdelta k)
  show ?case
  proof (cases "dlist v")
    case Nil
    with 1 show ?thesis by (auto simp: ticked_def disarm_def fire_def)
  next
    case (Cons e l)
    obtain t d where e: "e = (t, d)" by force
    show ?thesis
    proof (cases "d \<le> nowdelta")
      case True
      define w where "w = v\<lparr>lasttime := lasttime v + ucast d, dlist := l, vt_func := (vt_func v)(t := None)\<rparr>"
      define v1 where "v1 = (if l = [] then w\<lparr>alarm := None\<rparr> else w)"
      define k1 where "k1 = (case vt_func v t of None \<Rightarrow> k | Some fn \<Rightarrow> run fn k)"
      have d: "T + unat d \<le> N" using True 1(3,4) by (simp add: word_le_nat_alt)
      have v1: "lasttime v1 = word_of_nat (T + unat d)" "dlist v1 = l" "vt_func v1 = (vt_func v)(t := None)"
        using 1(2) by (simp_all add: v1_def w_def)
      have "unat (nowdelta - d) = N - (T + unat d)" using True 1(4) by (simp add: unat_diff)
      then obtain T' v' nd k' where IH: "vt_consume run v1 (nowdelta - d) k1 = (v', nd, k')" "unat nd = N - T'"
          "ticked run (T + unat d) N v1 k1 T' v' k'"
        using 1(1) [OF Cons e [symmetric] True refl w_def v1_def v1(1), folded k1_def, OF d] v1(2) 1(5) Cons by auto
      have "vt_consume run v nowdelta k = (v', nd, k')"
        unfolding IH(1) [symmetric] v1_def w_def k1_def using True
        by (subst vt_consume.simps) (simp add: Cons e Let_def del: vt_consume_Nil)
      moreover have "t \<notin> set (map fst l)" using 1(5) Cons e by simp
      then have "ticked run T N v k T' v' k'"
        using ticked_Cons [OF IH(3)] Cons e v1 d k1_def by blast
      ultimately show ?thesis using IH(2) by blast
    next
      case False
      then have "N < T + unat d" using 1(3,4) by (simp add: word_le_nat_alt)
      moreover have "vt_consume run v nowdelta k = (v, nowdelta, k)"
        using False by (subst vt_consume.simps) (simp add: Cons e)
      ultimately show ?thesis using 1(2-4) Cons e by (auto simp: ticked_def disarm_def fire_def)
    qed
  qed
qed
lemma ticked_trans:
  assumes "ticked run T N v k T1 v1 k1" "ticked run T1 M v1 k1 T2 v2 k2" "N \<le> M" "distinct (map fst (dlist v))"
  shows "ticked run T M v k T2 v2 k2"
proof -
  define A where "A = deadlines T (dlist v)"
  define F where "F = takeWhile (\<lambda>e. snd e \<le> N) A"
  define G where "G = takeWhile (\<lambda>e. snd e \<le> M) (dropWhile (\<lambda>e. snd e \<le> N) A)"
  have split: "takeWhile (\<lambda>e. snd e \<le> M) A = F @ G"
    "dropWhile (\<lambda>e. snd e \<le> M) (dropWhile (\<lambda>e. snd e \<le> N) A) = dropWhile (\<lambda>e. snd e \<le> M) A"
    unfolding F_def G_def using takeWhile_le_split [OF assms(3)] by blast+
  have "distinct (map fst A)" using assms(4) by (simp add: A_def)
  moreover have "A = F @ dropWhile (\<lambda>e. snd e \<le> N) A" by (simp add: F_def)
  ultimately have "distinct (map fst F @ map fst (dropWhile (\<lambda>e. snd e \<le> N) A))" by (metis map_append)
  moreover have "set G \<subseteq> set (dropWhile (\<lambda>e. snd e \<le> N) A)" unfolding G_def by (auto dest: set_takeWhileD)
  ultimately have dis: "set (map fst F) \<inter> set (map fst G) = {}" by auto
  have 1: "deadlines T1 (dlist v1) = dropWhile (\<lambda>e. snd e \<le> N) A" "vt_func v1 = disarm F (vt_func v)"
      "k1 = fire run (vt_func v) F k" "T \<le> T1" "total (dlist v1) \<le> total (dlist v)"
    using assms(1) unfolding ticked_def Let_def A_def F_def by simp_all
  have "fire run (disarm F (vt_func v)) G k1 = fire run (vt_func v) G k1"
    using dis by (intro fire_cong) (auto simp: disarm_def)
  moreover have "disarm G (disarm F (vt_func v)) = disarm (F @ G) (vt_func v)" by (auto simp: disarm_def)
  ultimately show ?thesis
    using assms(2) 1 split unfolding ticked_def Let_def A_def [symmetric] by (simp add: fire_append G_def)
qed

lemma ticked_distinct:
  assumes "ticked run T N v k T' v' k'" "distinct (map fst (dlist v))"
  shows "distinct (map fst (dlist v'))"
proof -
  have "map fst (dlist v') = map fst (dropWhile (\<lambda>e. snd e \<le> N) (deadlines T (dlist v)))"
    using assms(1) unfolding ticked_def Let_def by (metis fst_deadlines)
  also have "\<dots> = drop (length (takeWhile (\<lambda>e. snd e \<le> N) (deadlines T (dlist v)))) (map fst (dlist v))"
    by (simp add: dropWhile_eq_drop drop_map [symmetric])
  finally show ?thesis using assms(2) by simp
qed

text \<open>Successive readings of the clock, as absolute times: never more than two ticks apart, and all of
  them within a turn of the counter from the base.\<close>

definition readings :: "(nat \<Rightarrow> nat) \<Rightarrow> nat \<Rightarrow> nat \<Rightarrow> bool" where
  "readings clk T N \<longleftrightarrow> N \<le> clk 0 \<and> (\<forall>n. clk n \<le> clk (Suc n) \<and> clk (Suc n) \<le> clk n + 2 \<and> clk n \<le> T + 65535)"

lemma readings_mono: "readings clk T N \<Longrightarrow> m \<le> n \<Longrightarrow> clk m \<le> clk n"
  unfolding readings_def by (metis lift_Suc_mono_le)

lemma tick_loop_ok:
  assumes "readings clk T0 T0" "T0 \<le> T" "T \<le> clk n" "lasttime v = word_of_nat T" "distinct (map fst (dlist v))"
  shows "\<exists>m T' v' nd k'. tick_loop run (\<lambda>n. word_of_nat (clk n)) n v k = (v', word_of_nat (clk m), nd, Suc m, k') \<and>
    unat nd = clk m - T' \<and> ticked run T (clk m) v k T' v' k' \<and> n \<le> m"
  using assms(2-)
proof (induction "length (dlist v)" arbitrary: v k T n rule: less_induct)
  case less
  define nd where "nd = chTimeDiffX (lasttime v) (word_of_nat (clk n))"
  have "clk n \<le> T + 65535" using assms(1) less.prems(1) unfolding readings_def by (meson add_le_mono1 le_trans)
  then have nd: "unat nd = clk n - T" unfolding nd_def less.prems(3) using less.prems(2) by (intro diff_abs)
  show ?case
  proof (cases "dlist v = [] \<or> nd < snd (hd (dlist v))")
    case True
    then have "tick_loop run (\<lambda>n. word_of_nat (clk n)) n v k = (v, word_of_nat (clk n), nd, Suc n, k)"
      by (subst tick_loop.simps) (simp add: Let_def nd_def)
    moreover have "takeWhile (\<lambda>e. snd e \<le> clk n) (deadlines T (dlist v)) = []"
        "dropWhile (\<lambda>e. snd e \<le> clk n) (deadlines T (dlist v)) = deadlines T (dlist v)"
      using True nd less.prems(2) by (cases "dlist v"; auto simp: word_less_nat_alt split: prod.splits)+
    then have "ticked run T (clk n) v k T v k"
      using less.prems(2,3) by (simp add: ticked_def disarm_def fire_def)
    ultimately show ?thesis using nd by blast
  next
    case False
    obtain T1 v1 nd1 k1 where 1: "vt_consume run v nd k = (v1, nd1, k1)" "ticked run T (clk n) v k T1 v1 k1"
      using vt_consume_ok [OF less.prems(3,2) nd less.prems(4), of run k] by blast
    have "length (dlist v1) < length (dlist v)"
      using vt_consume_shorter [of v nd run k] False 1(1) by (simp add: not_less)
    moreover have T1: "T \<le> T1" "T1 \<le> clk n" "lasttime v1 = word_of_nat T1" using 1(2) by (auto simp: ticked_def Let_def)
    moreover have "clk n \<le> clk (Suc n)" using assms(1) by (simp add: readings_def)
    moreover have "distinct (map fst (dlist v1))" using ticked_distinct [OF 1(2) less.prems(4)] .
    ultimately obtain m T' v' nd' k' where
      2: "tick_loop run (\<lambda>n. word_of_nat (clk n)) (Suc n) v1 k1 = (v', word_of_nat (clk m), nd', Suc m, k')"
        "unat nd' = clk m - T'" "ticked run T1 (clk m) v1 k1 T' v' k'" "Suc n \<le> m"
      using less.hyps [of v1 T1 "Suc n" k1] less.prems(1) by auto
    have "tick_loop run (\<lambda>n. word_of_nat (clk n)) n v k = tick_loop run (\<lambda>n. word_of_nat (clk n)) (Suc n) v1 k1"
      using False 1(1) by (subst tick_loop.simps) (simp add: Let_def nd_def)
    moreover have "ticked run T (clk m) v k T' v' k'"
      using ticked_trans [OF 1(2) 2(3) _ less.prems(4)] readings_mono [OF assms(1), of n m] 2(4) by simp
    ultimately show ?thesis using 2 by (metis Suc_leD)
  qed
qed
section \<open>The operations against the specification\<close>

text \<open>The list represents the deadlines \<open>A\<close> from the base \<open>T\<close>.\<close>

definition vt_rep :: "'f virtual_timers_list_t \<Rightarrow> nat \<Rightarrow> (vt \<times> nat) list \<Rightarrow> bool" where
  "vt_rep v T A \<longleftrightarrow> (dlist v \<noteq> [] \<longrightarrow> lasttime v = word_of_nat T) \<and> deadlines T (dlist v) = A \<and> distinct (map fst (dlist v)) \<and>
     total (dlist v) < 4294967296 \<and> (\<forall>t. chVTIsArmedI v t \<longleftrightarrow> t \<in> set (map fst (dlist v)))"

lemma add_clamped: "\<exists>a. chTimeAddX t (clamp_systime d) = Some a"
  by (simp add: chTimeAddX_iff unat_clamp)

lemma set_insert_deadline: "fst ` set (ins_deadline t x A) = insert t (fst ` set A)"
proof -
  have "set (takeWhile P A) \<union> set (dropWhile P A) = set A" for P :: "vt \<times> nat \<Rightarrow> bool"
    by (metis set_append takeWhile_dropWhile_id)
  then show ?thesis by (auto simp: ins_deadline_def image_Un [symmetric])
qed

lemma distinct_ins_deadline:
  assumes "distinct (map fst A)" "t \<notin> fst ` set A"
  shows "distinct (map fst (ins_deadline t x A))"
proof -
  let ?B = "takeWhile (\<lambda>e. snd e < x) A" and ?C = "dropWhile (\<lambda>e. snd e < x) A"
  have "map fst A = map fst ?B @ map fst ?C" by (metis map_append takeWhile_dropWhile_id)
  moreover have "set ?B \<subseteq> set A" "set ?C \<subseteq> set A" by (auto dest: set_takeWhileD set_dropWhileD)
  ultimately show ?thesis using assms by (auto simp: ins_deadline_def)
qed

lemma set_ok:
  assumes rep: "vt_rep v T A" and N: "T \<le> N" "dlist v = [] \<or> N \<le> T + 65535"
    and t: "\<not> chVTIsArmedI v t" and d: "0 < delay" "unat delay + 65535 < 4294967296"
  shows "\<exists>v'. chVTDoSetI v (word_of_nat N) t delay fn = Some v' \<and>
    vt_rep v' (if dlist v = [] then N else T) (ins_deadline t (N + max 2 (unat delay)) A)"
proof -
  define dl where "dl = (if delay < CH_CFG_ST_TIMEDELTA then CH_CFG_ST_TIMEDELTA else delay)"
  have dl: "unat dl = max 2 (unat delay)" by (auto simp: dl_def CH_CFG_ST_TIMEDELTA_def word_less_nat_alt max_def)
  have chk: "delay \<noteq> TIME_IMMEDIATE" using d(1) by (auto simp: TIME_IMMEDIATE_def)
  show ?thesis
  proof (cases "dlist v = []")
    case True
    obtain a where "chTimeAddX (word_of_nat N) (clamp_systime dl) = Some a" using add_clamped by blast
    then have "chVTDoSetI v (word_of_nat N) t delay fn =
        Some (v\<lparr>vt_func := (vt_func v)(t := Some fn), lasttime := word_of_nat N, dlist := [(t, dl)], alarm := Some a\<rparr>)"
      using True chk by (simp add: chVTDoSetI_def Let_def dl_def)
    moreover have "A = []" using rep True by (simp add: vt_rep_def)
    moreover have "unat dl < 4294967296" using unsigned_less [of dl] by simp
    ultimately show ?thesis
      using rep True dl by (auto simp: vt_rep_def ins_deadline_def chVTIsArmedI_def)
  next
    case False
    define dn where "dn = chTimeDiffX (lasttime v) (word_of_nat N)"
    have dn: "unat dn = N - T" using rep N False diff_abs by (auto simp: dn_def vt_rep_def)
    have sum: "unat (dn + dl) = N - T + max 2 (unat delay)"
      using dn dl d(2) N False by (subst unat_add_small) auto
    then have "\<not> dn + dl < dn" using dn by (simp add: word_less_nat_alt)
    moreover obtain l where l: "vt_insert t (dn + dl) (dlist v) = Some l" "total l = max (total (dlist v)) (unat (dn + dl))"
        "deadlines T l = ins_deadline t (T + unat (dn + dl)) (deadlines T (dlist v))"
      using vt_insert_ok [of t "dlist v" "dn + dl" T] rep t by (auto simp: vt_rep_def)
    moreover obtain a where "chTimeAddX (lasttime v) (clamp_systime (dn + dl)) = Some a" using add_clamped by blast
    ultimately have "chVTDoSetI v (word_of_nat N) t delay fn = Some (v\<lparr>vt_func := (vt_func v)(t := Some fn), dlist := l,
        alarm := (if dn + dl < snd (hd (dlist v)) then Some a else alarm v)\<rparr>)"
      using False chk by (cases "dn + dl < snd (hd (dlist v))") (simp_all add: chVTDoSetI_def Let_def dl_def [symmetric] dn_def)
    moreover have A: "deadlines T l = ins_deadline t (N + max 2 (unat delay)) A" using l(3) sum rep N(1) by (simp add: vt_rep_def add.assoc [symmetric])
    moreover have "distinct (map fst l)" "fst ` set l = insert t (fst ` set (dlist v))"
      using distinct_ins_deadline [of A t] set_insert_deadline [of t _ A] rep t A
      by (metis fst_deadlines fst_set_deadlines list.set_map vt_rep_def)+
    moreover have "total l < 4294967296" using l(2) rep unsigned_less [of "dn + dl"] by (simp add: vt_rep_def)
    ultimately show ?thesis using rep False by (auto simp: vt_rep_def chVTIsArmedI_def)
  qed
qed
lemma reset_ok:
  assumes rep: "vt_rep v T A" and N: "T \<le> N" "N + 2 \<le> T + 65535" and t: "chVTIsArmedI v t"
  shows "\<exists>v'. chVTDoResetI v (word_of_nat N) t = Some v' \<and> vt_rep v' T (filter (\<lambda>e. fst e \<noteq> t) A)"
proof -
  obtain l where l: "vt_unlink t (dlist v) = Some l" "deadlines T l = filter (\<lambda>e. fst e \<noteq> t) (deadlines T (dlist v))"
      "total l \<le> total (dlist v)"
    using vt_unlink_ok [of t "dlist v" T] rep t by (auto simp: vt_rep_def)
  define w where "w = v\<lparr>dlist := l, vt_func := (vt_func v)(t := None)\<rparr>"
  define nd where "nd = chTimeDiffX (lasttime v) (word_of_nat N)"
  have ne: "dlist v \<noteq> []" using rep t by (auto simp: vt_rep_def)
  then have nd: "unat nd + 2 \<le> 65535" using rep N diff_abs [of T N] by (simp add: nd_def vt_rep_def)
  then have "unat (nd + 2) = unat nd + 2" by (subst unat_add_small) simp_all
  then obtain a where a: "chTimeAddX (lasttime v) (nd + CH_CFG_ST_TIMEDELTA) = Some a"
    using nd by (auto simp: chTimeAddX_iff CH_CFG_ST_TIMEDELTA_def)
  obtain b where b: "chTimeAddX (lasttime v) (clamp_systime (nd + (snd (hd l) - nd))) = Some b" using add_clamped by blast
  have "\<exists>al. chVTDoResetI v (word_of_nat N) t = Some (w\<lparr>alarm := al\<rparr>)"
  proof (cases "fst (hd (dlist v)) = t \<and> l \<noteq> [] \<and> \<not> snd (hd l) \<le> nd")
    case True
    then show ?thesis
      using t l(1) a b
      by (intro exI [of _ "if snd (hd l) - nd < CH_CFG_ST_TIMEDELTA then Some a else Some b"])
         (auto simp: chVTDoResetI_def chVTIsArmedI_def w_def Let_def nd_def [symmetric])
  next
    case False
    then show ?thesis
      using t l(1)
      by (intro exI [of _ "if fst (hd (dlist v)) = t \<and> l = [] then None else alarm v"])
         (auto simp: chVTDoResetI_def chVTIsArmedI_def w_def Let_def nd_def [symmetric])
  qed
  then obtain al where "chVTDoResetI v (word_of_nat N) t = Some (w\<lparr>alarm := al\<rparr>)" ..
  moreover have "map fst (filter (\<lambda>e. fst e \<noteq> t) A') = filter (\<lambda>x. x \<noteq> t) (map fst A')" for A' :: "(vt \<times> nat) list"
    by (induction A') auto
  then have m: "map fst l = filter (\<lambda>x. x \<noteq> t) (map fst (dlist v))"
    using arg_cong [OF l(2), of "map fst"] by (simp only: fst_deadlines)
  have "set (map fst l) = set (map fst (dlist v)) - {t}" unfolding m by auto
  moreover have "distinct (map fst l)" unfolding m using rep by (simp add: vt_rep_def)
  ultimately show ?thesis
    using rep l(2,3) ne by (simp add: vt_rep_def w_def chVTIsArmedI_def)
qed

lemma fire_log: "fire (\<lambda>fn k. k @ [fn]) fs F k = k @ List.map_filter (\<lambda>e. fs (fst e)) F"
  by (induction F arbitrary: k) (auto simp: fire_def List.map_filter_def split: option.splits)

text \<open>The end of the ticker, when a timer is left: the base moves to the time last read and the alarm is
  set.\<close>

lemma tick_finish:
  assumes loop: "tick_loop run (\<lambda>n. word_of_nat (clk n)) 0 v k = (v1, word_of_nat (clk m), nd, Suc m, k1)"
    and v1: "dlist v1 = (t, d) # l" "lasttime v1 = word_of_nat T1"
    and nd: "unat nd = clk m - T1" "T1 \<le> clk m" "clk m < T1 + unat d"
    and clk: "clk m \<le> clk (Suc m)" "clk (Suc m) \<le> clk m + 2"
  shows "chVTDoTickI run (\<lambda>n. word_of_nat (clk n)) v k =
    Some (v1\<lparr>lasttime := word_of_nat (clk m), dlist := (t, d - nd) # l,
      alarm := Some (word_of_nat (clk m + max 2 (min 65535 (T1 + unat d - clk m))))\<rparr>, k1)"
    and "unat (d - nd) = T1 + unat d - clk m"
proof -
  show u: "unat (d - nd) = T1 + unat d - clk m"
    using nd by (subst unat_diff) (auto simp: word_le_nat_alt)
  define da where "da = (if d - nd < CH_CFG_ST_TIMEDELTA then CH_CFG_ST_TIMEDELTA else clamp_systime (d - nd))"
  have da: "unat da = max 2 (min 65535 (T1 + unat d - clk m))"
    using u by (auto simp: da_def CH_CFG_ST_TIMEDELTA_def word_less_nat_alt unat_clamp)
  define a where "a = (word_of_nat (clk m + unat da) :: u16)"
  have "a = word_of_nat (clk m) + ucast da" by (simp add: a_def)
  then have a: "chTimeAddX (word_of_nat (clk m)) da = Some a" unfolding chTimeAddX_iff using da by simp
  have base: "word_of_nat T1 + ucast nd = (word_of_nat (clk m) :: u16)" using nd(1,2) by (simp add: add_abs)
  have z: "chTimeDiffX (word_of_nat (clk m)) (word_of_nat (clk m)) = 0" by (simp add: chTimeDiffX_def)
  have "unat (chTimeDiffX (word_of_nat (clk m)) (word_of_nat (clk (Suc m)))) = clk (Suc m) - clk m"
    using clk by (intro diff_abs) simp_all
  moreover have "unat (chTimeDiffX (word_of_nat (clk m)) a) = unat da"
    unfolding a_def using diff_abs [of "clk m" "clk m + unat da"] da by simp
  ultimately have chk: "chTimeDiffX (word_of_nat (clk m)) (word_of_nat (clk (Suc m))) \<le> chTimeDiffX (word_of_nat (clk m)) a"
    unfolding word_le_nat_alt using clk da by linarith
  show "chVTDoTickI run (\<lambda>n. word_of_nat (clk n)) v k =
    Some (v1\<lparr>lasttime := word_of_nat (clk m), dlist := (t, d - nd) # l,
      alarm := Some (word_of_nat (clk m + max 2 (min 65535 (T1 + unat d - clk m))))\<rparr>, k1)"
    unfolding chVTDoTickI_def loop prod.case v1 list.case Let_def using a chk
    by (simp add: v1(2) base z da_def [symmetric] cong: if_cong split del: if_split) (simp add: a_def da)
qed

text \<open>The index of the last reading a tick works with.\<close>

definition last_reading ::
    "('f \<Rightarrow> 'k \<Rightarrow> 'k) \<Rightarrow> (nat \<Rightarrow> systime_t) \<Rightarrow> 'f virtual_timers_list_t \<Rightarrow> 'k \<Rightarrow> nat" where
  "last_reading run clock v k = (case tick_loop run clock 0 v k of (_, _, _, n, _) \<Rightarrow> n - 1)"

lemma ticked_armed:
  assumes "ticked run T N v k T1 v1 k1" "vt_rep v T A"
  shows "vt_func v1 t \<noteq> None \<longleftrightarrow> t \<in> set (map fst (dlist v1))"
proof -
  have tk: "deadlines T1 (dlist v1) = dropWhile (\<lambda>e. snd e \<le> N) A"
      "vt_func v1 = disarm (takeWhile (\<lambda>e. snd e \<le> N) A) (vt_func v)"
    using assms by (auto simp: ticked_def Let_def vt_rep_def)
  define F where "F = map fst (takeWhile (\<lambda>e. snd e \<le> N) A)"
  have "map fst A = F @ map fst (dropWhile (\<lambda>e. snd e \<le> N) A)" unfolding F_def by (simp flip: map_append)
  then have split: "map fst (dlist v) = F @ map fst (dlist v1)"
    using fst_deadlines [of T "dlist v"] fst_deadlines [of T1 "dlist v1"] assms(2) tk(1) by (auto simp: vt_rep_def)
  have "distinct (map fst (dlist v))" using assms(2) by (simp add: vt_rep_def)
  then have disj: "set F \<inter> set (map fst (dlist v1)) = {}" unfolding split by simp
  have "vt_func v t \<noteq> None \<longleftrightarrow> t \<in> set F \<union> set (map fst (dlist v1))" for t
    using assms(2) split unfolding vt_rep_def chVTIsArmedI_def by (metis set_append)
  then show ?thesis
    using disj unfolding tk(2) disarm_def F_def [symmetric] by (cases "t \<in> set F") (metis disjoint_iff, metis Un_iff)
qed

lemma tick_ok:
  fixes run :: "'f \<Rightarrow> 'k \<Rightarrow> 'k" and k :: 'k
  assumes rep: "vt_rep v T A" and clk: "readings clk (if dlist v = [] then N else T) N" and N: "T \<le> N"
  defines "m \<equiv> last_reading run (\<lambda>n. word_of_nat (clk n)) v k"
  shows "\<exists>v'. chVTDoTickI run (\<lambda>n. word_of_nat (clk n)) v k = Some (v', fire run (vt_func v) (takeWhile (\<lambda>e. snd e \<le> clk m) A) k) \<and>
    vt_rep v' (clk m) (dropWhile (\<lambda>e. snd e \<le> clk m) A) \<and> N \<le> clk m \<and>
    (\<forall>t x B. dropWhile (\<lambda>e. snd e \<le> clk m) A = (t, x) # B \<longrightarrow>
       alarm v' = Some (word_of_nat (clk m + max 2 (min 65535 (x - clk m)))))"
proof (cases "dlist v = []")
  case True
  then have "tick_loop run (\<lambda>n. word_of_nat (clk n)) 0 v k =
      (v, word_of_nat (clk 0), chTimeDiffX (lasttime v) (word_of_nat (clk 0)), Suc 0, k)"
    by (subst tick_loop.simps) (simp add: Let_def)
  then have "chVTDoTickI run (\<lambda>n. word_of_nat (clk n)) v k = Some (v, k)" "m = 0"
    using True by (simp_all add: chVTDoTickI_def m_def last_reading_def)
  moreover have "A = []" using rep True by (simp add: vt_rep_def)
  ultimately show ?thesis using rep clk True by (simp add: vt_rep_def fire_def readings_def)
next
  case False
  then have lt: "lasttime v = word_of_nat T" and dis: "distinct (map fst (dlist v))" using rep by (auto simp: vt_rep_def)
  have r: "readings clk T T" "T \<le> clk 0" "readings clk T N" using clk N False by (auto simp: readings_def)
  obtain j T1 v1 nd k1 where 1: "tick_loop run (\<lambda>n. word_of_nat (clk n)) 0 v k = (v1, word_of_nat (clk j), nd, Suc j, k1)"
      "unat nd = clk j - T1" "ticked run T (clk j) v k T1 v1 k1"
    using tick_loop_ok [OF r(1) order_refl r(2) lt dis, of run k] by auto
  have m: "m = j" using 1(1) by (simp add: m_def last_reading_def)
  have Nm: "N \<le> clk m" using r(3) readings_mono [OF r(3), of 0 m] by (auto simp: readings_def)
  have tk: "T1 \<le> clk m" "lasttime v1 = word_of_nat T1" "deadlines T1 (dlist v1) = dropWhile (\<lambda>e. snd e \<le> clk m) A"
      "total (dlist v1) \<le> total (dlist v)" "k1 = fire run (vt_func v) (takeWhile (\<lambda>e. snd e \<le> clk m) A) k"
    using 1(3) rep by (auto simp: ticked_def Let_def vt_rep_def m)
  have dis1: "distinct (map fst (dlist v1))" using ticked_distinct [OF 1(3) dis] .
  note armed = ticked_armed [OF 1(3) rep]
  show ?thesis
  proof (cases "dlist v1")
    case Nil
    then have dw: "dropWhile (\<lambda>e. snd e \<le> clk m) A = []" using tk(3) by simp
    have "chVTDoTickI run (\<lambda>n. word_of_nat (clk n)) v k = Some (v1, k1)" using 1(1) Nil by (simp add: chVTDoTickI_def)
    then show ?thesis
      unfolding dw tk(5) using Nil armed Nm by (intro exI [of _ v1]) (simp add: vt_rep_def chVTIsArmedI_def)
  next
    case (Cons e l)
    obtain t d where e: "e = (t, d)" by force
    have x: "dropWhile (\<lambda>e. snd e \<le> clk m) A = (t, T1 + unat d) # deadlines (T1 + unat d) l" using tk(3) Cons e by simp
    then have late: "clk m < T1 + unat d" by (metis dropWhile_eq_Cons_conv not_le snd_conv)
    have "clk m \<le> clk (Suc m)" "clk (Suc m) \<le> clk m + 2" using clk by (simp_all add: readings_def)
    note fin = tick_finish [OF 1(1) Cons [unfolded e] tk(2) 1(2) tk(1) [unfolded m] late [unfolded m] this [unfolded m], folded m]
    have "unat (d - nd) \<le> unat d" "unat d + total l < 4294967296"
      using fin(2) tk(1,4) Cons e rep by (simp_all add: vt_rep_def)
    then have "unat (d - nd) + total l < 4294967296" by linarith
    with fin show ?thesis
      using x tk dis1 armed Cons e late Nm
      by (intro exI [of _ "v1\<lparr>lasttime := word_of_nat (clk m), dlist := (t, d - nd) # l,
            alarm := Some (word_of_nat (clk m + max 2 (min 65535 (T1 + unat d - clk m))))\<rparr>"])
         (simp add: vt_rep_def chVTIsArmedI_def)
  qed
qed
section \<open>Reachable states\<close>

text \<open>
  Runs of the timer list beside the specification: \<open>A\<close> are the deadlines of the armed timers, \<open>T\<close>
  the base and \<open>N\<close> the time.  Time passes at most one turn of the counter beyond the base, which is
  what the alarm is for; a disarming is not attempted in the last two ticks of that turn, and no
  delay comes within a turn of the 32-bit limit.
\<close>

abbreviation (input) log_run :: "'f \<Rightarrow> 'f list \<Rightarrow> 'f list" where
  "log_run fn log \<equiv> log @ [fn]"

inductive vt_run :: "'f virtual_timers_list_t \<Rightarrow> (vt \<times> nat) list \<Rightarrow> nat \<Rightarrow> nat \<Rightarrow> bool" where
  vt_start: "(\<And>t. vt_func v t = None) \<Longrightarrow> vt_run (vt_object_init v) [] 0 N"
| vt_pass: "vt_run v A T N \<Longrightarrow> N \<le> N' \<Longrightarrow> dlist v = [] \<or> N' \<le> T + 65535 \<Longrightarrow> vt_run v A T N'"
| vt_set: "vt_run v A T N \<Longrightarrow> \<not> chVTIsArmedI v t \<Longrightarrow> 0 < delay \<Longrightarrow> unat delay + 65535 < 4294967296 \<Longrightarrow>
    chVTDoSetI v (word_of_nat N) t delay fn = Some v' \<Longrightarrow>
    vt_run v' (ins_deadline t (N + max 2 (unat delay)) A) (if dlist v = [] then N else T) N"
| vt_reset: "vt_run v A T N \<Longrightarrow> chVTIsArmedI v t \<Longrightarrow> N + 2 \<le> T + 65535 \<Longrightarrow>
    chVTDoResetI v (word_of_nat N) t = Some v' \<Longrightarrow> vt_run v' (filter (\<lambda>e. fst e \<noteq> t) A) T N"
| vt_tick: "vt_run v A T N \<Longrightarrow> readings clk (if dlist v = [] then N else T) N \<Longrightarrow>
    chVTDoTickI log_run (\<lambda>n. word_of_nat (clk n)) v [] = Some (v', log) \<Longrightarrow>
    m = last_reading log_run (\<lambda>n. word_of_nat (clk n)) v [] \<Longrightarrow>
    vt_run v' (dropWhile (\<lambda>e. snd e \<le> clk m) A) (clk m) (clk m)"

lemma vt_run_rep: "vt_run v A T N \<Longrightarrow> vt_rep v T A \<and> T \<le> N \<and> (dlist v = [] \<or> N \<le> T + 65535)"
proof (induction rule: vt_run.induct)
  case (vt_start v N)
  then show ?case by (simp add: vt_rep_def vt_object_init_def chVTIsArmedI_def)
next
  case (vt_pass v A T N N')
  then show ?case by auto
next
  case (vt_set v A T N t delay fn v')
  then show ?case using set_ok [of v T A N t delay fn] by auto
next
  case (vt_reset v A T N t v')
  then show ?case using reset_ok [of v T A N t] by auto
next
  case (vt_tick v A T N clk v' log m)
  then show ?case using tick_ok [of v T A clk N log_run "[]"] by auto
qed

lemma vt_run_sorted: "vt_run v A T N \<Longrightarrow> sorted (map snd A)"
  using vt_run_rep deadlines_sorted unfolding vt_rep_def by metis

lemma sorted_split:
  "sorted (map snd A) \<Longrightarrow> takeWhile (\<lambda>e. snd e \<le> (x :: nat)) A = filter (\<lambda>e. snd e \<le> x) A \<and>
     dropWhile (\<lambda>e. snd e \<le> x) A = filter (\<lambda>e. x < snd e) A"
proof (induction A)
  case Nil
  then show ?case by simp
next
  case (Cons e A)
  show ?case
  proof (cases "snd e \<le> x")
    case False
    then have "\<forall>f \<in> set A. x < snd f" using Cons.prems by force
    with False show ?thesis by (auto simp: not_le filter_empty_conv intro!: filter_True [symmetric])
  qed (use Cons in auto)
qed


text \<open>
  C28.  A tick is exact.  In every reachable state the ticker calls the callbacks of exactly those
  timers whose deadline is not after the time it last read, in the order of their deadlines and each
  once, keeps all others, sets the alarm to the next deadline (not nearer than two ticks and not
  farther than the counter reaches), and no assertion fails.
\<close>

theorem vt_tick_exact:
  assumes "vt_run v A T N" and "readings clk (if dlist v = [] then N else T) N"
    and "m = last_reading log_run (\<lambda>n. word_of_nat (clk n)) v []"
  shows "\<exists>v'. chVTDoTickI log_run (\<lambda>n. word_of_nat (clk n)) v [] =
      Some (v', List.map_filter (\<lambda>e. vt_func v (fst e)) (filter (\<lambda>e. snd e \<le> clk m) A)) \<and>
    vt_run v' (filter (\<lambda>e. clk m < snd e) A) (clk m) (clk m) \<and> N \<le> clk m \<and>
    (\<forall>t x B. filter (\<lambda>e. clk m < snd e) A = (t, x) # B \<longrightarrow>
       alarm v' = Some (word_of_nat (clk m + max 2 (min 65535 (x - clk m)))))"
proof -
  have rep: "vt_rep v T A" "T \<le> N" using vt_run_rep [OF assms(1)] by auto
  obtain v' where v': "chVTDoTickI log_run (\<lambda>n. word_of_nat (clk n)) v [] =
      Some (v', fire log_run (vt_func v) (takeWhile (\<lambda>e. snd e \<le> clk m) A) [])" "N \<le> clk m"
    "\<forall>t x B. dropWhile (\<lambda>e. snd e \<le> clk m) A = (t, x) # B \<longrightarrow>
       alarm v' = Some (word_of_nat (clk m + max 2 (min 65535 (x - clk m))))"
    using tick_ok [OF rep(1) assms(2) rep(2), of log_run "[]"] assms(3) by blast
  have "vt_run v' (dropWhile (\<lambda>e. snd e \<le> clk m) A) (clk m) (clk m)"
    by (rule vt_tick [OF assms(1,2) v'(1) assms(3)])
  then show ?thesis
    using v' sorted_split [OF vt_run_sorted [OF assms(1)], of "clk m"] unfolding fire_log by auto
qed
section \<open>Examples and limits\<close>

abbreviation no_timers :: "'f virtual_timers_list_t" where
  "no_timers \<equiv> vt_object_init \<lparr>dlist = [], lasttime = 0, vt_func = \<lambda>_. None, alarm = None\<rparr>"

lemma no_timers_run: "vt_run no_timers [] 0 N"
  by (rule vt_start) simp

lemma no_timers_armed: "\<not> chVTIsArmedI no_timers t"
  by (simp add: chVTIsArmedI_def vt_object_init_def)


lemma max_systime: "(ucast TIME_MAX_SYSTIME :: u32) = 65535"
  by (simp add: TIME_MAX_SYSTIME_def word_unat_eq_iff unsigned_ucast_eq unsigned_minus_1_eq_mask mask_eq_exp_minus_1)

lemmas vt_eval = chVTDoSetI_def chVTDoResetI_def vt_object_init_def TIME_IMMEDIATE_def CH_CFG_ST_TIMEDELTA_def clamp_systime_def
  max_systime chTimeAddX_def chTimeDiffX_def chVTIsArmedI_def Let_def

lemma one_timer:
  obtains v :: "'f virtual_timers_list_t" where "chVTDoSetI no_timers 5 0 300000 fn = Some v" "vt_run v [(0, 300005)] 5 5"
    "dlist v = [(0, 300000)]" "vt_func v 0 = Some fn"
proof -
  define v where "v = \<lparr>dlist = [(0 :: nat, 300000)], lasttime = 5, vt_func = [0 \<mapsto> fn], alarm = Some (5 + 65535)\<rparr>"
  have "chVTDoSetI no_timers 5 0 300000 fn = Some v"
    by (simp add: vt_eval v_def)
  moreover from vt_set [OF no_timers_run [where N = 5] no_timers_armed, of 300000 0 fn v] this
  have "vt_run v [(0, 300005)] 5 5" by (simp add: ins_deadline_def vt_object_init_def)
  ultimately show thesis using that by (simp add: v_def)
qed

theorem vt_tick_exact_witness:
  "\<exists>v v' :: unit virtual_timers_list_t. vt_run v [(0, 300005)] 5 40000 \<and>
     chVTDoTickI log_run (\<lambda>_. 40000) v [] = Some (v', []) \<and> vt_run v' [(0, 300005)] 40000 40000 \<and>
     alarm v' = Some (word_of_nat 105535)"
proof -
  obtain v :: "unit virtual_timers_list_t" where v: "vt_run v [(0, 300005)] 5 5" "dlist v = [(0, 300000)]"
    by (rule one_timer [of "()"])
  have run: "vt_run v [(0, 300005)] 5 40000" by (rule vt_pass [OF v(1)]) simp_all
  have "readings (\<lambda>_. 40000) (if dlist v = [] then 40000 else 5) 40000" using v(2) by (simp add: readings_def)
  from vt_tick_exact [OF run this refl] run show ?thesis
    by (auto simp: List.map_filter_def)
qed

text \<open>The loops of the tick step by step, for concrete lists.\<close>

lemma vt_consume_fire: "\<lbrakk>dlist v = (vtp, delta) # l; delta \<le> nowdelta\<rbrakk> \<Longrightarrow>
    vt_consume run v nowdelta k =
      vt_consume run (v\<lparr>lasttime := lasttime v + ucast delta, dlist := l, vt_func := (vt_func v)(vtp := None),
                        alarm := if l = [] then None else alarm v\<rparr>)
        (nowdelta - delta) (case vt_func v vtp of None \<Rightarrow> k | Some fn \<Rightarrow> run fn k)"
  by (subst vt_consume.simps) (simp add: Let_def)

lemma vt_consume_stop: "\<lbrakk>dlist v = (vtp, delta) # l; \<not> delta \<le> nowdelta\<rbrakk> \<Longrightarrow>
    vt_consume run v nowdelta k = (v, nowdelta, k)"
  by (subst vt_consume.simps) simp

lemma tick_loop_stop: "\<lbrakk>dlist v = (vtp, delta) # l; chTimeDiffX (lasttime v) (clock n) < delta\<rbrakk> \<Longrightarrow>
    tick_loop run clock n v k = (v, clock n, chTimeDiffX (lasttime v) (clock n), Suc n, k)"
  by (subst tick_loop.simps) (simp add: Let_def)

lemma tick_loop_fire: "\<lbrakk>dlist v = (vtp, delta) # l; \<not> chTimeDiffX (lasttime v) (clock n) < delta\<rbrakk> \<Longrightarrow>
    tick_loop run clock n v k =
      (case vt_consume run v (chTimeDiffX (lasttime v) (clock n)) k of (v', _, k') \<Rightarrow> tick_loop run clock (Suc n) v' k')"
  by (subst tick_loop.simps) (simp add: Let_def)

text \<open>
  C29.  A delay near the 32-bit limit disturbs other timers.  When \<^verbatim>\<open>deltanow + delay\<close> overflows, the list
  is compressed, but \<^verbatim>\<open>vt_list_compress\<close> advances the base only by what is left after the expired
  timers were subtracted: in a reachable state with a timer due at 1010, arming another one with
  the largest interval makes the first one fire at 1000.
\<close>

theorem vt_compress_moves_deadlines:
  "\<exists>v v' v''. vt_run v [(0, 10), (1, 1010)] 0 100 \<and> \<not> chVTIsArmedI v 2 \<and>
     chVTDoSetI v 100 2 TIME_MAX_INTERVAL ''late'' = Some v' \<and>
     chVTDoTickI log_run (\<lambda>_. 1000) v' [] = Some (v'', [''due at 10'', ''due at 1010''])"
proof -
  define v1 :: "string virtual_timers_list_t" where
    "v1 = \<lparr>dlist = [(0, 10)], lasttime = 0, vt_func = [0 \<mapsto> ''due at 10''], alarm = Some 10\<rparr>"
  define v2 where "v2 = v1\<lparr>dlist := [(0, 10), (1, 1000)], vt_func := [0 \<mapsto> ''due at 10'', 1 \<mapsto> ''due at 1010'']\<rparr>"
  define v3 where "v3 = v2\<lparr>dlist := [(0, 0), (1, 910), (2, TIME_MAX_INTERVAL - 910)], lasttime := 90,
    vt_func := [0 \<mapsto> ''due at 10'', 1 \<mapsto> ''due at 1010'', 2 \<mapsto> ''late'']\<rparr>"
  have "chVTDoSetI no_timers (word_of_nat 0) 0 10 ''due at 10'' = Some v1" by (simp add: vt_eval v1_def)
  from vt_set [OF no_timers_run no_timers_armed _ _ this] have r1: "vt_run v1 [(0, 10)] 0 0"
    by (simp add: ins_deadline_def vt_object_init_def)
  have "chVTDoSetI v1 (word_of_nat 0) 1 1010 ''due at 1010'' = Some v2" by (simp add: vt_eval v1_def v2_def)
  from vt_set [OF r1 _ _ _ this] have "vt_run v2 [(0, 10), (1, 1010)] 0 0"
    by (simp add: ins_deadline_def v1_def chVTIsArmedI_def)
  then have "vt_run v2 [(0, 10), (1, 1010)] 0 100" by (rule vt_pass) simp_all
  moreover have "\<not> chVTIsArmedI v2 2" by (simp add: v2_def chVTIsArmedI_def)
  moreover have "chVTDoSetI v2 100 2 TIME_MAX_INTERVAL ''late'' = Some v3"
    by (simp add: vt_eval v1_def v2_def v3_def TIME_MAX_INTERVAL_def vt_list_compress_def word_gt_0)
  moreover have "\<exists>v''. chVTDoTickI log_run (\<lambda>_. 1000) v3 [] = Some (v'', [''due at 10'', ''due at 1010''])"
    by (simp add: vt_eval v1_def v2_def v3_def TIME_MAX_INTERVAL_def chVTDoTickI_def
        vt_consume_fire vt_consume_stop tick_loop_fire tick_loop_stop word_gt_0)
  ultimately show ?thesis by blast
qed

text \<open>
  C30.  Disarming the first timer at the very end of a turn halts the system.  If the next timer is due
  in one tick and the base is 65534 ticks old, \<^verbatim>\<open>chVTDoResetI\<close> asks for an alarm \<^verbatim>\<open>nowdelta + 2\<close> ticks
  after the base without the clamping of its other branch, and \<^verbatim>\<open>chTimeAddX\<close> refuses an interval
  of 65536.  The state is reachable with two timers of 65535 ticks.
\<close>

theorem vt_reset_halts:
  "\<exists>(v :: string virtual_timers_list_t) A. vt_run v A 0 65534 \<and> chVTIsArmedI v 1 \<and> chVTDoResetI v (word_of_nat 65534) 1 = None"
proof -
  define v1 :: "string virtual_timers_list_t" where
    "v1 = \<lparr>dlist = [(0, 65535)], lasttime = 0, vt_func = [0 \<mapsto> ''first''], alarm = Some 65535\<rparr>"
  define v2 where "v2 = v1\<lparr>dlist := [(1, 65535), (0, 0)], vt_func := [0 \<mapsto> ''first'', 1 \<mapsto> ''second'']\<rparr>"
  have "chVTDoSetI no_timers (word_of_nat 0) 0 65535 ''first'' = Some v1" by (simp add: vt_eval v1_def)
  from vt_set [OF no_timers_run no_timers_armed _ _ this] have r1: "vt_run v1 [(0, 65535)] 0 0"
    by (simp add: ins_deadline_def vt_object_init_def)
  have "chVTDoSetI v1 (word_of_nat 0) 1 65535 ''second'' = Some v2" by (simp add: vt_eval v1_def v2_def)
  from vt_set [OF r1 _ _ _ this] have "vt_run v2 [(1, 65535), (0, 65535)] 0 0"
    by (simp add: ins_deadline_def v1_def chVTIsArmedI_def)
  then have "vt_run v2 [(1, 65535), (0, 65535)] 0 65534" by (rule vt_pass) simp_all
  moreover have "chVTIsArmedI v2 1" "chVTDoResetI v2 (word_of_nat 65534) 1 = None"
    by (simp_all add: vt_eval v1_def v2_def)
  ultimately show ?thesis by blast
qed

end
