(* ===== verification/Ch_Schd.thy ===== *)
theory Ch_Schd
  imports Ch_Lists Ch_Vt
begin

text \<open>
  The scheduler (\<^verbatim>\<open>os/rt/src/chschd.c\<close>) and the thread functions that put a thread to sleep and wake
  it (\<^verbatim>\<open>os/rt/src/chthreads.c\<close>), over the linked lists of \<open>Ch_Lists\<close> and the virtual timers of
  \<open>Ch_Vt\<close>.  One record holds the control blocks of all threads.  \<^verbatim>\<open>chSysSwitch\<close> is the change of
  \<open>current\<close>: a function that sleeps ends there, and what it does after it is switched in again is a
  definition of its own with the suffix \<open>_resume\<close>.

  The theorems show that the ready list is always the sorted list of the threads in the ready
  state, that some thread can always run, and that whenever the scheduler has run no ready thread
  has a higher priority than the running one.
\<close>

section \<open>State\<close>

text \<open>The nodes of the kernel's lists: the header of the ready list, the header of the message queue
  of a thread, and the threads.\<close>

datatype node = Rlist | Msgqueue tid | Thread tid

datatype tstate_t =
    CH_STATE_READY | CH_STATE_CURRENT | CH_STATE_WTSTART | CH_STATE_SUSPENDED | CH_STATE_QUEUED
  | CH_STATE_WTSEM | CH_STATE_WTMTX | CH_STATE_WTCOND | CH_STATE_SLEEPING | CH_STATE_WTEXIT
  | CH_STATE_WTOREVT | CH_STATE_WTANDEVT | CH_STATE_SNDMSGQ | CH_STATE_SNDMSG | CH_STATE_WTMSG | CH_STATE_FINAL

definition NOPRIO :: tprio_t where "NOPRIO = 0"
definition IDLEPRIO :: tprio_t where "IDLEPRIO = 1"
definition LOWPRIO :: tprio_t where "LOWPRIO = 2"
definition NORMALPRIO :: tprio_t where "NORMALPRIO = 128"
definition HIGHPRIO :: tprio_t where "HIGHPRIO = 255"

text \<open>The wake-up codes as words.  \<open>u\<close> is the union of the same name, one word that holds the wake-up
  message, the sent message or the address of what the thread waits for.\<close>

definition msg_code :: "msg_t \<Rightarrow> u32" where
  "msg_code m = (case m of MSG_OK \<Rightarrow> 0 | MSG_TIMEOUT \<Rightarrow> - 1 | MSG_RESET \<Rightarrow> - 2)"

record sys =
  lnk :: "node links"
  tstate :: "tid \<Rightarrow> tstate_t"
  u :: "tid \<Rightarrow> u32"
  realprio :: "tid \<Rightarrow> tprio_t"
  current :: tid
  trp :: "u32 \<Rightarrow> tid option"
  semcnt :: "u32 \<Rightarrow> int"
  vts :: "tid virtual_timers_list_t"

abbreviation tprio :: "sys \<Rightarrow> tid \<Rightarrow> tprio_t" where
  "tprio s t \<equiv> prio (lnk s) (Thread t)"

definition set_state :: "tid \<Rightarrow> tstate_t \<Rightarrow> sys \<Rightarrow> sys" where
  "set_state t st s = s\<lparr>tstate := (tstate s)(t := st)\<rparr>"

definition set_u :: "tid \<Rightarrow> u32 \<Rightarrow> sys \<Rightarrow> sys" where
  "set_u t w s = s\<lparr>u := (u s)(t := w)\<rparr>"

text \<open>The casts \<^verbatim>\<open>(thread_t *)\<close> of a list node.\<close>

definition as_thread :: "node \<Rightarrow> tid option" where
  "as_thread n = (case n of Thread t \<Rightarrow> Some t | _ \<Rightarrow> None)"

section \<open>The scheduler\<close>

definition sch_ready_behind :: "tid \<Rightarrow> sys \<Rightarrow> sys option" where
  "sch_ready_behind tp s = do {
     _ \<leftarrow> dbg_check (tstate s tp \<noteq> CH_STATE_READY \<and> tstate s tp \<noteq> CH_STATE_FINAL);
     let s = set_state tp CH_STATE_READY s;
     l \<leftarrow> ch_pqueue_insert_behind Rlist (Thread tp) (lnk s);
     Some (s\<lparr>lnk := l\<rparr>) }"

definition sch_ready_ahead :: "tid \<Rightarrow> sys \<Rightarrow> sys option" where
  "sch_ready_ahead tp s = do {
     _ \<leftarrow> dbg_check (tstate s tp \<noteq> CH_STATE_READY \<and> tstate s tp \<noteq> CH_STATE_FINAL);
     let s = set_state tp CH_STATE_READY s;
     l \<leftarrow> ch_pqueue_insert_ahead Rlist (Thread tp) (lnk s);
     Some (s\<lparr>lnk := l\<rparr>) }"

text \<open>The three statements that make the first ready thread the current one.\<close>

definition pick_first :: "sys \<Rightarrow> sys option" where
  "pick_first s = do {
     let (n, l) = ch_pqueue_remove_highest Rlist (lnk s);
     ntp \<leftarrow> as_thread n;
     let s = set_state ntp CH_STATE_CURRENT (s\<lparr>lnk := l\<rparr>);
     Some (s\<lparr>current := ntp\<rparr>) }"

definition sch_reschedule_behind :: "sys \<Rightarrow> sys option" where
  "sch_reschedule_behind s = do {
     let otp = current s;
     s \<leftarrow> pick_first s;
     sch_ready_behind otp s }"

definition sch_reschedule_ahead :: "sys \<Rightarrow> sys option" where
  "sch_reschedule_ahead s = do {
     let otp = current s;
     s \<leftarrow> pick_first s;
     sch_ready_ahead otp s }"

text \<open>The callback of the timer of a sleep.\<close>

definition sch_wakeup :: "tid \<Rightarrow> sys \<Rightarrow> sys option" where
  "sch_wakeup tp s =
     (if tstate s tp = CH_STATE_READY then Some s
      else do {
        let s = (case tstate s tp of
            CH_STATE_SUSPENDED \<Rightarrow> s\<lparr>trp := (trp s)(u s tp := None)\<rparr>
          | CH_STATE_WTSEM \<Rightarrow> s\<lparr>semcnt := (semcnt s)(u s tp := semcnt s (u s tp) + 1), lnk := ch_queue_dequeue (Thread tp) (lnk s)\<rparr>
          | CH_STATE_QUEUED \<Rightarrow> s\<lparr>lnk := ch_queue_dequeue (Thread tp) (lnk s)\<rparr>
          | CH_STATE_WTCOND \<Rightarrow> s\<lparr>lnk := ch_queue_dequeue (Thread tp) (lnk s)\<rparr>
          | _ \<Rightarrow> s);
        let s = set_u tp (msg_code MSG_TIMEOUT) s;
        sch_ready_behind tp s })"

definition chSchReadyI :: "tid \<Rightarrow> sys \<Rightarrow> sys option" where
  "chSchReadyI tp s = sch_ready_behind tp s"

definition chSysGetIdleThreadX :: "sys \<Rightarrow> node" where
  "chSysGetIdleThreadX s = prv (lnk s) Rlist"

definition chSchGoSleepS :: "tstate_t \<Rightarrow> sys \<Rightarrow> sys option" where
  "chSchGoSleepS newstate s = do {
     _ \<leftarrow> dbg_check (Thread (current s) \<noteq> chSysGetIdleThreadX s);
     let s = set_state (current s) newstate s;
     pick_first s }"

text \<open>The timer is a variable on the stack of the thread: there is one for each thread.\<close>

definition chSchGoSleepTimeoutS :: "systime_t \<Rightarrow> tstate_t \<Rightarrow> sysinterval_t \<Rightarrow> sys \<Rightarrow> sys option" where
  "chSchGoSleepTimeoutS now newstate timeout s =
     (if timeout \<noteq> TIME_INFINITE then do {
        v \<leftarrow> chVTDoSetI (vts s) now (current s) timeout (current s);
        chSchGoSleepS newstate (s\<lparr>vts := v\<rparr>) }
      else chSchGoSleepS newstate s)"

definition chSchGoSleepTimeoutS_resume :: "systime_t \<Rightarrow> sysinterval_t \<Rightarrow> sys \<Rightarrow> (u32 \<times> sys) option" where
  "chSchGoSleepTimeoutS_resume now timeout s = do {
     s \<leftarrow> (if timeout \<noteq> TIME_INFINITE \<and> chVTIsArmedI (vts s) (current s)
          then do { v \<leftarrow> chVTDoResetI (vts s) now (current s); Some (s\<lparr>vts := v\<rparr>) }
          else Some s);
     Some (u s (current s), s) }"

definition firstprio :: "sys \<Rightarrow> tprio_t" where
  "firstprio s = prio (lnk s) (nxt (lnk s) Rlist)"

definition chSchWakeupS :: "tid \<Rightarrow> u32 \<Rightarrow> sys \<Rightarrow> sys option" where
  "chSchWakeupS ntp msg s = do {
     let otp = current s;
     _ \<leftarrow> dbg_check (nxt (lnk s) Rlist = Rlist \<or> firstprio s \<le> tprio s otp);
     let s = set_u ntp msg s;
     if tprio s ntp \<le> tprio s otp then sch_ready_behind ntp s
     else do {
       s \<leftarrow> sch_ready_ahead otp s;
       let s = set_state ntp CH_STATE_CURRENT s;
       Some (s\<lparr>current := ntp\<rparr>) } }"

definition chSchRescheduleS :: "sys \<Rightarrow> sys option" where
  "chSchRescheduleS s = (if tprio s (current s) < firstprio s then sch_reschedule_ahead s else Some s)"

definition chSchIsPreemptionRequired :: "sys \<Rightarrow> bool" where
  "chSchIsPreemptionRequired s \<longleftrightarrow> tprio s (current s) < firstprio s"

definition chSchDoPreemption :: "sys \<Rightarrow> sys option" where
  "chSchDoPreemption s = do {
     let otp = current s;
     s \<leftarrow> pick_first s;
     sch_ready_ahead otp s }"

definition chSchPreemption :: "sys \<Rightarrow> sys option" where
  "chSchPreemption s = (if tprio s (current s) < firstprio s then sch_reschedule_ahead s else Some s)"

definition chSchDoYieldS :: "sys \<Rightarrow> sys option" where
  "chSchDoYieldS s = (if tprio s (current s) \<le> firstprio s then sch_reschedule_behind s else Some s)"

definition chSchSelectFirstI :: "sys \<Rightarrow> (tid \<times> sys) option" where
  "chSchSelectFirstI s = do {
     let otp = current s;
     s \<leftarrow> pick_first s;
     let ntp = current s;
     s \<leftarrow> sch_ready_ahead otp s;
     Some (ntp, s) }"

section \<open>Threads\<close>

definition chThdSleepS :: "systime_t \<Rightarrow> sysinterval_t \<Rightarrow> sys \<Rightarrow> sys option" where
  "chThdSleepS now ticks s = do {
     _ \<leftarrow> dbg_check (ticks \<noteq> TIME_IMMEDIATE);
     chSchGoSleepTimeoutS now CH_STATE_SLEEPING ticks s }"

definition chThdSleep :: "systime_t \<Rightarrow> sysinterval_t \<Rightarrow> sys \<Rightarrow> sys option" where
  "chThdSleep now time s = chThdSleepS now time s"

definition chThdSleepUntil :: "systime_t \<Rightarrow> systime_t \<Rightarrow> sys \<Rightarrow> sys option" where
  "chThdSleepUntil now time s = (
     let interval = chTimeDiffX now time in
     if 0 < interval then chThdSleepS now interval s else Some s)"

definition chThdSleepUntilWindowed :: "systime_t \<Rightarrow> systime_t \<Rightarrow> systime_t \<Rightarrow> sys \<Rightarrow> sys option" where
  "chThdSleepUntilWindowed now before after s =
     (if chTimeIsInRangeX now before after then chThdSleepS now (chTimeDiffX now after) s else Some s)"

definition chThdYield :: "sys \<Rightarrow> sys option" where
  "chThdYield s = chSchDoYieldS s"

definition chThdSetPriority :: "tprio_t \<Rightarrow> sys \<Rightarrow> (tprio_t \<times> sys) option" where
  "chThdSetPriority newprio s = do {
     _ \<leftarrow> dbg_check (newprio \<le> HIGHPRIO);
     let t = current s;
     let oldprio = realprio s t;
     let s = (if tprio s t = realprio s t \<or> tprio s t < newprio
              then s\<lparr>lnk := (lnk s)\<lparr>prio := (prio (lnk s))(Thread t := newprio)\<rparr>\<rparr> else s);
     let s = s\<lparr>realprio := (realprio s)(t := newprio)\<rparr>;
     s \<leftarrow> chSchRescheduleS s;
     Some (oldprio, s) }"

text \<open>A thread reference is the address \<open>r\<close> of a variable in \<open>trp\<close>.\<close>

definition chThdSuspendS :: "u32 \<Rightarrow> sys \<Rightarrow> sys option" where
  "chThdSuspendS r s = do {
     _ \<leftarrow> dbg_check (trp s r = None);
     let s = set_u (current s) r (s\<lparr>trp := (trp s)(r := Some (current s))\<rparr>);
     chSchGoSleepS CH_STATE_SUSPENDED s }"

definition chThdSuspendS_resume :: "sys \<Rightarrow> u32" where
  "chThdSuspendS_resume s = u s (current s)"

text \<open>\<open>Inl\<close> is the message returned at once.\<close>

definition chThdSuspendTimeoutS :: "systime_t \<Rightarrow> u32 \<Rightarrow> sysinterval_t \<Rightarrow> sys \<Rightarrow> (msg_t + sys) option" where
  "chThdSuspendTimeoutS now r timeout s = do {
     _ \<leftarrow> dbg_check (trp s r = None);
     if timeout = TIME_IMMEDIATE then Some (Inl MSG_TIMEOUT)
     else do {
       let s = set_u (current s) r (s\<lparr>trp := (trp s)(r := Some (current s))\<rparr>);
       s \<leftarrow> chSchGoSleepTimeoutS now CH_STATE_SUSPENDED timeout s;
       Some (Inr s) } }"

definition chThdResumeI :: "u32 \<Rightarrow> u32 \<Rightarrow> sys \<Rightarrow> sys option" where
  "chThdResumeI r msg s = (case trp s r of
       None \<Rightarrow> Some s
     | Some tp \<Rightarrow> do {
         _ \<leftarrow> dbg_check (tstate s tp = CH_STATE_SUSPENDED);
         let s = set_u tp msg (s\<lparr>trp := (trp s)(r := None)\<rparr>);
         chSchReadyI tp s })"

definition chThdResumeS :: "u32 \<Rightarrow> u32 \<Rightarrow> sys \<Rightarrow> sys option" where
  "chThdResumeS r msg s = (case trp s r of
       None \<Rightarrow> Some s
     | Some tp \<Rightarrow> do {
         _ \<leftarrow> dbg_check (tstate s tp = CH_STATE_SUSPENDED);
         chSchWakeupS tp msg (s\<lparr>trp := (trp s)(r := None)\<rparr>) })"

definition chThdResume :: "u32 \<Rightarrow> u32 \<Rightarrow> sys \<Rightarrow> sys option" where
  "chThdResume r msg s = chThdResumeS r msg s"
text \<open>
  Creation.  Where in its working area the control block is placed and the context of the processor
  are not part of the model; the registry is not either.
\<close>

definition thd_object_init :: "tid \<Rightarrow> tprio_t \<Rightarrow> sys \<Rightarrow> sys" where
  "thd_object_init tp p s = (
     let s = s\<lparr>lnk := (lnk s)\<lparr>prio := (prio (lnk s))(Thread tp := p)\<rparr>\<rparr>;
         s = set_state tp CH_STATE_WTSTART s;
         s = s\<lparr>realprio := (realprio s)(tp := p)\<rparr>
     in s\<lparr>lnk := ch_queue_init (Msgqueue tp) (lnk s)\<rparr>)"

definition chThdCreateSuspendedI :: "tid \<Rightarrow> tprio_t \<Rightarrow> sys \<Rightarrow> sys option" where
  "chThdCreateSuspendedI tp p s = do {
     _ \<leftarrow> dbg_check (p \<le> HIGHPRIO);
     Some (thd_object_init tp p s) }"

definition chThdCreateI :: "tid \<Rightarrow> tprio_t \<Rightarrow> sys \<Rightarrow> sys option" where
  "chThdCreateI tp p s = do {
     s \<leftarrow> chThdCreateSuspendedI tp p s;
     chSchReadyI tp s }"

definition chThdCreate :: "tid \<Rightarrow> tprio_t \<Rightarrow> sys \<Rightarrow> sys option" where
  "chThdCreate tp p s = do {
     s \<leftarrow> chThdCreateSuspendedI tp p s;
     chSchWakeupS tp (msg_code MSG_OK) s }"

definition chThdCreateStatic :: "tid \<Rightarrow> tprio_t \<Rightarrow> sys \<Rightarrow> sys option" where
  "chThdCreateStatic tp p s = do {
     _ \<leftarrow> dbg_check (p \<le> HIGHPRIO);
     let s = thd_object_init tp p s;
     chSchWakeupS tp (msg_code MSG_OK) s }"

definition chThdStart :: "tid \<Rightarrow> sys \<Rightarrow> sys option" where
  "chThdStart tp s = do {
     _ \<leftarrow> dbg_check (tstate s tp = CH_STATE_WTSTART);
     chSchWakeupS tp (msg_code MSG_OK) s }"

definition chSchObjectInit :: "tid \<Rightarrow> tid \<Rightarrow> sys \<Rightarrow> sys option" where
  "chSchObjectInit mainthread idle s = do {
     let s = s\<lparr>lnk := ch_pqueue_init Rlist (lnk s)\<rparr>;
     let s = s\<lparr>vts := vt_object_init (vts s)\<rparr>;
     let s = (thd_object_init mainthread NORMALPRIO s)\<lparr>current := mainthread\<rparr>;
     let s = set_state (current s) CH_STATE_CURRENT s;
     chThdCreateI idle IDLEPRIO s }"

section \<open>The ready list\<close>

lemma set_state_simps [simp]:
  "lnk (set_state t st s) = lnk s" "tstate (set_state t st s) = (tstate s)(t := st)" "u (set_state t st s) = u s"
  "current (set_state t st s) = current s" "vts (set_state t st s) = vts s" "trp (set_state t st s) = trp s"
  "lnk (set_u t w s) = lnk s" "tstate (set_u t w s) = tstate s" "u (set_u t w s) = (u s)(t := w)"
  "current (set_u t w s) = current s" "vts (set_u t w s) = vts s" "trp (set_u t w s) = trp s"
  by (simp_all add: set_state_def set_u_def)

lemma as_thread_Thread [simp]: "as_thread (Thread t) = Some t"
  by (simp add: as_thread_def)

text \<open>\<open>rl s rs\<close>: the ready list holds \<open>rs\<close>, sorted, and they are the threads marked ready.\<close>

definition rl :: "sys \<Rightarrow> tid list \<Rightarrow> bool" where
  "rl s rs \<longleftrightarrow> ring (lnk s) Rlist (map Thread rs) \<and> descending (tprio s) rs \<and> prio (lnk s) Rlist = 0 \<and>
     (\<forall>t. tstate s t \<noteq> CH_STATE_FINAL \<longrightarrow> 0 < tprio s t) \<and> (\<forall>t. tstate s t = CH_STATE_READY \<longleftrightarrow> t \<in> set rs)"

text \<open>The queues of other kernel objects, as far as none of the threads \<open>T\<close> is in them.\<close>

definition keeps_queues :: "tid set \<Rightarrow> sys \<Rightarrow> sys \<Rightarrow> bool" where
  "keeps_queues T s s' \<longleftrightarrow> prio (lnk s') = prio (lnk s) \<and>
     (\<forall>q zs. ring (lnk s) q (map Thread zs) \<and> q \<noteq> Rlist \<and> q \<notin> range Thread \<and> set zs \<inter> T = {} \<longrightarrow>
        ring (lnk s') q (map Thread zs))"

lemma keeps_queues_trans: "keeps_queues T s s1 \<Longrightarrow> keeps_queues T s1 s2 \<Longrightarrow> keeps_queues T s s2"
  by (auto simp: keeps_queues_def)

lemma keeps_queues_mono: "keeps_queues T s s' \<Longrightarrow> T \<subseteq> T' \<Longrightarrow> keeps_queues T' s s'"
  unfolding keeps_queues_def by blast

lemma behind_map: "behind pr (f p) (map f xs) = map f (behind (\<lambda>x. pr (f x)) p xs)"
  by (simp add: behind_def takeWhile_map dropWhile_map comp_def)

lemma ahead_map: "ahead pr (f p) (map f xs) = map f (ahead (\<lambda>x. pr (f x)) p xs)"
  by (simp add: ahead_def takeWhile_map dropWhile_map comp_def)

lemma thread_notin [simp]: "Rlist \<notin> Thread ` A" "Msgqueue t \<notin> Thread ` A" "Thread t \<in> Thread ` A \<longleftrightarrow> t \<in> A"
  by auto

lemma keeps_queues_insertI:
  assumes "inserted (lnk s) Rlist (map Thread rs) (Thread t) ys l" "lnk s' = l" "insert t (set rs) \<subseteq> T"
  shows "keeps_queues T s s'"
  unfolding keeps_queues_def
proof (intro conjI allI impI)
  show "prio (lnk s') = prio (lnk s)" using assms by (simp add: inserted_def)
  fix q zs assume q: "ring (lnk s) q (map Thread zs) \<and> q \<noteq> Rlist \<and> q \<notin> range Thread \<and> set zs \<inter> T = {}"
  then have "set (q # map Thread zs) \<inter> set (Thread t # Rlist # map Thread rs) = {}" using assms(3) by auto
  then show "ring (lnk s') q (map Thread zs)" using assms(1,2) q unfolding inserted_def by blast
qed

lemma keeps_queues_removeI:
  assumes "removed (lnk s) Rlist (map Thread rs) ys l" "lnk s' = l" "set rs \<subseteq> T"
  shows "keeps_queues T s s'"
  unfolding keeps_queues_def
proof (intro conjI allI impI)
  show "prio (lnk s') = prio (lnk s)" using assms by (simp add: removed_def)
  fix q zs assume q: "ring (lnk s) q (map Thread zs) \<and> q \<noteq> Rlist \<and> q \<notin> range Thread \<and> set zs \<inter> T = {}"
  then have "set (q # map Thread zs) \<inter> set (Rlist # map Thread rs) = {}" using assms(3) by auto
  then show "ring (lnk s') q (map Thread zs)" using assms(1,2) q unfolding removed_def by blast
qed

lemma ready_behind_ok:
  assumes "rl s rs" "t \<notin> set rs" "tstate s t \<noteq> CH_STATE_FINAL"
  shows "\<exists>l. sch_ready_behind t s = Some ((set_state t CH_STATE_READY s)\<lparr>lnk := l\<rparr>) \<and>
    rl ((set_state t CH_STATE_READY s)\<lparr>lnk := l\<rparr>) (behind (tprio s) t rs) \<and> prio l = prio (lnk s) \<and>
    keeps_queues (insert t (set rs)) s ((set_state t CH_STATE_READY s)\<lparr>lnk := l\<rparr>)"
proof -
  obtain l where l: "ch_pqueue_insert_behind Rlist (Thread t) (lnk s) = Some l"
      "inserted (lnk s) Rlist (map Thread rs) (Thread t) (map Thread (behind (tprio s) t rs)) l"
    using insert_behind_ok [of "lnk s" Rlist "map Thread rs" "Thread t"] assms
    by (auto simp: rl_def behind_map)
  moreover have "tstate s t \<noteq> CH_STATE_READY" using assms by (simp add: rl_def)
  moreover have "ring l Rlist (map Thread (behind (tprio s) t rs))" "prio l = prio (lnk s)"
    using l(2) by (simp_all add: inserted_def)
  ultimately show ?thesis
    using assms descending_behind [of "tprio s" rs t]
      keeps_queues_insertI [OF l(2), of "(set_state t CH_STATE_READY s)\<lparr>lnk := l\<rparr>" "insert t (set rs)"]
    by (auto simp: sch_ready_behind_def rl_def)
qed

lemma ready_ahead_ok:
  assumes "rl s rs" "t \<notin> set rs" "tstate s t \<noteq> CH_STATE_FINAL"
  shows "\<exists>l. sch_ready_ahead t s = Some ((set_state t CH_STATE_READY s)\<lparr>lnk := l\<rparr>) \<and>
    rl ((set_state t CH_STATE_READY s)\<lparr>lnk := l\<rparr>) (ahead (tprio s) t rs) \<and> prio l = prio (lnk s) \<and>
    keeps_queues (insert t (set rs)) s ((set_state t CH_STATE_READY s)\<lparr>lnk := l\<rparr>)"
proof -
  obtain l where l: "ch_pqueue_insert_ahead Rlist (Thread t) (lnk s) = Some l"
      "inserted (lnk s) Rlist (map Thread rs) (Thread t) (map Thread (ahead (tprio s) t rs)) l"
    using insert_ahead_ok [of "lnk s" Rlist "map Thread rs" "Thread t"] assms
    by (auto simp: rl_def ahead_map)
  moreover have "tstate s t \<noteq> CH_STATE_READY" using assms by (simp add: rl_def)
  moreover have "ring l Rlist (map Thread (ahead (tprio s) t rs))" "prio l = prio (lnk s)"
    using l(2) by (simp_all add: inserted_def)
  ultimately show ?thesis
    using assms descending_ahead [of "tprio s" rs t]
      keeps_queues_insertI [OF l(2), of "(set_state t CH_STATE_READY s)\<lparr>lnk := l\<rparr>" "insert t (set rs)"]
    by (auto simp: sch_ready_ahead_def rl_def)
qed

lemma pick_first_ok:
  assumes "rl s (t # rs)"
  shows "\<exists>l. pick_first s = Some ((set_state t CH_STATE_CURRENT s)\<lparr>lnk := l, current := t\<rparr>) \<and>
    rl ((set_state t CH_STATE_CURRENT s)\<lparr>lnk := l, current := t\<rparr>) rs \<and> prio l = prio (lnk s) \<and>
    keeps_queues (insert t (set rs)) s ((set_state t CH_STATE_CURRENT s)\<lparr>lnk := l, current := t\<rparr>)"
proof -
  obtain l where l: "ch_queue_fifo_remove Rlist (lnk s) = (Thread t, l)"
      "removed (lnk s) Rlist (map Thread (t # rs)) (map Thread rs) l"
    using fifo_remove_ok [of "lnk s" Rlist "Thread t" "map Thread rs"] assms by (auto simp: rl_def)
  moreover have "ring l Rlist (map Thread rs)" "prio l = prio (lnk s)" using l(2) by (simp_all add: removed_def)
  moreover have "t \<notin> set rs" "tstate s t = CH_STATE_READY" using assms by (auto simp: rl_def ring_def)
  moreover from this(2) have "tstate s t \<noteq> CH_STATE_FINAL" by simp
  then have "0 < tprio s t" using assms unfolding rl_def by blast
  ultimately show ?thesis
    using assms keeps_queues_removeI [OF l(2), of "(set_state t CH_STATE_CURRENT s)\<lparr>lnk := l, current := t\<rparr>" "insert t (set rs)"]
    by (intro exI [of _ l]) (auto simp: pick_first_def pqueue_eqs rl_def set_state_def)
qed
text \<open>What holds between two calls of the scheduler.\<close>

definition ready :: "tid \<Rightarrow> sys \<Rightarrow> tid list \<Rightarrow> bool" where
  "ready idle s rs \<longleftrightarrow> rl s rs \<and> (\<forall>t. tstate s t = CH_STATE_CURRENT \<longleftrightarrow> t = current s) \<and>
     tprio s idle = IDLEPRIO \<and> (\<forall>t. t \<noteq> idle \<and> tstate s t \<noteq> CH_STATE_FINAL \<longrightarrow> LOWPRIO \<le> tprio s t) \<and> (current s = idle \<or> idle \<in> set rs)"

definition top_runs :: "sys \<Rightarrow> bool" where
  "top_runs s \<longleftrightarrow> (\<forall>t. tstate s t = CH_STATE_READY \<longrightarrow> tprio s t \<le> tprio s (current s))"

lemma readyD:
  assumes "ready idle s rs"
  shows "rl s rs" "tstate s t = CH_STATE_CURRENT \<longleftrightarrow> t = current s" "tstate s t = CH_STATE_READY \<longleftrightarrow> t \<in> set rs"
    "current s \<notin> set rs" "distinct rs" "descending (tprio s) rs" "tstate s (current s) = CH_STATE_CURRENT"
    "0 < tprio s (current s)" "current s \<noteq> idle \<Longrightarrow> LOWPRIO \<le> tprio s (current s)"
    "t \<in> set rs \<Longrightarrow> t \<noteq> idle \<Longrightarrow> LOWPRIO \<le> tprio s t"
proof -
  show "rl s rs" "tstate s t = CH_STATE_CURRENT \<longleftrightarrow> t = current s" "tstate s t = CH_STATE_READY \<longleftrightarrow> t \<in> set rs"
    "descending (tprio s) rs"
    using assms by (auto simp: ready_def rl_def)
  show c: "tstate s (current s) = CH_STATE_CURRENT" using assms by (simp add: ready_def)
  then show "current s \<notin> set rs"
    using assms unfolding ready_def rl_def by (metis tstate_t.distinct(1))
  have f: "tstate s (current s) \<noteq> CH_STATE_FINAL" using c by simp
  then show "0 < tprio s (current s)" using assms unfolding ready_def rl_def by blast
  show "LOWPRIO \<le> tprio s (current s)" if "current s \<noteq> idle" using assms f that unfolding ready_def by blast
  show "LOWPRIO \<le> tprio s t" if "t \<in> set rs" "t \<noteq> idle"
  proof -
    have "tstate s t = CH_STATE_READY" using assms that by (simp add: ready_def rl_def)
    then have "tstate s t \<noteq> CH_STATE_FINAL" by simp
    then show ?thesis using assms that(2) unfolding ready_def by blast
  qed
  show "distinct rs" using assms by (auto simp: ready_def rl_def ring_def distinct_map)
qed

lemma top_iff: "ready idle s rs \<Longrightarrow> top_runs s \<longleftrightarrow> (\<forall>t \<in> set rs. tprio s t \<le> tprio s (current s))"
  by (auto simp: top_runs_def readyD)

lemma firstprio_Nil: "rl s [] \<Longrightarrow> firstprio s = 0"
  by (simp add: rl_def ring_empty firstprio_def)

lemma firstprio_Cons: "rl s (t # rs) \<Longrightarrow> firstprio s = tprio s t"
  by (auto simp: rl_def firstprio_def dest: ring_first)

lemma firstprio_max: "rl s rs \<Longrightarrow> t \<in> set rs \<Longrightarrow> tprio s t \<le> firstprio s"
  by (cases rs) (auto simp: firstprio_Cons, auto simp: rl_def)

lemma top_firstprio: "ready idle s rs \<Longrightarrow> top_runs s \<longleftrightarrow> firstprio s \<le> tprio s (current s)"
proof -
  assume r: "ready idle s rs"
  show ?thesis
  proof (cases rs)
    case Nil
    then show ?thesis using r top_iff [OF r] firstprio_Nil readyD(1) [OF r] by simp
  next
    case (Cons t l)
    then show ?thesis
      using top_iff [OF r] firstprio_max [OF readyD(1) [OF r]] firstprio_Cons [of s t l] readyD(1) [OF r]
      by (auto intro: order_trans)
  qed
qed

lemma rl_last: "rl s rs \<Longrightarrow> rs \<noteq> [] \<Longrightarrow> prv (lnk s) Rlist = Thread (last rs)"
  by (cases rs rule: rev_cases) (auto simp: rl_def dest: ring_last)

text \<open>Making a thread ready, sleeping and handing over.\<close>

lemma ready_I:
  assumes r: "ready idle s rs" and t: "t \<noteq> current s" "t \<notin> set rs" "tstate s t \<noteq> CH_STATE_FINAL"
  shows "\<exists>s'. sch_ready_behind t s = Some s' \<and> ready idle s' (behind (tprio s) t rs) \<and> current s' = current s \<and>
    prio (lnk s') = prio (lnk s) \<and> u s' = u s \<and> vts s' = vts s \<and> tstate s' = (tstate s)(t := CH_STATE_READY) \<and>
    keeps_queues (insert t (set rs)) s s'"
proof -
  obtain l where l: "sch_ready_behind t s = Some ((set_state t CH_STATE_READY s)\<lparr>lnk := l\<rparr>)"
    "rl ((set_state t CH_STATE_READY s)\<lparr>lnk := l\<rparr>) (behind (tprio s) t rs)" "prio l = prio (lnk s)"
    "keeps_queues (insert t (set rs)) s ((set_state t CH_STATE_READY s)\<lparr>lnk := l\<rparr>)"
    using ready_behind_ok [OF readyD(1) [OF r] t(2,3)] by auto
  then show ?thesis using r t by (auto simp: ready_def)
qed

lemma go_sleep_ok:
  assumes r: "ready idle s (n # rs)" and st: "st \<noteq> CH_STATE_READY" "st \<noteq> CH_STATE_CURRENT" and i: "current s \<noteq> idle"
  shows "\<exists>s'. chSchGoSleepS st s = Some s' \<and> ready idle s' rs \<and> current s' = n \<and> top_runs s' \<and>
    prio (lnk s') = prio (lnk s) \<and> u s' = u s \<and> vts s' = vts s \<and>
    tstate s' = (tstate s)(current s := st, n := CH_STATE_CURRENT) \<and> keeps_queues (insert n (set rs)) s s'"
proof -
  let ?s = "set_state (current s) st s"
  have rl: "rl ?s (n # rs)" using readyD(1,4,8) [OF r] st by (auto simp: rl_def)
  obtain l where l: "pick_first ?s = Some ((set_state n CH_STATE_CURRENT ?s)\<lparr>lnk := l, current := n\<rparr>)"
    "rl ((set_state n CH_STATE_CURRENT ?s)\<lparr>lnk := l, current := n\<rparr>) rs" "prio l = prio (lnk s)"
    "keeps_queues (insert n (set rs)) ?s ((set_state n CH_STATE_CURRENT ?s)\<lparr>lnk := l, current := n\<rparr>)"
    using pick_first_ok [OF rl] by auto
  have "prv (lnk s) Rlist \<noteq> Thread (current s)"
    using rl_last [OF readyD(1) [OF r]] readyD(4) [OF r] last_in_set [of "n # rs"] by auto
  moreover have "n \<noteq> current s" "n \<notin> set rs" using readyD [OF r] by auto
  moreover have "ready idle ((set_state n CH_STATE_CURRENT ?s)\<lparr>lnk := l, current := n\<rparr>) rs"
    using l(2,3) r i st \<open>n \<noteq> current s\<close> readyD(9) [OF r] readyD(10) [OF r, of n] by (auto simp: ready_def)
  moreover have "keeps_queues (insert n (set rs)) s ((set_state n CH_STATE_CURRENT ?s)\<lparr>lnk := l, current := n\<rparr>)"
    using l(4) by (simp add: keeps_queues_def)
  ultimately show ?thesis
    using l readyD(6) [OF r] top_iff
    by (auto simp: chSchGoSleepS_def chSysGetIdleThreadX_def top_iff)
qed
lemma reschedule_ok:
  assumes r: "ready idle s (n # rs)"
  shows "\<exists>s'. sch_reschedule_ahead s = Some s' \<and> ready idle s' (ahead (tprio s) (current s) rs) \<and> current s' = n \<and>
      prio (lnk s') = prio (lnk s)"
    and "\<exists>s'. sch_reschedule_behind s = Some s' \<and> ready idle s' (behind (tprio s) (current s) rs) \<and> current s' = n \<and>
      prio (lnk s') = prio (lnk s)"
proof -
  define c where "c = current s"
  have c: "c \<noteq> n" "c \<notin> set rs" "n \<notin> set rs" "tstate s c = CH_STATE_CURRENT" using readyD [OF r] by (auto simp: c_def)
  define s1 where "s1 l = (set_state n CH_STATE_CURRENT s)\<lparr>lnk := l, current := n\<rparr>" for l
  obtain l where l: "pick_first s = Some (s1 l)" "rl (s1 l) rs" "prio l = prio (lnk s)"
    using pick_first_ok [OF readyD(1) [OF r]] by (auto simp: s1_def)
  have t: "tprio (s1 l) = tprio s" "tstate (s1 l) c \<noteq> CH_STATE_FINAL" using l(3) c by (auto simp: s1_def)
  have dn: "ready idle ((set_state c CH_STATE_READY (s1 l))\<lparr>lnk := l'\<rparr>) rs'"
    if "rl ((set_state c CH_STATE_READY (s1 l))\<lparr>lnk := l'\<rparr>) rs'" "prio l' = prio l" "set rs' = insert c (set rs)" for l' rs'
    using that r c l(3) readyD(9) [OF r] readyD(10) [OF r, of n] by (auto simp: ready_def s1_def c_def)
  from ready_ahead_ok [OF l(2) c(2) t(2)] dn
  show "\<exists>s'. sch_reschedule_ahead s = Some s' \<and> ready idle s' (ahead (tprio s) (current s) rs) \<and> current s' = n \<and>
      prio (lnk s') = prio (lnk s)"
    using l t(1) by (auto simp: sch_reschedule_ahead_def c_def s1_def)
  from ready_behind_ok [OF l(2) c(2) t(2)] dn
  show "\<exists>s'. sch_reschedule_behind s = Some s' \<and> ready idle s' (behind (tprio s) (current s) rs) \<and> current s' = n \<and>
      prio (lnk s') = prio (lnk s)"
    using l t(1) by (auto simp: sch_reschedule_behind_def c_def s1_def)
qed

lemma wakeup_ok:
  assumes r: "ready idle s rs" and t: "t \<noteq> current s" "t \<notin> set rs" "tstate s t \<noteq> CH_STATE_FINAL" and top: "top_runs s"
  shows "\<exists>s' rs'. chSchWakeupS t m s = Some s' \<and> ready idle s' rs' \<and> top_runs s' \<and> prio (lnk s') = prio (lnk s) \<and>
    u s' = (u s)(t := m) \<and> vts s' = vts s \<and> set rs' \<union> {current s'} = insert t (insert (current s) (set rs)) \<and>
    current s' = (if tprio s t \<le> tprio s (current s) then current s else t) \<and>
    keeps_queues (insert t (insert (current s) (set rs))) s s'"
proof (cases "tprio s t \<le> tprio s (current s)")
  case True
  have r': "ready idle (set_u t m s) rs" using r by (simp add: ready_def rl_def)
  obtain s' where s': "sch_ready_behind t (set_u t m s) = Some s'" "ready idle s' (behind (tprio s) t rs)" "current s' = current s"
    "prio (lnk s') = prio (lnk s)" "u s' = (u s)(t := m)" "vts s' = vts s" "keeps_queues (insert t (set rs)) (set_u t m s) s'"
    using ready_I [OF r', of t] t by auto
  have "keeps_queues (insert t (insert (current s) (set rs))) s s'"
    using keeps_queues_mono [OF s'(7), of "insert t (insert (current s) (set rs))"] by (auto simp: keeps_queues_def)
  then show ?thesis
    using s' True top top_firstprio [OF r] top_iff [OF r] by (auto simp: chSchWakeupS_def top_iff [OF s'(2)])
next
  case False
  define c where "c = current s"
  have c: "c \<notin> set rs" "tstate s c = CH_STATE_CURRENT" "t \<noteq> c" using readyD [OF r] t by (auto simp: c_def)
  have rl: "rl (set_u t m s) rs" using readyD(1) [OF r] by (simp add: rl_def)
  define s2 where "s2 l = (set_state c CH_STATE_READY (set_u t m s))\<lparr>lnk := l\<rparr>" for l
  obtain l where l: "sch_ready_ahead c (set_u t m s) = Some (s2 l)" "rl (s2 l) (ahead (tprio s) c rs)" "prio l = prio (lnk s)"
      "keeps_queues (insert c (set rs)) (set_u t m s) (s2 l)"
    using ready_ahead_ok [OF rl c(1)] c(2) by (auto simp: s2_def)
  define s3 where "s3 = (set_state t CH_STATE_CURRENT (s2 l))\<lparr>current := t\<rparr>"
  have r3: "ready idle s3 (ahead (tprio s) c rs)"
    using l(2,3) r t c readyD(9) [OF r] by (auto simp: ready_def rl_def s2_def s3_def c_def)
  have "keeps_queues (insert t (insert (current s) (set rs))) s s3"
    using keeps_queues_mono [OF l(4), of "insert t (insert (current s) (set rs))"] by (auto simp: keeps_queues_def s3_def c_def)
  moreover have "chSchWakeupS t m s = Some s3"
    using l(1) False top top_firstprio [OF r] by (simp add: chSchWakeupS_def c_def [symmetric] s3_def)
  moreover have "top_runs s3"
    using False top top_iff [OF r] l(3) unfolding top_iff [OF r3] by (auto simp: s3_def s2_def c_def intro: order_trans)
  ultimately show ?thesis using r3 l(3) False by (intro exI [of _ s3] exI [of _ "ahead (tprio s) c rs"]) (auto simp: s3_def s2_def c_def)
qed

lemma reschedule_top:
  assumes r: "ready idle s rs" and "chSchRescheduleS s = Some s' \<or> chSchPreemption s = Some s' \<or> chSchDoYieldS s = Some s'"
  shows "(\<exists>rs'. ready idle s' rs') \<and> top_runs s'"
proof -
  have same: "ready idle s rs \<and> top_runs s" if "\<not> tprio s (current s) < firstprio s"
    using that top_firstprio [OF r] r by simp
  show ?thesis
  proof (cases rs)
    case Nil
    then have "firstprio s = 0" using firstprio_Nil readyD(1) [OF r] by simp
    moreover have "0 < tprio s (current s)" "tprio s (current s) \<noteq> 0" using readyD(8) [OF r] by (simp_all add: word_gt_0)
    ultimately show ?thesis
      using assms(2) same by (auto simp: chSchRescheduleS_def chSchPreemption_def chSchDoYieldS_def)
  next
    case (Cons n l)
    note r' = r [unfolded Cons]
    have f: "firstprio s = tprio s n" and d: "\<forall>t \<in> set l. tprio s t \<le> tprio s n"
      using firstprio_Cons readyD(1,6) [OF r'] by auto
    have good: "ready idle s1 l1 \<and> top_runs s1" if "ready idle s1 l1" "current s1 = n" "prio (lnk s1) = prio (lnk s)"
        "set l1 = insert (current s) (set l)" "tprio s (current s) \<le> tprio s n" for s1 l1
      using that d by (auto simp: top_iff)
    show ?thesis
      using assms(2) reschedule_ok [OF r'] same good f less_imp_le
      by (fastforce simp: chSchRescheduleS_def chSchPreemption_def chSchDoYieldS_def split: if_splits)
  qed
qed
section \<open>Runs\<close>

text \<open>
  Threads that wait are neither ready nor running.  A thread on a queue whose timer expires is unlinked
  from that queue, which is a list of its own of threads that wait.
\<close>

definition waiting :: "sys \<Rightarrow> tid \<Rightarrow> bool" where
  "waiting s t \<longleftrightarrow> tstate s t \<notin> {CH_STATE_READY, CH_STATE_CURRENT, CH_STATE_FINAL}"

definition on_queue :: "sys \<Rightarrow> tid \<Rightarrow> bool" where
  "on_queue s t \<longleftrightarrow> (\<exists>q zs. ring (lnk s) q (map Thread zs) \<and> q \<noteq> Rlist \<and> q \<notin> range Thread \<and> t \<in> set zs \<and>
     (\<forall>z \<in> set zs. tstate s z \<noteq> CH_STATE_READY))"

inductive sched_run :: "tid \<Rightarrow> sys \<Rightarrow> bool" for idle where
  start: "chSchObjectInit mainthread idle s = Some s' \<Longrightarrow> mainthread \<noteq> idle \<Longrightarrow> \<forall>t. tstate s t = CH_STATE_FINAL \<Longrightarrow>
    sched_run idle s'"
| create: "sched_run idle s \<Longrightarrow> chThdCreateI t p s = Some s' \<Longrightarrow> tstate s t = CH_STATE_FINAL \<Longrightarrow> LOWPRIO \<le> p \<Longrightarrow>
    sched_run idle s'"
| make_ready: "sched_run idle s \<Longrightarrow> waiting s t \<Longrightarrow> chSchReadyI t s = Some s' \<Longrightarrow> sched_run idle s'"
| wakeup: "sched_run idle s \<Longrightarrow> waiting s t \<Longrightarrow> chSchWakeupS t m s = Some s' \<Longrightarrow> sched_run idle s'"
| timeout: "sched_run idle s \<Longrightarrow> waiting s t \<Longrightarrow>
    tstate s t \<in> {CH_STATE_QUEUED, CH_STATE_WTSEM, CH_STATE_WTCOND} \<longrightarrow> on_queue s t \<Longrightarrow>
    sch_wakeup t s = Some s' \<Longrightarrow> sched_run idle s'"
| sleep: "sched_run idle s \<Longrightarrow> current s \<noteq> idle \<Longrightarrow> st \<noteq> CH_STATE_READY \<Longrightarrow> st \<noteq> CH_STATE_CURRENT \<Longrightarrow>
    chSchGoSleepS st s = Some s' \<Longrightarrow> sched_run idle s'"
| reschedule: "sched_run idle s \<Longrightarrow> chSchRescheduleS s = Some s' \<or> chSchPreemption s = Some s' \<or> chSchDoYieldS s = Some s' \<Longrightarrow>
    sched_run idle s'"

lemma waiting_free: "ready idle s rs \<Longrightarrow> waiting s t \<longleftrightarrow> t \<noteq> current s \<and> t \<notin> set rs \<and> tstate s t \<noteq> CH_STATE_FINAL"
  by (auto simp: waiting_def readyD)

lemma ready_nonempty: "ready idle s rs \<Longrightarrow> current s \<noteq> idle \<Longrightarrow> \<exists>n l. rs = n # l"
  by (cases rs) (auto simp: ready_def)

lemma ready_cong:
  assumes "ready idle s rs" "ring (lnk s') Rlist (map Thread rs)" "prio (lnk s') = prio (lnk s)"
    "tstate s' = tstate s" "current s' = current s"
  shows "ready idle s' rs"
  using assms by (simp add: ready_def rl_def)

lemma dequeue_keeps_ready:
  assumes "ready idle s rs" "on_queue s t"
  shows "ready idle (s\<lparr>semcnt := c, lnk := ch_queue_dequeue (Thread t) (lnk s)\<rparr>) rs"
proof -
  obtain q zs where q: "ring (lnk s) q (map Thread zs)" "q \<noteq> Rlist" "q \<notin> range Thread" "t \<in> set zs"
      "\<forall>z \<in> set zs. tstate s z \<noteq> CH_STATE_READY"
    using assms(2) by (auto simp: on_queue_def)
  obtain xs ys where zs: "zs = xs @ t # ys" using q(4) by (metis split_list)
  have "set (Rlist # map Thread rs) \<inter> set (q # map Thread zs) = {}"
    using q readyD(3) [OF assms(1)] by auto
  then have "ring (ch_queue_dequeue (Thread t) (lnk s)) Rlist (map Thread rs)"
    using dequeue_ok [of "lnk s" q "map Thread xs" "Thread t" "map Thread ys"] q(1) readyD(1) [OF assms(1)]
    by (simp add: zs removed_def rl_def)
  then show ?thesis by (intro ready_cong [OF assms(1)]) simp_all
qed

lemma timeout_ok:
  assumes r: "ready idle s rs" and w: "waiting s t"
    and q: "tstate s t \<in> {CH_STATE_QUEUED, CH_STATE_WTSEM, CH_STATE_WTCOND} \<longrightarrow> on_queue s t"
  shows "\<exists>s'. sch_wakeup t s = Some s' \<and> ready idle s' (behind (tprio s) t rs) \<and> u s' t = msg_code MSG_TIMEOUT"
proof -
  define s1 where "s1 = (case tstate s t of
            CH_STATE_SUSPENDED \<Rightarrow> s\<lparr>trp := (trp s)(u s t := None)\<rparr>
          | CH_STATE_WTSEM \<Rightarrow> s\<lparr>semcnt := (semcnt s)(u s t := semcnt s (u s t) + 1), lnk := ch_queue_dequeue (Thread t) (lnk s)\<rparr>
          | CH_STATE_QUEUED \<Rightarrow> s\<lparr>lnk := ch_queue_dequeue (Thread t) (lnk s)\<rparr>
          | CH_STATE_WTCOND \<Rightarrow> s\<lparr>lnk := ch_queue_dequeue (Thread t) (lnk s)\<rparr>
          | _ \<Rightarrow> s)"
  have a: "ready idle s1 rs \<and> tstate s1 = tstate s \<and> current s1 = current s \<and> tprio s1 = tprio s"
    using r q dequeue_keeps_ready [OF r, of t "semcnt s"]
      dequeue_keeps_ready [OF r, of t "(semcnt s)(u s t := semcnt s (u s t) + 1)"]
    by (auto simp: s1_def ready_def rl_def split: tstate_t.split)
  have "ready idle (set_u t (msg_code MSG_TIMEOUT) s1) rs" using conjunct1 [OF a] by (simp add: ready_def rl_def)
  note s1 = this conjunct2 [OF a]
  have t: "t \<noteq> current s" "t \<notin> set rs" "tstate s t \<noteq> CH_STATE_FINAL" "tstate s t \<noteq> CH_STATE_READY"
    using w waiting_free [OF r] by (auto simp: waiting_def)
  then show ?thesis
    using ready_I [OF s1(1), of t] s1 by (auto simp: sch_wakeup_def Let_def s1_def [symmetric])
qed
lemma thd_object_init_simps [simp]:
  "prio (lnk (thd_object_init t p s)) = (prio (lnk s))(Thread t := p)"
  "tstate (thd_object_init t p s) = (tstate s)(t := CH_STATE_WTSTART)"
  "current (thd_object_init t p s) = current s" "u (thd_object_init t p s) = u s"
  by (simp_all add: thd_object_init_def Let_def ch_queue_init_def)

lemma ring_object_init:
  "ring (lnk s) Rlist (map Thread rs) \<Longrightarrow> ring (lnk (thd_object_init t p s)) Rlist (map Thread rs)"
proof -
  assume r: "ring (lnk s) Rlist (map Thread rs)"
  let ?l = "ch_queue_init (Msgqueue t) (lnk (set_state t CH_STATE_WTSTART s)\<lparr>prio := (prio (lnk s))(Thread t := p)\<rparr>)"
  have "linked ?l (Rlist # map Thread rs @ [Rlist]) \<longleftrightarrow> linked (lnk s) (Rlist # map Thread rs @ [Rlist])"
    by (rule linked_cong) (auto simp: ch_queue_init_def Let_def)
  then show ?thesis using r by (simp add: ring_def thd_object_init_def Let_def)
qed

lemma ready_object_init:
  assumes "ready idle s rs" "tstate s t = CH_STATE_FINAL" "LOWPRIO \<le> p"
  shows "ready idle (thd_object_init t p s) rs"
proof -
  have t: "t \<notin> set rs" "t \<noteq> current s" "t \<noteq> idle"
    using assms(1,2) readyD(2,3) [OF assms(1), of t] by (auto simp: ready_def)
  then have "descending (\<lambda>x. if x = t then p else tprio s x) rs"
    using readyD(6) [OF assms(1)] by (elim sorted_wrt_mono_rel [rotated]) auto
  moreover have "0 < p" using assms(3) by (auto simp: LOWPRIO_def word_le_nat_alt word_gt_0)
  ultimately show ?thesis
    using assms t ring_object_init [of s rs t p] by (auto simp: ready_def rl_def)
qed

lemma init_ready:
  assumes "mainthread \<noteq> idle" "\<forall>t. tstate s t = CH_STATE_FINAL"
  shows "\<exists>s'. chSchObjectInit mainthread idle s = Some s' \<and> ready idle s' [idle] \<and> current s' = mainthread"
proof -
  define s1 where "s1 = set_state mainthread CH_STATE_CURRENT ((thd_object_init mainthread NORMALPRIO
    (s\<lparr>lnk := ch_pqueue_init Rlist (lnk s), vts := vt_object_init (vts s)\<rparr>))\<lparr>current := mainthread\<rparr>)"
  define s2 where "s2 = thd_object_init idle IDLEPRIO s1"
  have "ring (ch_pqueue_init Rlist (lnk s)) Rlist (map Thread [])"
    by (simp add: ch_pqueue_init_def Let_def ring_empty)
  then have "ring (lnk s2) Rlist (map Thread [])" unfolding s2_def
    by (intro ring_object_init) (simp add: s1_def, intro ring_object_init [of _ "[]", simplified], simp)
  then have "rl s2 []"
    using assms by (auto simp: rl_def s2_def s1_def ch_pqueue_init_def Let_def NORMALPRIO_def IDLEPRIO_def)
  then obtain l where l: "sch_ready_behind idle s2 = Some ((set_state idle CH_STATE_READY s2)\<lparr>lnk := l\<rparr>)"
      "rl ((set_state idle CH_STATE_READY s2)\<lparr>lnk := l\<rparr>) (behind (tprio s2) idle [])" "prio l = prio (lnk s2)"
    using ready_behind_ok [of s2 "[]" idle] by (auto simp: s2_def)
  have "chSchObjectInit mainthread idle s = Some ((set_state idle CH_STATE_READY s2)\<lparr>lnk := l\<rparr>)"
    using l(1) unfolding s1_def s2_def
    by (simp add: chSchObjectInit_def chThdCreateI_def chThdCreateSuspendedI_def chSchReadyI_def IDLEPRIO_def HIGHPRIO_def)
  then show ?thesis
    using l assms by (auto simp: ready_def behind_def s2_def s1_def NORMALPRIO_def LOWPRIO_def)
qed
text \<open>The assertion in \<^verbatim>\<open>chSchWakeupS\<close>.\<close>

lemma wakeup_top: "ready idle s rs \<Longrightarrow> chSchWakeupS t m s = Some s' \<Longrightarrow> top_runs s"
  using top_firstprio [of idle s rs] ring_isempty [of "lnk s" Rlist "map Thread rs"] readyD(1) [of idle s rs] firstprio_Nil [of s]
  by (auto simp: chSchWakeupS_def rl_def split: bind_splits)

lemma sched_run_ready: "sched_run idle s \<Longrightarrow> \<exists>rs. ready idle s rs"
proof (induction rule: sched_run.induct)
  case (start mainthread s s')
  then show ?case using init_ready [of mainthread idle s] by auto
next
  case (create s t p s')
  then obtain rs where r: "ready idle s rs" by blast
  have "ready idle (thd_object_init t p s) rs" using r create by (intro ready_object_init) auto
  moreover have "t \<noteq> current s" "t \<notin> set rs" using readyD(2,3) [OF r, of t] create(3) by auto
  ultimately show ?case
    using ready_I [of idle "thd_object_init t p s" rs t] create(2)
    by (auto simp: chThdCreateI_def chThdCreateSuspendedI_def chSchReadyI_def split: bind_splits)
next
  case (make_ready s t s')
  then show ?case using ready_I waiting_free by (fastforce simp: chSchReadyI_def)
next
  case (wakeup s t m s')
  then obtain rs where r: "ready idle s rs" by blast
  have "top_runs s" using wakeup_top [OF r wakeup(3)] .
  then show ?case using wakeup_ok [OF r, of t m] waiting_free [OF r] wakeup by auto
next
  case (timeout s t s')
  then show ?case using timeout_ok by fastforce
next
  case (sleep s st s')
  then obtain rs where r: "ready idle s rs" by blast
  obtain n l where "rs = n # l" using ready_nonempty [OF r sleep(2)] by auto
  then show ?case using go_sleep_ok [of idle s n l st] r sleep by auto
next
  case (reschedule s s')
  then show ?case using reschedule_top by blast
qed

section \<open>Properties\<close>


text \<open>
  C34.  The running thread has the highest priority: whenever the scheduler has run, because the
  current thread went to sleep, woke another one, yielded, or an interrupt or a kernel call asked for
  rescheduling, no ready thread has a higher priority than the running one.
\<close>

theorem highest_priority_runs:
  assumes "sched_run idle s"
    and "chSchRescheduleS s = Some s' \<or> chSchPreemption s = Some s' \<or> chSchDoYieldS s = Some s' \<or>
      (current s \<noteq> idle \<and> st \<notin> {CH_STATE_READY, CH_STATE_CURRENT} \<and> chSchGoSleepS st s = Some s') \<or>
      (waiting s t \<and> chSchWakeupS t m s = Some s')"
  shows "tstate s' r = CH_STATE_READY \<longrightarrow> tprio s' r \<le> tprio s' (current s')"
proof -
  obtain rs where r: "ready idle s rs" using sched_run_ready [OF assms(1)] by blast
  have "top_runs s'" using assms(2)
  proof (elim disjE)
    assume s: "current s \<noteq> idle \<and> st \<notin> {CH_STATE_READY, CH_STATE_CURRENT} \<and> chSchGoSleepS st s = Some s'"
    then obtain n l where "rs = n # l" using ready_nonempty [OF r] by auto
    then show ?thesis using go_sleep_ok [of idle s n l st] r s by auto
  next
    assume w: "waiting s t \<and> chSchWakeupS t m s = Some s'"
    then have "top_runs s" using wakeup_top [OF r] by blast
    then show ?thesis using wakeup_ok [OF r, of t m] waiting_free [OF r] w by auto
  qed (use reschedule_top [OF r] in blast)+
  then show ?thesis by (simp add: top_runs_def)
qed

theorem highest_priority_runs_witness:
  "\<exists>s s'. sched_run 0 s \<and> chSchGoSleepS CH_STATE_SUSPENDED s = Some s' \<and> current s = 1 \<and>
     (\<forall>r. tstate s' r \<noteq> CH_STATE_READY \<or> tprio s' r \<le> tprio s' (current s'))"
proof -
  define s0 :: sys where "s0 = \<lparr>lnk = \<lparr>nxt = id, prv = id, prio = \<lambda>_. 0\<rparr>, tstate = \<lambda>_. CH_STATE_FINAL, u = \<lambda>_. 0,
    realprio = \<lambda>_. 0, current = 0, trp = \<lambda>_. None, semcnt = \<lambda>_. 0,
    vts = \<lparr>dlist = [], lasttime = 0, vt_func = \<lambda>_. None, alarm = None\<rparr>\<rparr>"
  obtain s where s: "chSchObjectInit 1 0 s0 = Some s" "ready 0 s [0]" "current s = 1"
    using init_ready [of 1 0 s0] by (auto simp: s0_def)
  from s(1) have run: "sched_run 0 s" by (rule sched_run.start) (simp_all add: s0_def)
  obtain s' where s': "chSchGoSleepS CH_STATE_SUSPENDED s = Some s'"
    using go_sleep_ok [OF s(2), of CH_STATE_SUSPENDED] s(3) by auto
  show ?thesis
    using run s s' highest_priority_runs [OF run, of s' CH_STATE_SUSPENDED 0 0] by (intro exI [of _ s] exI [of _ s']) auto
qed

lemma yield_step:
  assumes r: "ready idle s (p # ps @ low)" and "\<forall>t \<in> set (p # ps). tprio s t = tprio s (current s)"
    and "\<forall>t \<in> set low. tprio s t < tprio s (current s)"
  shows "\<exists>s'. chThdYield s = Some s' \<and> ready idle s' (ps @ current s # low) \<and> current s' = p \<and> prio (lnk s') = prio (lnk s)"
proof -
  have "takeWhile (\<lambda>x. tprio s (current s) \<le> tprio s x) low = []" "dropWhile (\<lambda>x. tprio s (current s) \<le> tprio s x) low = low"
    using assms(3) by (cases low; auto)+
  then have "behind (tprio s) (current s) (ps @ low) = ps @ current s # low"
    using assms(2) by (simp add: behind_def takeWhile_append2 dropWhile_append2)
  then show ?thesis
    using reschedule_ok(2) [OF r] firstprio_Cons [OF readyD(1) [OF r]] assms(2)
    by (auto simp: chThdYield_def chSchDoYieldS_def)
qed

lemma yields:
  assumes "ready idle s (ps @ low)" "\<forall>t \<in> set ps. tprio s t = tprio s (current s)"
    "\<forall>t \<in> set low. tprio s t < tprio s (current s)" "i \<le> length ps"
  shows "\<exists>s'. ((\<lambda>x. Option.bind x chThdYield) ^^ i) (Some s) = Some s' \<and> current s' = (current s # ps) ! i"
  using assms
proof (induction i arbitrary: s ps)
  case (Suc i)
  then obtain p ps' where ps: "ps = p # ps'" by (cases ps) auto
  obtain s1 where s1: "chThdYield s = Some s1" "ready idle s1 (ps' @ current s # low)" "current s1 = p" "prio (lnk s1) = prio (lnk s)"
    using yield_step [of idle s p ps' low] Suc.prems ps by auto
  have "\<exists>s'. ((\<lambda>x. Option.bind x chThdYield) ^^ i) (Some s1) = Some s' \<and> current s' = (current s1 # (ps' @ [current s])) ! i"
    using s1 Suc.prems ps by (intro Suc.IH [of s1 "ps' @ [current s]"]) auto
  moreover have "((\<lambda>x. Option.bind x chThdYield) ^^ Suc i) (Some s) = ((\<lambda>x. Option.bind x chThdYield) ^^ i) (Some s1)"
    using s1(1) by (simp only: funpow_Suc_right comp_apply bind.simps)
  ultimately show ?case using s1 Suc.prems ps by (auto simp: nth_append nth_Cons split: nat.split simp del: funpow.simps)
qed simp

text \<open>
  Threads of equal priority take turns: if the running thread and its peers only yield, then
  after as many yields every one of them has run, in the order of the ready list.
\<close>

theorem yield_round_robin:
  assumes "ready idle s rs" and "top_runs s" and "i \<le> length (takeWhile (\<lambda>t. tprio s t = tprio s (current s)) rs)"
  shows "\<exists>s'. ((\<lambda>x. Option.bind x chThdYield) ^^ i) (Some s) = Some s' \<and>
    current s' = (current s # takeWhile (\<lambda>t. tprio s t = tprio s (current s)) rs) ! i"
proof (rule yields)
  let ?P = "\<lambda>t. tprio s t = tprio s (current s)"
  show "ready idle s (takeWhile ?P rs @ dropWhile ?P rs)" using assms(1) by simp
  show "\<forall>t \<in> set (takeWhile ?P rs). tprio s t = tprio s (current s)" using set_takeWhileD by force
  show "\<forall>t \<in> set (dropWhile ?P rs). tprio s t < tprio s (current s)"
  proof (cases "dropWhile ?P rs")
    case (Cons x xs)
    have "tprio s x \<noteq> tprio s (current s)" using hd_dropWhile [of ?P rs] Cons by simp
    moreover have "x \<in> set rs" using Cons by (metis list.set_intros(1) set_dropWhileD)
    moreover have "descending (tprio s) (takeWhile ?P rs @ dropWhile ?P rs)" using readyD(6) [OF assms(1)] by simp
    then have "\<forall>y \<in> set xs. tprio s y \<le> tprio s x" by (simp add: Cons sorted_wrt_append)
    moreover have "tprio s x < tprio s (current s)"
      using calculation(1,2) assms(2) top_iff [OF assms(1)] by (simp add: less_le)
    ultimately show ?thesis unfolding Cons by (auto intro: le_less_trans)
  next
    case Nil
    then show ?thesis by (simp only: list.set ball_empty)
  qed
qed (rule assms(3))

theorem yield_round_robin_witness:
  "\<exists>s s1 s2. ready 0 s [2, 0] \<and> current s = 1 \<and> Option.bind (Some s) chThdYield = Some s1 \<and> current s1 = 2"
proof -
  define l where "l = (ch_queue_insert (Thread 0) Rlist (ch_queue_insert (Thread 2) Rlist
    (ch_pqueue_init Rlist \<lparr>nxt = id, prv = id, prio = \<lambda>_. 0\<rparr>)))\<lparr>prio := (\<lambda>_. 128)(Rlist := 0, Thread 0 := 1)\<rparr>"
  define s :: sys where "s = \<lparr>lnk = l, tstate = (\<lambda>_. CH_STATE_FINAL)(0 := CH_STATE_READY, 1 := CH_STATE_CURRENT, 2 := CH_STATE_READY),
    u = \<lambda>_. 0, realprio = \<lambda>_. 0, current = 1, trp = \<lambda>_. None, semcnt = \<lambda>_. 0,
    vts = \<lparr>dlist = [], lasttime = 0, vt_func = \<lambda>_. None, alarm = None\<rparr>\<rparr>"
  have "ring l Rlist (map Thread [2, 0])"
    unfolding l_def ring_prio by (simp add: ring_def ch_queue_insert_def ch_pqueue_init_def Let_def)
  then have r: "ready 0 s [2, 0]"
    by (auto simp: s_def ready_def rl_def l_def IDLEPRIO_def LOWPRIO_def)
  have "top_runs s" unfolding top_iff [OF r] by (auto simp: s_def l_def)
  from yield_round_robin [OF r this, of 1] show ?thesis using r by (auto simp: s_def l_def)
qed

end
