(* ===== verification/Ch_Msg.thy ===== *)
theory Ch_Msg
  imports Ch_Schd
begin

text \<open>
  Synchronous messages between threads (\<^verbatim>\<open>os/rt/src/chmsg.c\<close>, \<^verbatim>\<open>chmsg.h\<close>), by which the shell gives a
  sensor thread its new interval: the sender queues itself on the receiver and sleeps until the
  receiver answers.

  The theorems follow one exchange through the scheduler and the timers: a message sent to a
  waiting receiver reaches it and the answer reaches the sender, provided the receiver's union word holds
  \<^verbatim>\<open>MSG_OK\<close> when it goes to sleep; \<^verbatim>\<open>chMsgSend\<close> wakes the receiver without storing a wake-up message, so
  that a receiver whose last sleep had timed out takes the message for another timeout.
\<close>

section \<open>The code\<close>

definition chMsgSend :: "tid \<Rightarrow> u32 \<Rightarrow> sys \<Rightarrow> sys option" where
  "chMsgSend tp msg s = do {
     let c = current s;
     let s = set_u c msg s;
     let s = s\<lparr>lnk := ch_queue_insert (Thread c) (Msgqueue tp) (lnk s)\<rparr>;
     s \<leftarrow> (if tstate s tp = CH_STATE_WTMSG then chSchReadyI tp s else Some s);
     chSchGoSleepS CH_STATE_SNDMSGQ s }"

definition chMsgSend_resume :: "sys \<Rightarrow> u32" where
  "chMsgSend_resume s = u s (current s)"

definition chMsgIsPendingI :: "tid \<Rightarrow> sys \<Rightarrow> bool" where
  "chMsgIsPendingI tp s \<longleftrightarrow> nxt (lnk s) (Msgqueue tp) \<noteq> Msgqueue tp"

text \<open>The two statements that take the first sender from the queue of the current thread.\<close>

definition take_sender :: "sys \<Rightarrow> (tid \<times> sys) option" where
  "take_sender s = do {
     let (n, l) = ch_queue_fifo_remove (Msgqueue (current s)) (lnk s);
     tp \<leftarrow> as_thread n;
     Some (tp, set_state tp CH_STATE_SNDMSG (s\<lparr>lnk := l\<rparr>)) }"

text \<open>\<open>Inl\<close>: the caller sleeps; \<open>Inr\<close>: the sender.\<close>

definition chMsgWaitS :: "sys \<Rightarrow> (sys + tid \<times> sys) option" where
  "chMsgWaitS s =
     (if \<not> chMsgIsPendingI (current s) s then do { s \<leftarrow> chSchGoSleepS CH_STATE_WTMSG s; Some (Inl s) }
      else do { r \<leftarrow> take_sender s; Some (Inr r) })"

definition chMsgWaitS_resume :: "sys \<Rightarrow> (tid \<times> sys) option" where
  "chMsgWaitS_resume s = take_sender s"

definition chMsgWaitTimeoutS :: "systime_t \<Rightarrow> sysinterval_t \<Rightarrow> sys \<Rightarrow> (sys + tid \<times> sys) option" where
  "chMsgWaitTimeoutS now timeout s =
     (if \<not> chMsgIsPendingI (current s) s then do {
        s \<leftarrow> chSchGoSleepTimeoutS now CH_STATE_WTMSG timeout s;
        Some (Inl s) }
      else do { r \<leftarrow> take_sender s; Some (Inr r) })"

definition chMsgWaitTimeoutS_resume :: "systime_t \<Rightarrow> sysinterval_t \<Rightarrow> sys \<Rightarrow> (tid option \<times> sys) option" where
  "chMsgWaitTimeoutS_resume now timeout s = do {
     (msg, s) \<leftarrow> chSchGoSleepTimeoutS_resume now timeout s;
     if msg \<noteq> msg_code MSG_OK then Some (None, s)
     else do { (tp, s) \<leftarrow> take_sender s; Some (Some tp, s) } }"

definition chMsgPollS :: "sys \<Rightarrow> (tid option \<times> sys) option" where
  "chMsgPollS s =
     (if chMsgIsPendingI (current s) s then do { (tp, s) \<leftarrow> take_sender s; Some (Some tp, s) }
      else Some (None, s))"

definition chMsgWait :: "sys \<Rightarrow> (sys + tid \<times> sys) option" where
  "chMsgWait s = chMsgWaitS s"

definition chMsgWaitTimeout :: "systime_t \<Rightarrow> sysinterval_t \<Rightarrow> sys \<Rightarrow> (sys + tid \<times> sys) option" where
  "chMsgWaitTimeout now timeout s = chMsgWaitTimeoutS now timeout s"

definition chMsgPoll :: "sys \<Rightarrow> (tid option \<times> sys) option" where
  "chMsgPoll s = chMsgPollS s"

definition chMsgGet :: "tid \<Rightarrow> sys \<Rightarrow> u32 option" where
  "chMsgGet tp s = do {
     _ \<leftarrow> dbg_check (tstate s tp = CH_STATE_SNDMSG);
     Some (u s tp) }"

definition chMsgReleaseS :: "tid \<Rightarrow> u32 \<Rightarrow> sys \<Rightarrow> sys option" where
  "chMsgReleaseS tp msg s = chSchWakeupS tp msg s"

definition chMsgRelease :: "tid \<Rightarrow> u32 \<Rightarrow> sys \<Rightarrow> sys option" where
  "chMsgRelease tp msg s = do {
     _ \<leftarrow> dbg_check (tstate s tp = CH_STATE_SNDMSG);
     chMsgReleaseS tp msg s }"

section \<open>The queue of senders\<close>

text \<open>\<open>senders s r q\<close>: the threads \<open>q\<close>, none of them ready or running, wait to be served by \<open>r\<close>.\<close>

definition senders :: "sys \<Rightarrow> tid \<Rightarrow> tid list \<Rightarrow> bool" where
  "senders s r q \<longleftrightarrow> ring (lnk s) (Msgqueue r) (map Thread q) \<and>
     (\<forall>t \<in> set q. tstate s t = CH_STATE_SNDMSGQ)"

lemma senders_pending: "senders s r q \<Longrightarrow> chMsgIsPendingI r s \<longleftrightarrow> q \<noteq> []"
  using ring_isempty [of "lnk s" "Msgqueue r" "map Thread q"] by (simp add: senders_def chMsgIsPendingI_def)

lemma senders_not_ready:
  assumes "ready idle s rs" "senders s r q"
  shows "set q \<inter> insert (current s) (set rs) = {}"
proof -
  have "t \<noteq> current s \<and> t \<notin> set rs" if "t \<in> set q" for t
    using assms(2) that readyD(2,3) [OF assms(1), of t] by (auto simp: senders_def)
  then show ?thesis by blast
qed

lemma enqueue_sender:
  assumes r: "ready idle s rs" and q: "senders s r q"
  defines "l \<equiv> ch_queue_insert (Thread (current s)) (Msgqueue r) (lnk s)"
  shows "ready idle (s\<lparr>lnk := l\<rparr>) rs" "ring l (Msgqueue r) (map Thread (q @ [current s]))" "prio l = prio (lnk s)"
proof -
  have "set q \<inter> insert (current s) (set rs) = {}" using senders_not_ready [OF r q] .
  then have i: "inserted (lnk s) (Msgqueue r) (map Thread q) (Thread (current s)) (map Thread q @ [Thread (current s)]) l"
    using q unfolding l_def by (intro queue_insert_ok) (auto simp: senders_def)
  then show "ring l (Msgqueue r) (map Thread (q @ [current s]))" "prio l = prio (lnk s)"
    by (simp_all add: inserted_def)
  have "set (Rlist # map Thread rs) \<inter> set (Thread (current s) # Msgqueue r # map Thread q) = {}"
    using senders_not_ready [OF r q] readyD(4) [OF r] by auto
  then have "ring l Rlist (map Thread rs)" using i readyD(1) [OF r] by (simp add: inserted_def rl_def)
  then show "ready idle (s\<lparr>lnk := l\<rparr>) rs"
    using i by (intro ready_cong [OF r]) (simp_all add: inserted_def)
qed

lemma ready_set_state:
  assumes "ready idle s rs" "t \<noteq> current s" "t \<notin> set rs" "tstate s t \<noteq> CH_STATE_FINAL"
    "st \<noteq> CH_STATE_READY" "st \<noteq> CH_STATE_CURRENT"
  shows "ready idle (set_state t st s) rs"
proof -
  have "0 < tprio s t" "t \<noteq> idle \<longrightarrow> LOWPRIO \<le> tprio s t" using assms(1,4) unfolding ready_def rl_def by blast+
  then show ?thesis using assms by (auto simp: ready_def rl_def)
qed

lemma take_sender_ok:
  assumes r: "ready idle s rs" and q: "senders s (current s) (c # q)"
  shows "\<exists>s'. take_sender s = Some (c, s') \<and> ready idle s' rs \<and> senders s' (current s) q \<and> current s' = current s \<and>
    tstate s' = (tstate s)(c := CH_STATE_SNDMSG) \<and> u s' = u s \<and> prio (lnk s') = prio (lnk s)"
proof -
  obtain l where l: "ch_queue_fifo_remove (Msgqueue (current s)) (lnk s) = (Thread c, l)"
      "removed (lnk s) (Msgqueue (current s)) (map Thread (c # q)) (map Thread q) l"
    using fifo_remove_ok [of "lnk s" "Msgqueue (current s)" "Thread c" "map Thread q"] q by (auto simp: senders_def)
  have d: "set (c # q) \<inter> insert (current s) (set rs) = {}" using senders_not_ready [OF r q] .
  then have "set (Rlist # map Thread rs) \<inter> set (Msgqueue (current s) # map Thread (c # q)) = {}" by auto
  then have "ring l Rlist (map Thread rs)" using l(2) readyD(1) [OF r] by (simp add: removed_def rl_def)
  then have "ready idle (s\<lparr>lnk := l\<rparr>) rs" using l(2) by (intro ready_cong [OF r]) (simp_all add: removed_def)
  moreover have c: "tstate s c = CH_STATE_SNDMSGQ" "c \<notin> set q" "\<forall>t \<in> set q. tstate s t = CH_STATE_SNDMSGQ"
    using q by (auto simp: senders_def ring_def)
  ultimately have "ready idle (set_state c CH_STATE_SNDMSG (s\<lparr>lnk := l\<rparr>)) rs"
    using d by (intro ready_set_state) auto
  moreover have "senders (set_state c CH_STATE_SNDMSG (s\<lparr>lnk := l\<rparr>)) (current s) q"
    using l(2) c by (auto simp: senders_def removed_def)
  ultimately show ?thesis
    using l by (intro exI [of _ "set_state c CH_STATE_SNDMSG (s\<lparr>lnk := l\<rparr>)"]) (simp add: take_sender_def removed_def)
qed
section \<open>An exchange\<close>

lemma keeps_msgqueue:
  "keeps_queues T s s' \<Longrightarrow> ring (lnk s) (Msgqueue r) (map Thread zs) \<Longrightarrow> set zs \<inter> T = {} \<Longrightarrow> ring (lnk s') (Msgqueue r) (map Thread zs)"
  by (auto simp: keeps_queues_def)

lemma finite_timeout: "unat timeout + 65535 < 4294967296 \<Longrightarrow> timeout \<noteq> TIME_INFINITE"
  by (auto simp: TIME_INFINITE_def unsigned_minus_1_eq_mask mask_eq_exp_minus_1)

lemma wait_sleeps:
  assumes r: "ready idle s (c # rs)" and i: "current s \<noteq> idle" and q: "senders s (current s) []"
    and v: "vt_run (vts s) A T N" "\<not> chVTIsArmedI (vts s) (current s)" "N + 2 \<le> T + 65535"
    and d: "0 < timeout" "unat timeout + 65535 < 4294967296"
  shows "\<exists>s1 v. chMsgWaitTimeoutS (word_of_nat N) timeout s = Some (Inl s1) \<and> ready idle s1 rs \<and> current s1 = c \<and>
    senders s1 (current s) [] \<and> tstate s1 = (tstate s)(current s := CH_STATE_WTMSG, c := CH_STATE_CURRENT) \<and>
    u s1 = u s \<and> prio (lnk s1) = prio (lnk s) \<and>
    chVTIsArmedI (vts s1) (current s) \<and> chVTDoResetI (vts s1) (word_of_nat N) (current s) = Some v"
proof -
  have rep: "vt_rep (vts s) T A" "T \<le> N" "dlist (vts s) = [] \<or> N \<le> T + 65535" using vt_run_rep [OF v(1)] by auto
  obtain v1 where v1: "chVTDoSetI (vts s) (word_of_nat N) (current s) timeout (current s) = Some v1"
      "vt_rep v1 (if dlist (vts s) = [] then N else T) (ins_deadline (current s) (N + max 2 (unat timeout)) A)"
    using set_ok [OF rep v(2) d] by blast
  have "current s \<in> fst ` set (ins_deadline (current s) (N + max 2 (unat timeout)) A)" by (simp add: set_insert_deadline)
  then have armed: "chVTIsArmedI v1 (current s)"
    using v1(2) fst_deadlines [of "if dlist (vts s) = [] then N else T" "dlist v1"] by (auto simp: vt_rep_def simp flip: set_map)
  have b: "(if dlist (vts s) = [] then N else T) \<le> N" "N + 2 \<le> (if dlist (vts s) = [] then N else T) + 65535"
    using rep(2) v(3) by auto
  obtain v2 where v2: "chVTDoResetI v1 (word_of_nat N) (current s) = Some v2"
    using reset_ok [OF v1(2) b armed] by blast
  have "ready idle (s\<lparr>vts := v1\<rparr>) (c # rs)" by (rule ready_cong [OF r]) (use r in \<open>auto simp: ready_def rl_def\<close>)
  then obtain s1 where s1: "chSchGoSleepS CH_STATE_WTMSG (s\<lparr>vts := v1\<rparr>) = Some s1" "ready idle s1 rs" "current s1 = c"
      "prio (lnk s1) = prio (lnk s)" "u s1 = u s" "vts s1 = v1"
      "tstate s1 = (tstate s)(current s := CH_STATE_WTMSG, c := CH_STATE_CURRENT)" "keeps_queues (insert c (set rs)) (s\<lparr>vts := v1\<rparr>) s1"
    using go_sleep_ok [of idle "s\<lparr>vts := v1\<rparr>" c rs CH_STATE_WTMSG] i by auto
  have "timeout \<noteq> TIME_INFINITE" using finite_timeout [OF d(2)] .
  moreover have "senders s1 (current s) []" using keeps_msgqueue [OF s1(8), of "current s" "[]"] q by (simp add: senders_def)
  ultimately show ?thesis
    using s1 v1 v2 armed senders_pending [OF q] by (auto simp: chMsgWaitTimeoutS_def chSchGoSleepTimeoutS_def)
qed

lemma send_wakes:
  assumes r: "ready idle s rs" and i: "current s \<noteq> idle" and w: "tstate s r = CH_STATE_WTMSG" and q: "senders s r []"
    and p: "\<forall>t \<in> set rs. tprio s t < tprio s r"
  shows "\<exists>s2. chMsgSend r m s = Some s2 \<and> ready idle s2 rs \<and> current s2 = r \<and> senders s2 r [current s] \<and> top_runs s2 \<and>
    u s2 = (u s)(current s := m) \<and> vts s2 = vts s \<and> prio (lnk s2) = prio (lnk s)"
proof -
  define c where "c = current s"
  have rc: "r \<noteq> c" "r \<notin> set rs" using w readyD(2,3) [OF r, of r] by (auto simp: c_def)
  define s0 where "s0 = (set_u c m s)\<lparr>lnk := ch_queue_insert (Thread c) (Msgqueue r) (lnk s)\<rparr>"
  have "ready idle (set_u c m s) rs" using r by (simp add: ready_def rl_def)
  moreover have "senders (set_u c m s) r []" using q by (simp add: senders_def)
  ultimately have s0: "ready idle s0 rs" "ring (lnk s0) (Msgqueue r) (map Thread [c])" "prio (lnk s0) = prio (lnk s)"
    using enqueue_sender [of idle "set_u c m s" rs r "[]"] by (simp_all add: s0_def c_def)
  have "behind (tprio s) r rs = r # rs" using p by (cases rs) (auto simp: behind_def)
  then obtain s1 where s1: "sch_ready_behind r s0 = Some s1" "ready idle s1 (r # rs)" "current s1 = c"
      "prio (lnk s1) = prio (lnk s0)" "u s1 = u s0" "vts s1 = vts s0" "tstate s1 = (tstate s0)(r := CH_STATE_READY)"
      "keeps_queues (insert r (set rs)) s0 s1"
    using ready_I [OF s0(1), of r] rc w s0(3) by (auto simp: s0_def c_def)
  have "current s1 \<noteq> idle" using i s1(3) c_def by simp
  then obtain s2 where s2: "chSchGoSleepS CH_STATE_SNDMSGQ s1 = Some s2" "ready idle s2 rs" "current s2 = r" "top_runs s2"
      "prio (lnk s2) = prio (lnk s1)" "u s2 = u s1" "vts s2 = vts s1"
      "tstate s2 = (tstate s1)(c := CH_STATE_SNDMSGQ, r := CH_STATE_CURRENT)" "keeps_queues (insert r (set rs)) s1 s2"
    using go_sleep_ok [OF s1(2), of CH_STATE_SNDMSGQ] s1(3) by auto
  have "keeps_queues (insert r (set rs)) s0 s2" using keeps_queues_trans [OF s1(8) s2(9)] .
  then have "ring (lnk s2) (Msgqueue r) (map Thread [c])"
    using keeps_msgqueue [OF _ s0(2)] rc readyD(4) [OF r] by (simp add: c_def)
  then have "senders s2 r [c]" using s2(8) rc by (simp add: senders_def)
  then show ?thesis
    using s1 s2 s0 w by (auto simp: chMsgSend_def chSchReadyI_def c_def s0_def)
qed
section \<open>Properties\<close>

text \<open>The receiver \<open>r\<close> calls \<^verbatim>\<open>chMsgWaitTimeout\<close> and the thread \<open>c\<close> that runs next, of lower
  priority, sends it the message \<open>m\<close>.\<close>

definition exchange :: "tid \<Rightarrow> sys \<Rightarrow> tid \<Rightarrow> tid list \<Rightarrow> nat \<Rightarrow> sysinterval_t \<Rightarrow> bool" where
  "exchange idle s c rs N timeout \<longleftrightarrow> ready idle s (c # rs) \<and> current s \<noteq> idle \<and> c \<noteq> idle \<and> senders s (current s) [] \<and>
     tprio s c < tprio s (current s) \<and>
     (\<exists>A T. vt_run (vts s) A T N \<and> N + 2 \<le> T + 65535) \<and> \<not> chVTIsArmedI (vts s) (current s) \<and>
     0 < timeout \<and> unat timeout + 65535 < 4294967296"

lemma exchange_send:
  assumes "exchange idle s c rs N timeout"
  shows "\<exists>s1 s2 v. chMsgWaitTimeoutS (word_of_nat N) timeout s = Some (Inl s1) \<and> current s1 = c \<and>
    chMsgSend (current s) m s1 = Some s2 \<and> ready idle s2 rs \<and> current s2 = current s \<and> senders s2 (current s) [c] \<and>
    top_runs s2 \<and> u s2 = (u s)(c := m) \<and> prio (lnk s2) = prio (lnk s) \<and> timeout \<noteq> TIME_INFINITE \<and>
    chVTIsArmedI (vts s2) (current s) \<and> chVTDoResetI (vts s2) (word_of_nat N) (current s) = Some v"
proof -
  obtain A T where v: "vt_run (vts s) A T N" "N + 2 \<le> T + 65535" using assms by (auto simp: exchange_def)
  have x: "ready idle s (c # rs)" "current s \<noteq> idle" "c \<noteq> idle" "senders s (current s) []" "tprio s c < tprio s (current s)"
      "\<not> chVTIsArmedI (vts s) (current s)" "0 < timeout" "unat timeout + 65535 < 4294967296"
    using assms by (auto simp: exchange_def)
  obtain s1 v where s1: "chMsgWaitTimeoutS (word_of_nat N) timeout s = Some (Inl s1)" "ready idle s1 rs" "current s1 = c"
    "senders s1 (current s) []" "tstate s1 = (tstate s)(current s := CH_STATE_WTMSG, c := CH_STATE_CURRENT)"
    "u s1 = u s" "prio (lnk s1) = prio (lnk s)" "chVTIsArmedI (vts s1) (current s)"
    "chVTDoResetI (vts s1) (word_of_nat N) (current s) = Some v"
    using wait_sleeps [OF x(1,2,4) v(1) x(6) v(2) x(7,8)] by auto
  have "current s \<noteq> c" using x(5) by auto
  then have w: "tstate s1 (current s) = CH_STATE_WTMSG" using s1(5) by simp
  have "\<forall>t \<in> set rs. tprio s t < tprio s (current s)" using readyD(6) [OF x(1)] x(5) by (auto intro: le_less_trans)
  then have p: "\<forall>t \<in> set rs. tprio s1 t < tprio s1 (current s)" using s1(7) by simp
  have "timeout \<noteq> TIME_INFINITE" using finite_timeout [OF x(8)] .
  then show ?thesis using s1 send_wakes [OF s1(2) _ w s1(4) p, of m] x(3) by auto
qed

text \<open>
  C36.  After a sleep that timed out the next message is taken for a timeout.  \<^verbatim>\<open>chMsgSend\<close> makes the
  receiver ready but does not store \<^verbatim>\<open>MSG_OK\<close> in its word \<open>u\<close>; when that still holds anything else, such as
  the \<^verbatim>\<open>MSG_TIMEOUT\<close> of an earlier \<^verbatim>\<open>chThdSleep\<close>, the receiver's wait returns no sender although one
  is queued, and the sender stays asleep until the receiver's next wait, which gets the message.
\<close>

theorem msg_taken_for_timeout:
  assumes "exchange idle s c rs N timeout" and "u s (current s) = msg_code MSG_TIMEOUT"
  shows "\<exists>s1 s2 s3 s4. chMsgWaitTimeoutS (word_of_nat N) timeout s = Some (Inl s1) \<and> current s1 = c \<and>
    chMsgSend (current s) m s1 = Some s2 \<and> current s2 = current s \<and>
    chMsgWaitTimeoutS_resume (word_of_nat N) timeout s2 = Some (None, s3) \<and>
    chMsgIsPendingI (current s) s3 \<and> tstate s3 c = CH_STATE_SNDMSGQ \<and>
    chMsgWaitTimeoutS now' timeout' s3 = Some (Inr (c, s4)) \<and> chMsgGet c s4 = Some m"
proof -
  obtain s1 s2 v where s2: "chMsgWaitTimeoutS (word_of_nat N) timeout s = Some (Inl s1)" "current s1 = c"
    "chMsgSend (current s) m s1 = Some s2" "ready idle s2 rs" "current s2 = current s" "senders s2 (current s) [c]"
    "u s2 = (u s)(c := m)" "timeout \<noteq> TIME_INFINITE"
    "chVTIsArmedI (vts s2) (current s)" "chVTDoResetI (vts s2) (word_of_nat N) (current s) = Some v"
    using exchange_send [OF assms(1), of m] by auto
  have c: "c \<noteq> current s" using assms(1) by (auto simp: exchange_def)
  define s3 where "s3 = s2\<lparr>vts := v\<rparr>"
  have s3: "ready idle s3 rs" "senders s3 (current s3) [c]" "current s3 = current s" "tstate s3 c = CH_STATE_SNDMSGQ" "u s3 = u s2"
    using s2(4-6) by (auto simp: s3_def senders_def ready_def rl_def)
  then have "\<exists>s4. chMsgWaitTimeoutS now' timeout' s3 = Some (Inr (c, s4)) \<and> chMsgGet c s4 = Some m"
    using take_sender_ok [OF s3(1,2)] senders_pending [OF s3(2)] s2(7)
    by (auto simp: chMsgWaitTimeoutS_def chMsgGet_def)
  moreover have "chMsgWaitTimeoutS_resume (word_of_nat N) timeout s2 = Some (None, s3)"
    using s2 assms(2) c by (simp add: chMsgWaitTimeoutS_resume_def chSchGoSleepTimeoutS_resume_def s3_def msg_code_def)
  ultimately show ?thesis using s2 s3 senders_pending [OF s3(2)] by auto
qed

text \<open>A sensor thread (1, priority 138) waits, the shell (2, priority 128) is next, the idle thread is 0.\<close>

definition two_threads :: "u32 \<Rightarrow> sys" where
  "two_threads w = \<lparr>lnk = (ch_queue_init (Msgqueue 1) (ch_queue_insert (Thread 0) Rlist (ch_queue_insert (Thread 2) Rlist
      (ch_pqueue_init Rlist \<lparr>nxt = id, prv = id, prio = \<lambda>_. 0\<rparr>))))\<lparr>prio := (\<lambda>_. 128)(Rlist := 0, Thread 0 := 1, Thread 1 := 138)\<rparr>,
    tstate = (\<lambda>_. CH_STATE_FINAL)(0 := CH_STATE_READY, 1 := CH_STATE_CURRENT, 2 := CH_STATE_READY),
    u = (\<lambda>_. 0)(1 := w), realprio = \<lambda>_. 0, current = 1, trp = \<lambda>_. None, semcnt = \<lambda>_. 0, vts = no_timers\<rparr>"

lemma two_threads_exchange: "exchange 0 (two_threads w) 2 [0] 5 300000"
proof -
  have "ring (lnk (two_threads w)) Rlist (map Thread [2, 0])" "ring (lnk (two_threads w)) (Msgqueue 1) []"
    unfolding two_threads_def sys.simps ring_prio
    by (simp_all add: ring_def ch_queue_insert_def ch_pqueue_init_def ch_queue_init_def Let_def)
  then have "ready 0 (two_threads w) [2, 0]" "senders (two_threads w) 1 []"
    by (auto simp: two_threads_def ready_def rl_def IDLEPRIO_def LOWPRIO_def senders_def)
  moreover have "vt_run (vts (two_threads w)) [] 0 5" unfolding two_threads_def by (simp add: no_timers_run)
  ultimately show ?thesis
    unfolding exchange_def by (auto simp: two_threads_def no_timers_armed intro!: exI [of _ "0 :: nat"])
qed


theorem msg_taken_for_timeout_witness:
  "\<exists>s1 s2 s3. chMsgWaitTimeoutS 5 300000 (two_threads (- 1)) = Some (Inl s1) \<and> chMsgSend 1 60 s1 = Some s2 \<and>
     chMsgWaitTimeoutS_resume 5 300000 s2 = Some (None, s3) \<and> chMsgIsPendingI 1 s3"
proof -
  have "u (two_threads (- 1)) (current (two_threads (- 1))) = msg_code MSG_TIMEOUT" "current (two_threads (- 1)) = 1"
    by (simp_all add: two_threads_def msg_code_def)
  with msg_taken_for_timeout [OF two_threads_exchange this(1), of 60 0 0] show ?thesis by auto
qed

end
