(* ===== verification/I2c.thy ===== *)
theory I2c
  imports Ch_Time
begin

text \<open>
  The shared I2C bus: the HAL driver \<^verbatim>\<open>os/hal/src/hal_i2c.c\<close>, the restart of a locked bus
  \<^verbatim>\<open>checkI2CCondition\<close> (\<^verbatim>\<open>main.c\<close>) and \<^verbatim>\<open>i2c1_init\<close> (\<^verbatim>\<open>cfg/hw.c\<close>).

  The transfer itself (the peripheral, the wires and the chips) is the environment, a record
  of functions on an abstract state \<open>'w\<close>.  A thread that calls \<^verbatim>\<open>i2cAcquireBus\<close> may wait for
  other threads; \<open>others\<close> is what they do to the driver meanwhile, and \<open>peek_state\<close> what a
  thread sees that reads the driver's state without holding the mutex.  The contract of the bus is
  \<open>bus_inv\<close>: between two transactions the driver is ready or locked and its mutex is free.
  Every driver function is proved to return and to re-establish \<open>bus_inv\<close>, provided the other
  threads do (\<open>others_ok\<close>), so the assumption each of them makes on the others is discharged by
  what the others are proved to do.
\<close>

section \<open>The code\<close>

datatype i2cstate_t = I2C_UNINIT | I2C_STOP | I2C_READY | I2C_ACTIVE_TX | I2C_ACTIVE_RX | I2C_LOCKED

record 'w I2CDriver =
  i2c_state :: i2cstate_t
  i2c_config :: "nat option"
  i2c_errors :: u32
  i2c_mutex :: bool
  world :: 'w

text \<open>A transfer takes the address, the bytes to send, the receive buffer and the timeout, and
  gives the wake-up message and the new contents of the receive buffer.\<close>

record 'w i2c_env =
  lld_transmit :: "'w \<Rightarrow> u16 \<Rightarrow> u8 list \<Rightarrow> u8 list \<Rightarrow> sysinterval_t \<Rightarrow> msg_t \<times> u8 list \<times> 'w"
  lld_receive :: "'w \<Rightarrow> u16 \<Rightarrow> u8 list \<Rightarrow> sysinterval_t \<Rightarrow> msg_t \<times> u8 list \<times> 'w"
  lld_start :: "'w \<Rightarrow> 'w"
  lld_stop :: "'w \<Rightarrow> 'w"
  others :: "'w I2CDriver \<Rightarrow> 'w I2CDriver"
  peek_state :: "'w I2CDriver \<Rightarrow> i2cstate_t"

definition i2cObjectInit :: "'w I2CDriver \<Rightarrow> 'w I2CDriver" where
  "i2cObjectInit d = d\<lparr>i2c_state := I2C_STOP, i2c_config := None, i2c_mutex := False\<rparr>"

definition i2cStart :: "'w i2c_env \<Rightarrow> 'w I2CDriver \<Rightarrow> nat \<Rightarrow> 'w I2CDriver option" where
  "i2cStart e d config = do {
     _ \<leftarrow> dbg_check (i2c_state d = I2C_STOP \<or> i2c_state d = I2C_READY \<or> i2c_state d = I2C_LOCKED);
     let d = d\<lparr>i2c_config := Some config\<rparr>;
     let d = d\<lparr>world := lld_start e (world d)\<rparr>;
     Some (d\<lparr>i2c_state := I2C_READY\<rparr>) }"

definition i2cStop :: "'w i2c_env \<Rightarrow> 'w I2CDriver \<Rightarrow> 'w I2CDriver option" where
  "i2cStop e d = do {
     _ \<leftarrow> dbg_check (i2c_state d = I2C_STOP \<or> i2c_state d = I2C_READY \<or> i2c_state d = I2C_LOCKED);
     let d = d\<lparr>world := lld_stop e (world d)\<rparr>;
     Some (d\<lparr>i2c_config := None, i2c_state := I2C_STOP\<rparr>) }"

definition i2cMasterTransmitTimeout ::
    "'w i2c_env \<Rightarrow> 'w I2CDriver \<Rightarrow> u16 \<Rightarrow> u8 list \<Rightarrow> u8 list \<Rightarrow> sysinterval_t \<Rightarrow>
     (msg_t \<times> u8 list \<times> 'w I2CDriver) option" where
  "i2cMasterTransmitTimeout e d addr txbuf rxbuf timeout = do {
     _ \<leftarrow> dbg_check (txbuf \<noteq> [] \<and> timeout \<noteq> TIME_IMMEDIATE);
     _ \<leftarrow> dbg_check (i2c_state d = I2C_READY);
     let d = d\<lparr>i2c_errors := 0, i2c_state := I2C_ACTIVE_TX\<rparr>;
     let (rdymsg, rxbuf, w) = lld_transmit e (world d) addr txbuf rxbuf timeout;
     let d = d\<lparr>world := w\<rparr>;
     let d = (if rdymsg = MSG_TIMEOUT then d\<lparr>i2c_state := I2C_LOCKED\<rparr> else d\<lparr>i2c_state := I2C_READY\<rparr>);
     Some (rdymsg, rxbuf, d) }"

definition i2cMasterReceiveTimeout ::
    "'w i2c_env \<Rightarrow> 'w I2CDriver \<Rightarrow> u16 \<Rightarrow> u8 list \<Rightarrow> sysinterval_t \<Rightarrow>
     (msg_t \<times> u8 list \<times> 'w I2CDriver) option" where
  "i2cMasterReceiveTimeout e d addr rxbuf timeout = do {
     _ \<leftarrow> dbg_check (addr \<noteq> 0 \<and> rxbuf \<noteq> [] \<and> timeout \<noteq> TIME_IMMEDIATE);
     _ \<leftarrow> dbg_check (i2c_state d = I2C_READY);
     let d = d\<lparr>i2c_errors := 0, i2c_state := I2C_ACTIVE_RX\<rparr>;
     let (rdymsg, rxbuf, w) = lld_receive e (world d) addr rxbuf timeout;
     let d = d\<lparr>world := w\<rparr>;
     let d = (if rdymsg = MSG_TIMEOUT then d\<lparr>i2c_state := I2C_LOCKED\<rparr> else d\<lparr>i2c_state := I2C_READY\<rparr>);
     Some (rdymsg, rxbuf, d) }"

text \<open>The mutex is not recursive: a thread that holds it and locks it again waits forever, as
  does one that waits for a thread that never unlocks.\<close>

definition i2cAcquireBus :: "'w i2c_env \<Rightarrow> 'w I2CDriver \<Rightarrow> 'w I2CDriver option" where
  "i2cAcquireBus e d =
     (if i2c_mutex d then None
      else let d = others e d in if i2c_mutex d then None else Some (d\<lparr>i2c_mutex := True\<rparr>))"

definition i2cReleaseBus :: "'w I2CDriver \<Rightarrow> 'w I2CDriver option" where
  "i2cReleaseBus d = do {
     _ \<leftarrow> dbg_check (i2c_mutex d);
     Some (d\<lparr>i2c_mutex := False\<rparr>) }"

text \<open>The number stands for \<^verbatim>\<open>&i2cfg1\<close>; the pin modes are not modelled.\<close>

definition i2c1_init :: "'w i2c_env \<Rightarrow> 'w I2CDriver \<Rightarrow> 'w I2CDriver option" where
  "i2c1_init e d = i2cStart e d 1"

text \<open>The firmware has one bus, so \<^verbatim>\<open>driver == &I2CD1\<close> holds.\<close>

definition checkI2CCondition :: "'w i2c_env \<Rightarrow> 'w I2CDriver \<Rightarrow> (bool \<times> 'w I2CDriver) option" where
  "checkI2CCondition e d = do {
     d \<leftarrow> (if i2c_state d = I2C_LOCKED then do {
             d \<leftarrow> i2cStop e d;
             i2c1_init e d }
           else Some d);
     Some (i2c_state d = I2C_READY, d) }"

section \<open>The contract of the bus\<close>

definition bus_usable :: "'w I2CDriver \<Rightarrow> bool" where
  "bus_usable d \<longleftrightarrow> i2c_state d = I2C_READY \<or> i2c_state d = I2C_LOCKED"

definition bus_inv :: "'w I2CDriver \<Rightarrow> bool" where
  "bus_inv d \<longleftrightarrow> bus_usable d \<and> \<not> i2c_mutex d"

definition others_ok :: "'w i2c_env \<Rightarrow> bool" where
  "others_ok e \<longleftrightarrow> (\<forall>d. bus_inv d \<longrightarrow> bus_inv (others e d))"

lemma acquire_ok:
  assumes "others_ok e" "bus_inv d"
  obtains d' where "i2cAcquireBus e d = Some d'" "bus_usable d'" "i2c_mutex d'"
    "d' = (others e d)\<lparr>i2c_mutex := True\<rparr>"
  using assms by (auto simp: i2cAcquireBus_def others_ok_def bus_inv_def bus_usable_def)

lemma check_ok:
  assumes "bus_usable d"
  obtains d' where "checkI2CCondition e d = Some (True, d')" "i2c_state d' = I2C_READY"
    "i2c_mutex d' = i2c_mutex d"
  using assms
  by (auto simp: checkI2CCondition_def i2cStop_def i2c1_init_def i2cStart_def bus_usable_def)

lemma transmit_ok:
  assumes "i2c_state d = I2C_READY" "tx \<noteq> []" "timeout \<noteq> TIME_IMMEDIATE"
  obtains r rx' d' where "i2cMasterTransmitTimeout e d addr tx rx timeout = Some (r, rx', d')"
    "bus_usable d'" "i2c_mutex d' = i2c_mutex d"
    "(r, rx', world d') = lld_transmit e (world d) addr tx rx timeout"
    "i2c_state d' = I2C_READY \<longleftrightarrow> r \<noteq> MSG_TIMEOUT"
  using assms
  by (cases "lld_transmit e (world d) addr tx rx timeout")
     (auto simp: i2cMasterTransmitTimeout_def bus_usable_def Let_def)

lemma receive_ok:
  assumes "i2c_state d = I2C_READY" "rx \<noteq> []" "addr \<noteq> 0" "timeout \<noteq> TIME_IMMEDIATE"
  obtains r rx' d' where "i2cMasterReceiveTimeout e d addr rx timeout = Some (r, rx', d')"
    "bus_usable d'" "i2c_mutex d' = i2c_mutex d"
    "(r, rx', world d') = lld_receive e (world d) addr rx timeout"
    "i2c_state d' = I2C_READY \<longleftrightarrow> r \<noteq> MSG_TIMEOUT"
  using assms
  by (cases "lld_receive e (world d) addr rx timeout")
     (auto simp: i2cMasterReceiveTimeout_def bus_usable_def Let_def)

lemma release_ok:
  assumes "i2c_mutex d" "bus_usable d"
  shows "i2cReleaseBus d = Some (d\<lparr>i2c_mutex := False\<rparr>)" and "bus_inv (d\<lparr>i2c_mutex := False\<rparr>)"
  using assms by (auto simp: i2cReleaseBus_def bus_inv_def bus_usable_def)

section \<open>A guarded transaction\<close>

text \<open>
  The register functions of all sensor drivers share one shape: take the bus, restart it if
  it is locked, give up if it is still not ready, transmit, release.  The shape as one
  function; the drivers' definitions are written out from their own source and proved equal
  to an instance of it.
\<close>

definition guarded_transmit ::
    "'w i2c_env \<Rightarrow> 'w I2CDriver \<Rightarrow> u16 \<Rightarrow> u8 list \<Rightarrow> u8 list \<Rightarrow> sysinterval_t \<Rightarrow>
     ((msg_t \<times> u8 list) option \<times> 'w I2CDriver) option" where
  "guarded_transmit e d addr tx rx timeout = do {
     d \<leftarrow> i2cAcquireBus e d;
     (ok, d) \<leftarrow> checkI2CCondition e d;
     if \<not> ok then do { d \<leftarrow> i2cReleaseBus d; Some (None, d) }
     else do {
       (r, rx, d) \<leftarrow> i2cMasterTransmitTimeout e d addr tx rx timeout;
       d \<leftarrow> i2cReleaseBus d;
       Some (Some (r, rx), d) } }"

lemma guarded_transmit_ok:
  assumes "others_ok e" "bus_inv d" "tx \<noteq> []" "timeout \<noteq> TIME_IMMEDIATE"
  obtains r rx' d' w where "guarded_transmit e d addr tx rx timeout = Some (Some (r, rx'), d')" "bus_inv d'"
    "(r, rx', world d') = lld_transmit e w addr tx rx timeout"
proof -
  obtain d1 where d1: "i2cAcquireBus e d = Some d1" "bus_usable d1" "i2c_mutex d1"
    using acquire_ok [OF assms(1,2)] by metis
  obtain d2 where d2: "checkI2CCondition e d1 = Some (True, d2)" "i2c_state d2 = I2C_READY"
      "i2c_mutex d2 = i2c_mutex d1"
    using check_ok [OF d1(2), of e] by metis
  obtain r rx' d3 where d3: "i2cMasterTransmitTimeout e d2 addr tx rx timeout = Some (r, rx', d3)"
      "bus_usable d3" "i2c_mutex d3 = i2c_mutex d2"
      "(r, rx', world d3) = lld_transmit e (world d2) addr tx rx timeout"
    using transmit_ok [OF d2(2) assms(3,4), of e addr rx] by metis
  with d1 d2 release_ok [of d3] show ?thesis
    by (intro that [of r rx' "d3\<lparr>i2c_mutex := False\<rparr>" "world d2"]) (auto simp: guarded_transmit_def)
qed

section \<open>The interface: an operation on the bus\<close>

text \<open>An operation takes the bus and gives it back usable, whatever its chip answers.\<close>

definition serves :: "('w I2CDriver \<Rightarrow> ('a \<times> 'w I2CDriver) option) \<Rightarrow> bool" where
  "serves f \<longleftrightarrow> (\<forall>d. bus_inv d \<longrightarrow> (\<exists>r d'. f d = Some (r, d') \<and> bus_inv d'))"

lemma servesE:
  assumes "serves f" "bus_inv d"
  obtains r d' where "f d = Some (r, d')" "bus_inv d'"
  using assms by (auto simp: serves_def)

lemma serves_return [bus_keeps]: "serves (\<lambda>d. Some (r, d))"
  by (simp add: serves_def)

lemma serves_bind [bus_keeps]:
  "serves f \<Longrightarrow> (\<And>r. serves (g r)) \<Longrightarrow> serves (\<lambda>d. f d \<bind> (\<lambda>(r, d). g r d))"
  by (fastforce simp: serves_def)

lemma serves_if [bus_keeps]:
  "serves f \<Longrightarrow> serves g \<Longrightarrow> serves (\<lambda>d. if b then f d else g d)"
  by (simp add: serves_def)

lemma serves_case [bus_keeps]:
  "(\<And>a b. serves (g a b)) \<Longrightarrow> serves (\<lambda>d. case r of (a, b) \<Rightarrow> g a b d)"
  by (cases r) simp

lemma serves_case_fun [bus_keeps]:
  "(\<And>a b. serves (g a b)) \<Longrightarrow> serves (case r of (a, b) \<Rightarrow> g a b)"
  by (cases r) simp

lemma serves_check: "b \<Longrightarrow> serves g \<Longrightarrow> serves (\<lambda>d. dbg_check b \<bind> (\<lambda>_. g d))"
  by (simp add: serves_def)

lemma serves_guarded [bus_keeps]:
  "others_ok e \<Longrightarrow> tx \<noteq> [] \<Longrightarrow> timeout \<noteq> TIME_IMMEDIATE \<Longrightarrow>
   serves (\<lambda>d. guarded_transmit e d addr tx rx timeout)"
  unfolding serves_def by (metis guarded_transmit_ok)

locale bus_client =
  fixes run :: "'w i2c_env \<Rightarrow> 'w I2CDriver \<Rightarrow> ('a \<times> 'w I2CDriver) option"
  assumes keeps: "others_ok e \<Longrightarrow> serves (run e)"
begin

text \<open>The operation of one thread is admissible interference for the others.\<close>

lemma as_interference:
  "others_ok e \<Longrightarrow> others_ok (e\<lparr>others := \<lambda>d. case run e d of Some (r, d') \<Rightarrow> d' | None \<Rightarrow> d\<rparr>)"
  using keeps [of e] by (fastforce simp: others_ok_def serves_def split: option.splits)

text \<open>Any number of repetitions returns.\<close>

lemma repeats:
  assumes "others_ok e"
  shows "bus_inv d \<Longrightarrow> \<exists>d'. ((\<lambda>x. x \<bind> (\<lambda>d. map_option snd (run e d))) ^^ n) (Some d) = Some d' \<and> bus_inv d'"
proof (induction n)
  case 0
  then show ?case by simp
next
  case (Suc n)
  then obtain d' where "((\<lambda>x. x \<bind> (\<lambda>d. map_option snd (run e d))) ^^ n) (Some d) = Some d'" "bus_inv d'"
    by blast
  with keeps [OF assms] show ?case by (fastforce simp: serves_def)
qed

end

text \<open>The timeouts the drivers use.\<close>

lemma timeouts_wait [simp]:
  "TIME_MS2I 200 \<noteq> TIME_IMMEDIATE" "TIME_MS2I 500 \<noteq> TIME_IMMEDIATE" "TIME_MS2I 800 \<noteq> TIME_IMMEDIATE"
  using TIME_MS2I_id [of 200] TIME_MS2I_id [of 500] TIME_MS2I_id [of 800]
  by (simp_all add: TIME_IMMEDIATE_def)

end
