(* ===== verification/Bmp280.thy ===== *)
theory Bmp280
  imports I2c Complex_Main
begin

text \<open>
  The pressure, temperature and humidity sensor (\<^verbatim>\<open>drivers/bmp280.c\<close>).  The file's static
  buffers \<^verbatim>\<open>rx_buff\<close> and \<^verbatim>\<open>data\<close> are fields of the handle.  Signed calibration values are kept
  as the 16 or 8 bits read from the chip and converted with \<open>sint\<close> where the code uses them.
  The compensation formulas work on integers with every intermediate result checked against the
  width of its C type: \<open>None\<close> is signed overflow.
\<close>

section \<open>The code\<close>

definition BMP280_REG_CONFIG :: u8 where "BMP280_REG_CONFIG = 0xF5"
definition BMP280_REG_CTRL :: u8 where "BMP280_REG_CTRL = 0xF4"
definition BMP280_REG_STATUS :: u8 where "BMP280_REG_STATUS = 0xF3"
definition BMP280_REG_CTRL_HUM :: u8 where "BMP280_REG_CTRL_HUM = 0xF2"
definition BMP280_REG_RESET :: u8 where "BMP280_REG_RESET = 0xE0"
definition BMP280_REG_ID :: u8 where "BMP280_REG_ID = 0xD0"
definition BMP280_RESET_VALUE :: u8 where "BMP280_RESET_VALUE = 0xB6"
definition BMP280_I2C_ADDRESS_0 :: u16 where "BMP280_I2C_ADDRESS_0 = 0x76"
definition BMP280_I2C_ADDRESS_1 :: u16 where "BMP280_I2C_ADDRESS_1 = 0x77"
definition BMP280_CHIP_ID :: u8 where "BMP280_CHIP_ID = 0x58"
definition BME280_CHIP_ID :: u8 where "BME280_CHIP_ID = 0x60"

datatype BMP280_Mode = BMP280_MODE_SLEEP | BMP280_MODE_FORCED | BMP280_MODE_NORMAL

fun mode_code :: "BMP280_Mode \<Rightarrow> u8" where
  "mode_code BMP280_MODE_SLEEP = 0"
| "mode_code BMP280_MODE_FORCED = 1"
| "mode_code BMP280_MODE_NORMAL = 3"

text \<open>The other enumerations of \<^verbatim>\<open>bmp280.h\<close> are their codes.\<close>

record bmp280_params_t =
  bmp_mode :: BMP280_Mode
  filter_code :: u8
  oversampling_pressure :: u8
  oversampling_temperature :: u8
  oversampling_humidity :: u8
  standby :: u8

record BMP280_HandleTypedef =
  dig_T1 :: u16
  dig_T2 :: u16
  dig_T3 :: u16
  dig_P1 :: u16
  dig_P2 :: u16
  dig_P3 :: u16
  dig_P4 :: u16
  dig_P5 :: u16
  dig_P6 :: u16
  dig_P7 :: u16
  dig_P8 :: u16
  dig_P9 :: u16
  dig_H1 :: u8
  dig_H2 :: u16
  dig_H3 :: u8
  dig_H4 :: u16
  dig_H5 :: u16
  dig_H6 :: u8
  bmp_addr :: u16
  params :: bmp280_params_t
  chip_id :: u8
  rx_buff :: "u8 list"
  data_buff :: "u8 list"

definition BMP280_init_default_params :: "bmp280_params_t \<Rightarrow> bmp280_params_t" where
  "BMP280_init_default_params p = p\<lparr>bmp_mode := BMP280_MODE_FORCED, filter_code := 0,
     oversampling_pressure := 3, oversampling_temperature := 3, oversampling_humidity := 3, standby := 4\<rparr>"

definition BMP280_read_register16 ::
    "'w i2c_env \<Rightarrow> 'w I2CDriver \<Rightarrow> BMP280_HandleTypedef \<Rightarrow> u8 \<Rightarrow>
     ((bool \<times> u16 option \<times> BMP280_HandleTypedef) \<times> 'w I2CDriver) option" where
  "BMP280_read_register16 e d dev addr = do {
     d \<leftarrow> i2cAcquireBus e d;
     (ok, d) \<leftarrow> checkI2CCondition e d;
     if \<not> ok then do { d \<leftarrow> i2cReleaseBus d; Some ((False, None, dev), d) }
     else do {
       (r, rx, d) \<leftarrow> i2cMasterTransmitTimeout e d (bmp_addr dev) [addr] (rx_buff dev) (TIME_MS2I 800);
       let dev = dev\<lparr>rx_buff := rx\<rparr>;
       if r = MSG_OK then do {
         let v = push_bit 8 (ucast (rx_buff dev ! 1)) OR ucast (rx_buff dev ! 0);
         d \<leftarrow> i2cReleaseBus d;
         Some ((True, Some v, dev), d) }
       else do {
         d \<leftarrow> i2cReleaseBus d;
         Some ((False, None, dev), d) } } }"

text \<open>\<open>buf\<close> is the caller's buffer of \<^verbatim>\<open>len\<close> bytes.\<close>

definition BMP280_read_data ::
    "'w i2c_env \<Rightarrow> 'w I2CDriver \<Rightarrow> BMP280_HandleTypedef \<Rightarrow> u8 \<Rightarrow> u8 list \<Rightarrow>
     ((bool \<times> u8 list) \<times> 'w I2CDriver) option" where
  "BMP280_read_data e d dev addr buf = do {
     d \<leftarrow> i2cAcquireBus e d;
     (ok, d) \<leftarrow> checkI2CCondition e d;
     if \<not> ok then do { d \<leftarrow> i2cReleaseBus d; Some ((False, buf), d) }
     else do {
       (r, buf, d) \<leftarrow> i2cMasterTransmitTimeout e d (bmp_addr dev) [addr] buf (TIME_MS2I 800);
       if r = MSG_OK then do { d \<leftarrow> i2cReleaseBus d; Some ((True, buf), d) }
       else do { d \<leftarrow> i2cReleaseBus d; Some ((False, buf), d) } } }"

text \<open>The check of the bus is commented out in the source; \<open>True\<close> reports a failure.\<close>

definition BMP280_write_register8 ::
    "'w i2c_env \<Rightarrow> 'w I2CDriver \<Rightarrow> BMP280_HandleTypedef \<Rightarrow> u8 \<Rightarrow> u8 \<Rightarrow> (bool \<times> 'w I2CDriver) option" where
  "BMP280_write_register8 e d dev addr val = do {
     d \<leftarrow> i2cAcquireBus e d;
     (r, _, d) \<leftarrow> i2cMasterTransmitTimeout e d (bmp_addr dev) [addr, val] [] (TIME_MS2I 800);
     if r = MSG_OK then do { d \<leftarrow> i2cReleaseBus d; Some (False, d) }
     else do { d \<leftarrow> i2cReleaseBus d; Some (True, d) } }"

text \<open>One conjunct of the \<^verbatim>\<open>&&\<close> chains: read a register into a field; and the chain itself.\<close>

definition read16_into ::
    "u8 \<Rightarrow> (u16 \<Rightarrow> BMP280_HandleTypedef \<Rightarrow> BMP280_HandleTypedef) \<Rightarrow> 'w i2c_env \<Rightarrow> BMP280_HandleTypedef \<Rightarrow>
     'w I2CDriver \<Rightarrow> ((bool \<times> BMP280_HandleTypedef) \<times> 'w I2CDriver) option" where
  "read16_into addr upd e dev d = do {
     ((ok, v, dev), d) \<leftarrow> BMP280_read_register16 e d dev addr;
     Some ((ok, case v of None \<Rightarrow> dev | Some v \<Rightarrow> upd v dev), d) }"

definition read8_into ::
    "u8 \<Rightarrow> (BMP280_HandleTypedef \<Rightarrow> u8) \<Rightarrow> (u8 \<Rightarrow> BMP280_HandleTypedef \<Rightarrow> BMP280_HandleTypedef) \<Rightarrow>
     'w i2c_env \<Rightarrow> BMP280_HandleTypedef \<Rightarrow>
     'w I2CDriver \<Rightarrow> ((bool \<times> BMP280_HandleTypedef) \<times> 'w I2CDriver) option" where
  "read8_into addr sel upd e dev d = do {
     ((ok, buf), d) \<leftarrow> BMP280_read_data e d dev addr [sel dev];
     Some ((ok, upd (buf ! 0) dev), d) }"

fun all_of ::
    "('w i2c_env \<Rightarrow> 's \<Rightarrow> 'w I2CDriver \<Rightarrow> ((bool \<times> 's) \<times> 'w I2CDriver) option) list \<Rightarrow>
     'w i2c_env \<Rightarrow> 's \<Rightarrow> 'w I2CDriver \<Rightarrow> ((bool \<times> 's) \<times> 'w I2CDriver) option" where
  "all_of [] e dev d = Some ((True, dev), d)"
| "all_of (f # fs) e dev d = do {
     ((ok, dev), d) \<leftarrow> f e dev d;
     if ok then all_of fs e dev d else Some ((False, dev), d) }"

definition BMP280_read_calibration_data ::
    "'w i2c_env \<Rightarrow> BMP280_HandleTypedef \<Rightarrow> 'w I2CDriver \<Rightarrow>
     ((bool \<times> BMP280_HandleTypedef) \<times> 'w I2CDriver) option" where
  "BMP280_read_calibration_data = all_of
     [read16_into 0x88 (\<lambda>v dev. dev\<lparr>dig_T1 := v\<rparr>), read16_into 0x8a (\<lambda>v dev. dev\<lparr>dig_T2 := v\<rparr>),
      read16_into 0x8c (\<lambda>v dev. dev\<lparr>dig_T3 := v\<rparr>), read16_into 0x8e (\<lambda>v dev. dev\<lparr>dig_P1 := v\<rparr>),
      read16_into 0x90 (\<lambda>v dev. dev\<lparr>dig_P2 := v\<rparr>), read16_into 0x92 (\<lambda>v dev. dev\<lparr>dig_P3 := v\<rparr>),
      read16_into 0x94 (\<lambda>v dev. dev\<lparr>dig_P4 := v\<rparr>), read16_into 0x96 (\<lambda>v dev. dev\<lparr>dig_P5 := v\<rparr>),
      read16_into 0x98 (\<lambda>v dev. dev\<lparr>dig_P6 := v\<rparr>), read16_into 0x9a (\<lambda>v dev. dev\<lparr>dig_P7 := v\<rparr>),
      read16_into 0x9c (\<lambda>v dev. dev\<lparr>dig_P8 := v\<rparr>), read16_into 0x9e (\<lambda>v dev. dev\<lparr>dig_P9 := v\<rparr>)]"

text \<open>The locals \<^verbatim>\<open>h4\<close> and \<^verbatim>\<open>h5\<close> hold the raw words until the whole chain has succeeded.\<close>

definition BMP280_read_hum_calibration_data ::
    "'w i2c_env \<Rightarrow> BMP280_HandleTypedef \<Rightarrow> 'w I2CDriver \<Rightarrow>
     ((bool \<times> BMP280_HandleTypedef) \<times> 'w I2CDriver) option" where
  "BMP280_read_hum_calibration_data e dev d = do {
     ((ok, dev), d) \<leftarrow> all_of
       [read8_into 0xa1 dig_H1 (\<lambda>v dev. dev\<lparr>dig_H1 := v\<rparr>), read16_into 0xe1 (\<lambda>v dev. dev\<lparr>dig_H2 := v\<rparr>),
        read8_into 0xe3 dig_H3 (\<lambda>v dev. dev\<lparr>dig_H3 := v\<rparr>)] e dev d;
     if \<not> ok then Some ((False, dev), d) else do {
     ((ok, h4, dev), d) \<leftarrow> BMP280_read_register16 e d dev 0xe4;
     if \<not> ok then Some ((False, dev), d) else do {
     ((ok, h5, dev), d) \<leftarrow> BMP280_read_register16 e d dev 0xe5;
     if \<not> ok then Some ((False, dev), d) else do {
     ((ok, dev), d) \<leftarrow> read8_into 0xe7 dig_H6 (\<lambda>v dev. dev\<lparr>dig_H6 := v\<rparr>) e dev d;
     if \<not> ok then Some ((False, dev), d) else do {
     h4 \<leftarrow> h4; h5 \<leftarrow> h5;
     Some ((True, dev\<lparr>dig_H4 := push_bit 4 (h4 AND 0x00ff) OR drop_bit 8 (h4 AND 0x0f00),
                      dig_H5 := drop_bit 4 h5\<rparr>), d) } } } } }"

text \<open>The loop after the soft reset: the state of the driver is read without the mutex.\<close>

partial_function (option) nvm_wait ::
    "'w i2c_env \<Rightarrow> BMP280_HandleTypedef \<Rightarrow> 'w I2CDriver \<Rightarrow> (bool \<times> 'w I2CDriver) option" where
  "nvm_wait e dev d =
     (if peek_state e d \<noteq> I2C_READY then Some (False, d)
      else do {
        ((ok, status), d') \<leftarrow> BMP280_read_data e d dev BMP280_REG_STATUS [0];
        if ok \<and> status ! 0 AND 1 = 0 then Some (True, d') else nvm_wait e dev d' })"

definition init_config :: "bmp280_params_t \<Rightarrow> u8" where
  "init_config p = push_bit 5 (standby p) OR push_bit 2 (filter_code p)"

definition init_ctrl :: "bmp280_params_t \<Rightarrow> u8" where
  "init_ctrl p = push_bit 5 (oversampling_temperature p) OR push_bit 2 (oversampling_pressure p)
     OR mode_code (bmp_mode p)"

definition BMP280_init ::
    "'w i2c_env \<Rightarrow> 'w I2CDriver \<Rightarrow> BMP280_HandleTypedef \<Rightarrow>
     ((bool \<times> BMP280_HandleTypedef) \<times> 'w I2CDriver) option" where
  "BMP280_init e d dev =
     (if bmp_addr dev \<noteq> BMP280_I2C_ADDRESS_0 \<and> bmp_addr dev \<noteq> BMP280_I2C_ADDRESS_1 then Some ((False, dev), d)
      else do {
      ((ok, buf), d) \<leftarrow> BMP280_read_data e d dev BMP280_REG_ID [chip_id dev];
      let dev = dev\<lparr>chip_id := buf ! 0\<rparr>;
      if \<not> ok then Some ((False, dev), d)
      else if chip_id dev \<noteq> BMP280_CHIP_ID \<and> chip_id dev \<noteq> BME280_CHIP_ID then Some ((False, dev), d)
      else do {
      (failed, d) \<leftarrow> BMP280_write_register8 e d dev BMP280_REG_RESET BMP280_RESET_VALUE;
      if failed then Some ((False, dev), d) else do {
      (ok, d) \<leftarrow> nvm_wait e dev d;
      if \<not> ok then Some ((False, dev), d) else do {
      ((ok, dev), d) \<leftarrow> BMP280_read_calibration_data e dev d;
      if \<not> ok then Some ((False, dev), d) else do {
      ((ok, dev), d) \<leftarrow> (if chip_id dev = BME280_CHIP_ID then BMP280_read_hum_calibration_data e dev d
                          else Some ((True, dev), d));
      if \<not> ok then Some ((False, dev), d) else do {
      (failed, d) \<leftarrow> BMP280_write_register8 e d dev BMP280_REG_CONFIG (init_config (params dev));
      if failed then Some ((False, dev), d) else do {
      let dev = (if bmp_mode (params dev) = BMP280_MODE_FORCED
                 then dev\<lparr>params := (params dev)\<lparr>bmp_mode := BMP280_MODE_SLEEP\<rparr>\<rparr> else dev);
      let ctrl = init_ctrl (params dev);
      (failed, d) \<leftarrow> (if chip_id dev = BME280_CHIP_ID
                      then BMP280_write_register8 e d dev BMP280_REG_CTRL_HUM (oversampling_humidity (params dev))
                      else Some (False, d));
      if failed then Some ((False, dev), d) else do {
      (failed, d) \<leftarrow> BMP280_write_register8 e d dev BMP280_REG_CTRL ctrl;
      if failed then Some ((False, dev), d) else Some ((True, dev), d) } } } } } } } })"

definition BMP280_force_measurement ::
    "'w i2c_env \<Rightarrow> 'w I2CDriver \<Rightarrow> BMP280_HandleTypedef \<Rightarrow> (bool \<times> 'w I2CDriver) option" where
  "BMP280_force_measurement e d dev = do {
     ((ok, buf), d) \<leftarrow> BMP280_read_data e d dev BMP280_REG_CTRL [0];
     if \<not> ok then Some (False, d)
     else do {
       let ctrl = buf ! 0 AND NOT 3;
       let ctrl = ctrl OR mode_code BMP280_MODE_FORCED;
       (failed, d) \<leftarrow> BMP280_write_register8 e d dev BMP280_REG_CTRL ctrl;
       Some (\<not> failed, d) } }"

definition BMP280_is_measuring ::
    "'w i2c_env \<Rightarrow> 'w I2CDriver \<Rightarrow> BMP280_HandleTypedef \<Rightarrow> (bool \<times> 'w I2CDriver) option" where
  "BMP280_is_measuring e d dev = do {
     ((ok, buf), d) \<leftarrow> BMP280_read_data e d dev BMP280_REG_STATUS [0];
     if \<not> ok then Some (False, d) else Some (buf ! 0 AND 8 \<noteq> 0, d) }"

subsection \<open>Compensation\<close>

definition i32 :: "int \<Rightarrow> int option" where
  "i32 x = (if - (2 ^ 31) \<le> x \<and> x < 2 ^ 31 then Some x else None)"

definition i64 :: "int \<Rightarrow> int option" where
  "i64 x = (if - (2 ^ 63) \<le> x \<and> x < 2 ^ 63 then Some x else None)"

text \<open>A right shift of a signed value rounds towards minus infinity.\<close>

definition BMP280_compensate_temperature :: "BMP280_HandleTypedef \<Rightarrow> int \<Rightarrow> (int \<times> int) option" where
  "BMP280_compensate_temperature dev adc_temp = do {
     let T1 = uint (dig_T1 dev); let T2 = sint (dig_T2 dev); let T3 = sint (dig_T3 dev);
     a \<leftarrow> i32 (adc_temp div 2 ^ 3 - T1 * 2);
     a \<leftarrow> i32 (a * T2);
     let var1 = a div 2 ^ 11;
     b \<leftarrow> i32 (adc_temp div 2 ^ 4 - T1);
     b \<leftarrow> i32 (b * b);
     b \<leftarrow> i32 (b div 2 ^ 12 * T3);
     let var2 = b div 2 ^ 14;
     fine_temp \<leftarrow> i32 (var1 + var2);
     t \<leftarrow> i32 (fine_temp * 5);
     t \<leftarrow> i32 (t + 128);
     Some (t div 2 ^ 8, fine_temp) }"

text \<open>Division of 64-bit integers truncates.\<close>

definition cdiv :: "int \<Rightarrow> int \<Rightarrow> int" where
  "cdiv a b = sgn a * sgn b * (\<bar>a\<bar> div \<bar>b\<bar>)"

definition BMP280_compensate_pressure :: "BMP280_HandleTypedef \<Rightarrow> int \<Rightarrow> int \<Rightarrow> u32 option" where
  "BMP280_compensate_pressure dev adc_press fine_temp = do {
     let P1 = uint (dig_P1 dev); let P2 = sint (dig_P2 dev); let P3 = sint (dig_P3 dev);
     let P4 = sint (dig_P4 dev); let P5 = sint (dig_P5 dev); let P6 = sint (dig_P6 dev);
     let P7 = sint (dig_P7 dev); let P8 = sint (dig_P8 dev); let P9 = sint (dig_P9 dev);
     var1 \<leftarrow> i64 (fine_temp - 128000);
     q \<leftarrow> i64 (var1 * var1);
     var2 \<leftarrow> i64 (q * P6);
     s \<leftarrow> i64 (var1 * P5);
     s \<leftarrow> i64 (s * 2 ^ 17);
     var2 \<leftarrow> i64 (var2 + s);
     var2 \<leftarrow> i64 (var2 + P4 * 2 ^ 35);
     u \<leftarrow> i64 (q * P3);
     v \<leftarrow> i64 (var1 * P2);
     v \<leftarrow> i64 (v * 2 ^ 12);
     var1 \<leftarrow> i64 (u div 2 ^ 8 + v);
     w \<leftarrow> i64 (2 ^ 47 + var1);
     w \<leftarrow> i64 (w * P1);
     let var1 = w div 2 ^ 33;
     if var1 = 0 then Some 0
     else do {
       p \<leftarrow> i32 (1048576 - adc_press);
       p \<leftarrow> i64 (p * 2 ^ 31);
       p \<leftarrow> i64 (p - var2);
       p \<leftarrow> i64 (p * 3125);
       let p = cdiv p var1;
       x \<leftarrow> i64 (P9 * (p div 2 ^ 13));
       x \<leftarrow> i64 (x * (p div 2 ^ 13));
       let var1 = x div 2 ^ 25;
       y \<leftarrow> i64 (P8 * p);
       let var2 = y div 2 ^ 19;
       p \<leftarrow> i64 (p + var1);
       p \<leftarrow> i64 (p + var2);
       p \<leftarrow> i64 (p div 2 ^ 8 + P7 * 2 ^ 4);
       Some (word_of_int p) } }"

definition BMP280_compensate_humidity :: "BMP280_HandleTypedef \<Rightarrow> int \<Rightarrow> int \<Rightarrow> u32 option" where
  "BMP280_compensate_humidity dev adc_hum fine_temp = do {
     let H1 = uint (dig_H1 dev); let H2 = sint (dig_H2 dev); let H3 = uint (dig_H3 dev);
     let H4 = sint (dig_H4 dev); let H5 = sint (dig_H5 dev); let H6 = sint (dig_H6 dev);
     v \<leftarrow> i32 (fine_temp - 76800);
     a \<leftarrow> i32 (adc_hum * 2 ^ 14);
     b \<leftarrow> i32 (H4 * 2 ^ 20);
     a \<leftarrow> i32 (a - b);
     b \<leftarrow> i32 (H5 * v);
     a \<leftarrow> i32 (a - b);
     a \<leftarrow> i32 (a + 16384);
     let a = a div 2 ^ 15;
     b \<leftarrow> i32 (v * H6);
     c \<leftarrow> i32 (v * H3);
     c \<leftarrow> i32 (c div 2 ^ 11 + 32768);
     b \<leftarrow> i32 (b div 2 ^ 10 * c);
     b \<leftarrow> i32 (b div 2 ^ 10 + 2097152);
     b \<leftarrow> i32 (b * H2);
     b \<leftarrow> i32 (b + 8192);
     v \<leftarrow> i32 (a * (b div 2 ^ 14));
     c \<leftarrow> i32 ((v div 2 ^ 15) * (v div 2 ^ 15));
     c \<leftarrow> i32 (c div 2 ^ 7 * H1);
     v \<leftarrow> i32 (v - c div 2 ^ 4);
     let v = (if v < 0 then 0 else v);
     let v = (if v > 419430400 then 419430400 else v);
     Some (word_of_int (v div 2 ^ 12)) }"

text \<open>The 20-bit and 16-bit readings assembled from the data registers.\<close>

definition adc20 :: "u8 \<Rightarrow> u8 \<Rightarrow> u8 \<Rightarrow> int" where
  "adc20 a b c = uint ((push_bit 12 (ucast a) OR push_bit 4 (ucast b) OR ucast (drop_bit 4 c)) :: u32)"

definition adc16 :: "u8 \<Rightarrow> u8 \<Rightarrow> int" where
  "adc16 a b = uint ((push_bit 8 (ucast a) OR ucast b) :: u32)"

text \<open>The callers pass a humidity pointer; a chip without humidity gives 0 there.\<close>

definition BMP280_read_fixed ::
    "'w i2c_env \<Rightarrow> 'w I2CDriver \<Rightarrow> BMP280_HandleTypedef \<Rightarrow>
     (((int \<times> u32 \<times> u32) option \<times> BMP280_HandleTypedef) \<times> 'w I2CDriver) option" where
  "BMP280_read_fixed e d dev = do {
     let hum = (chip_id dev = BME280_CHIP_ID);
     let n = (if hum then 8 else 6);
     ((ok, buf), d) \<leftarrow> BMP280_read_data e d dev 0xf7 (take n (data_buff dev));
     let dev = dev\<lparr>data_buff := buf @ drop n (data_buff dev)\<rparr>;
     if \<not> ok then Some ((None, dev), d)
     else do {
       let D = data_buff dev;
       let adc_pressure = adc20 (D ! 0) (D ! 1) (D ! 2);
       let adc_temp = adc20 (D ! 3) (D ! 4) (D ! 5);
       (temperature, fine_temp) \<leftarrow> BMP280_compensate_temperature dev adc_temp;
       pressure \<leftarrow> BMP280_compensate_pressure dev adc_pressure fine_temp;
       humidity \<leftarrow> (if hum then BMP280_compensate_humidity dev (adc16 (D ! 6) (D ! 7)) fine_temp else Some 0);
       Some ((Some (temperature, pressure, humidity), dev), d) } }"

text \<open>The measuring loop of \<^verbatim>\<open>BMP280_read_float\<close>: \<open>clock k\<close> is the system time at the end of
  round \<open>k\<close>.\<close>

partial_function (option) measure_wait ::
    "'w i2c_env \<Rightarrow> (nat \<Rightarrow> systime_t) \<Rightarrow> systime_t \<Rightarrow> systime_t \<Rightarrow> BMP280_HandleTypedef \<Rightarrow> nat \<Rightarrow>
     'w I2CDriver \<Rightarrow> (bool \<times> 'w I2CDriver) option" where
  "measure_wait e clock start end dev k d = do {
     (measuring, d') \<leftarrow> BMP280_is_measuring e d dev;
     if \<not> measuring then Some (True, d')
     else if chTimeIsInRangeX (clock k) start end then measure_wait e clock start end dev (Suc k) d'
     else Some (False, d') }"

text \<open>\<^verbatim>\<open>BMP280_read_float\<close> up to the conversion of the three fixed-point values to \<^verbatim>\<open>float\<close>.\<close>

definition BMP280_read_values ::
    "'w i2c_env \<Rightarrow> (nat \<Rightarrow> systime_t) \<Rightarrow> systime_t \<Rightarrow> 'w I2CDriver \<Rightarrow> BMP280_HandleTypedef \<Rightarrow>
     (((int \<times> u32 \<times> u32) option \<times> BMP280_HandleTypedef) \<times> 'w I2CDriver) option" where
  "BMP280_read_values e clock start d dev =
     (if bmp_mode (params dev) = BMP280_MODE_SLEEP then do {
        (forced, d) \<leftarrow> BMP280_force_measurement e d dev;
        if forced then do {
          end \<leftarrow> chTimeAddX start (TIME_MS2I 2000);
          (con, d) \<leftarrow> measure_wait e clock start end dev 0 d;
          if \<not> con then Some ((None, dev), d) else BMP280_read_fixed e d dev }
        else Some ((None, dev), d) }
      else BMP280_read_fixed e d dev)"

section \<open>The contract of the bus\<close>

lemma BMP280_read_register16_eq:
  "BMP280_read_register16 e d dev addr = do {
     (x, d) \<leftarrow> guarded_transmit e d (bmp_addr dev) [addr] (rx_buff dev) (TIME_MS2I 800);
     Some (case x of None \<Rightarrow> ((False, None, dev), d)
       | Some (r, rx) \<Rightarrow> ((r = MSG_OK,
            if r = MSG_OK then Some (push_bit 8 (ucast (rx ! 1)) OR ucast (rx ! 0)) else None,
            dev\<lparr>rx_buff := rx\<rparr>), d)) }"
  by (auto simp: BMP280_read_register16_def guarded_transmit_def Let_def split: bind_splits)

lemma BMP280_read_data_eq:
  "BMP280_read_data e d dev addr buf = do {
     (x, d) \<leftarrow> guarded_transmit e d (bmp_addr dev) [addr] buf (TIME_MS2I 800);
     Some (case x of None \<Rightarrow> ((False, buf), d) | Some (r, rx) \<Rightarrow> ((r = MSG_OK, rx), d)) }"
  by (auto simp: BMP280_read_data_def guarded_transmit_def Let_def split: bind_splits)

lemma read_register16_serves [bus_keeps]: "others_ok e \<Longrightarrow> serves (\<lambda>d. BMP280_read_register16 e d dev addr)"
  using serves_guarded [of e "[addr]" "TIME_MS2I 800" "bmp_addr dev" "rx_buff dev"]
  by (fastforce simp: BMP280_read_register16_eq serves_def split: option.split)

lemma read_data_serves [bus_keeps]: "others_ok e \<Longrightarrow> serves (\<lambda>d. BMP280_read_data e d dev addr buf)"
  using serves_guarded [of e "[addr]" "TIME_MS2I 800" "bmp_addr dev" buf]
  by (fastforce simp: BMP280_read_data_eq serves_def split: option.split)

lemma is_measuring_serves [bus_keeps]: "others_ok e \<Longrightarrow> serves (\<lambda>d. BMP280_is_measuring e d dev)"
  unfolding BMP280_is_measuring_def by (intro bus_keeps)

lemma all_of_serves:
  "(\<And>f dev. f \<in> set fs \<Longrightarrow> serves (f e dev)) \<Longrightarrow> serves (all_of fs e dev)"
proof (induction fs arbitrary: dev)
  case Nil
  then show ?case by (simp add: bus_keeps)
next
  case (Cons f fs)
  have "serves (f e dev)" "serves (all_of fs e dev)" for dev
    using Cons by simp_all
  then have "serves (\<lambda>d. all_of (f # fs) e dev d)"
    unfolding all_of.simps by (intro bus_keeps)
  then show ?case .
qed

lemma read16_into_serves [bus_keeps]: "others_ok e \<Longrightarrow> serves (read16_into addr upd e dev)"
  unfolding read16_into_def by (intro bus_keeps)

lemma read8_into_serves [bus_keeps]: "others_ok e \<Longrightarrow> serves (read8_into addr sel upd e dev)"
  unfolding read8_into_def by (intro bus_keeps)

lemma read_calibration_serves [bus_keeps]: "others_ok e \<Longrightarrow> serves (BMP280_read_calibration_data e dev)"
  unfolding BMP280_read_calibration_data_def by (rule all_of_serves) (auto intro: bus_keeps)

interpretation bmp_read16: bus_client "\<lambda>e d. BMP280_read_register16 e d dev addr" for dev addr
  by unfold_locales (rule read_register16_serves)

interpretation bmp_read: bus_client "\<lambda>e d. BMP280_read_data e d dev addr buf" for dev addr buf
  by unfold_locales (rule read_data_serves)

interpretation bmp_calib: bus_client "\<lambda>e d. BMP280_read_calibration_data e dev d" for dev
  by unfold_locales (rule read_calibration_serves)

section \<open>The unguarded write\<close>

lemma write_register8_halts:
  assumes "i2c_state (others e d) = I2C_LOCKED"
  shows "BMP280_write_register8 e d dev addr val = None"
  using assms by (auto simp: BMP280_write_register8_def i2cAcquireBus_def i2cMasterTransmitTimeout_def Let_def)

text \<open>
  C20.  Because the check of the bus is commented out in \<^verbatim>\<open>BMP280_write_register8\<close>, a
  measurement can stop the whole system: if another thread's transfer times out between the
  read of the control register and its write back, the write finds the driver locked and fails
  the assertion of the HAL.  The other drivers restart the bus at this point.
\<close>

theorem BMP280_force_measurement_halts:
  assumes "others_ok e" and "bus_inv d"
    and "\<And>d. i2c_state (others e d) = I2C_LOCKED" and "\<And>w a tx rx t. fst (lld_transmit e w a tx rx t) = MSG_OK"
  shows "BMP280_force_measurement e d dev = None"
proof -
  obtain r rx' d' w where g: "guarded_transmit e d (bmp_addr dev) [BMP280_REG_CTRL] [0] (TIME_MS2I 800)
      = Some (Some (r, rx'), d')"
      "(r, rx', world d') = lld_transmit e w (bmp_addr dev) [BMP280_REG_CTRL] [0] (TIME_MS2I 800)"
    using guarded_transmit_ok [OF assms(1,2), of "[BMP280_REG_CTRL]" "TIME_MS2I 800" "bmp_addr dev" "[0]"]
      timeouts_wait(3) by (metis list.distinct(1))
  then have "r = MSG_OK" using assms(4) by (metis fst_conv)
  with g(1) have "BMP280_read_data e d dev BMP280_REG_CTRL [0] = Some ((True, rx'), d')"
    by (simp add: BMP280_read_data_eq)
  then show ?thesis
    using write_register8_halts [OF assms(3)] by (simp add: BMP280_force_measurement_def)
qed

theorem BMP280_force_measurement_halts_witness:
  "\<forall>dev. BMP280_force_measurement
     \<lparr>lld_transmit = \<lambda>w _ _ rx _. (MSG_OK, rx, w), lld_receive = \<lambda>w _ rx _. (MSG_OK, rx, w),
      lld_start = id, lld_stop = id, others = \<lambda>d. d\<lparr>i2c_state := I2C_LOCKED, i2c_mutex := False\<rparr>, peek_state = i2c_state\<rparr>
     \<lparr>i2c_state = I2C_READY, i2c_config = Some 1, i2c_errors = 0, i2c_mutex = False, world = ()\<rparr> dev = None"
  by (intro allI BMP280_force_measurement_halts) (simp_all add: others_ok_def bus_inv_def bus_usable_def)

section \<open>The calibration data\<close>

text \<open>A chip with the register file \<open>chip\<close>: a read starts at the transmitted register number.\<close>

definition answers :: "'w i2c_env \<Rightarrow> (u8 \<Rightarrow> u8) \<Rightarrow> bool" where
  "answers e chip \<longleftrightarrow> (\<forall>w a reg rx t. \<exists>w'. lld_transmit e w a [reg] rx t =
     (MSG_OK, map (\<lambda>i. chip (reg + word_of_nat i)) [0..<length rx], w'))"

lemma read_register16_chip:
  assumes "others_ok e" "answers e chip" "bus_inv d" "length (rx_buff dev) = 2"
  obtains d' rx where "BMP280_read_register16 e d dev addr =
      Some ((True, Some (word16_of (chip (addr + 1)) (chip addr)), dev\<lparr>rx_buff := rx\<rparr>), d')"
    and "bus_inv d'" and "length rx = 2"
proof -
  obtain r rx d' w where g: "guarded_transmit e d (bmp_addr dev) [addr] (rx_buff dev) (TIME_MS2I 800)
      = Some (Some (r, rx), d')" "bus_inv d'"
      "(r, rx, world d') = lld_transmit e w (bmp_addr dev) [addr] (rx_buff dev) (TIME_MS2I 800)"
    using guarded_transmit_ok [OF assms(1,3), of "[addr]" "TIME_MS2I 800" "bmp_addr dev" "rx_buff dev"]
      timeouts_wait(3) by (metis list.distinct(1))
  moreover obtain w' where "lld_transmit e w (bmp_addr dev) [addr] (rx_buff dev) (TIME_MS2I 800) =
      (MSG_OK, map (\<lambda>i. chip (addr + word_of_nat i)) [0..<length (rx_buff dev)], w')"
    using assms(2) unfolding answers_def by blast
  ultimately have "r = MSG_OK" "rx = [chip addr, chip (addr + 1)]"
    using assms(4) by (simp_all add: upt_rec numeral_2_eq_2)
  with g(1,2) show ?thesis
    by (intro that [of rx d']) (simp_all add: BMP280_read_register16_eq word16_of_def)
qed

lemma read16_into_chip:
  assumes "others_ok e" "answers e chip" "bus_inv d" "length (rx_buff dev) = 2"
  obtains d' rx where "read16_into addr upd e dev d =
      Some ((True, upd (word16_of (chip (addr + 1)) (chip addr)) (dev\<lparr>rx_buff := rx\<rparr>)), d')"
    and "bus_inv d'" and "length rx = 2"
proof -
  obtain d' rx where "BMP280_read_register16 e d dev addr =
      Some ((True, Some (word16_of (chip (addr + 1)) (chip addr)), dev\<lparr>rx_buff := rx\<rparr>), d')"
      "bus_inv d'" "length rx = 2"
    using read_register16_chip [OF assms] by metis
  then show ?thesis by (intro that [of rx d']) (simp_all add: read16_into_def)
qed

text \<open>A chain of reads, each into a field of its own.\<close>

type_synonym reg_map = "(u8 \<times> (u16 \<Rightarrow> BMP280_HandleTypedef \<Rightarrow> BMP280_HandleTypedef)) list"

definition load_regs :: "(u8 \<Rightarrow> u8) \<Rightarrow> reg_map \<Rightarrow> BMP280_HandleTypedef \<Rightarrow> BMP280_HandleTypedef" where
  "load_regs chip regs dev = fold (\<lambda>(addr, upd). upd (word16_of (chip (addr + 1)) (chip addr))) regs dev"

definition own_fields :: "reg_map \<Rightarrow> bool" where
  "own_fields regs \<longleftrightarrow> (\<forall>(addr, upd) \<in> set regs. \<forall>v rx dev. upd v (dev\<lparr>rx_buff := rx\<rparr>) = (upd v dev)\<lparr>rx_buff := rx\<rparr>)"

lemma load_regs_rx: "own_fields regs \<Longrightarrow> load_regs chip regs (dev\<lparr>rx_buff := rx\<rparr>) = (load_regs chip regs dev)\<lparr>rx_buff := rx\<rparr>"
proof (induction regs arbitrary: dev)
  case Nil
  then show ?case by (simp add: load_regs_def)
next
  case (Cons r regs)
  then show ?case by (cases r) (auto simp: load_regs_def own_fields_def)
qed

lemma all_of_chip:
  assumes "others_ok e" "answers e chip" "own_fields regs"
  shows "bus_inv d \<Longrightarrow> length (rx_buff dev) = 2 \<Longrightarrow>
    \<exists>d' rx. all_of (map (\<lambda>(addr, upd). read16_into addr upd) regs) e dev d =
        Some ((True, (load_regs chip regs dev)\<lparr>rx_buff := rx\<rparr>), d') \<and> bus_inv d'"
  using assms(3)
proof (induction regs arbitrary: dev d)
  case Nil
  then show ?case by (auto simp: load_regs_def intro!: exI [of _ "rx_buff dev"])
next
  case (Cons r regs)
  obtain addr upd where r: "r = (addr, upd)" by (cases r)
  let ?v = "word16_of (chip (addr + 1)) (chip addr)"
  obtain d1 rx where step: "read16_into addr upd e dev d = Some ((True, upd ?v (dev\<lparr>rx_buff := rx\<rparr>)), d1)"
      "bus_inv d1" "length rx = 2"
    using read16_into_chip [OF assms(1,2) Cons.prems(1,2)] by metis
  have own: "own_fields regs" and upd: "upd ?v (dev\<lparr>rx_buff := rx\<rparr>) = (upd ?v dev)\<lparr>rx_buff := rx\<rparr>"
    using Cons.prems(3) by (auto simp: own_fields_def r)
  from Cons.IH [OF step(2) _ own, of "(upd ?v dev)\<lparr>rx_buff := rx\<rparr>"] step(3)
  obtain d' rx' where "all_of (map (\<lambda>(addr, upd). read16_into addr upd) regs) e ((upd ?v dev)\<lparr>rx_buff := rx\<rparr>) d1 =
      Some ((True, (load_regs chip regs (upd ?v dev))\<lparr>rx_buff := rx'\<rparr>), d')" "bus_inv d'"
    by (auto simp: load_regs_rx [OF own])
  with step upd show ?case by (auto simp: r load_regs_def)
qed

definition calib_regs :: reg_map where
  "calib_regs =
     [(0x88, \<lambda>v dev. dev\<lparr>dig_T1 := v\<rparr>), (0x8a, \<lambda>v dev. dev\<lparr>dig_T2 := v\<rparr>), (0x8c, \<lambda>v dev. dev\<lparr>dig_T3 := v\<rparr>),
      (0x8e, \<lambda>v dev. dev\<lparr>dig_P1 := v\<rparr>), (0x90, \<lambda>v dev. dev\<lparr>dig_P2 := v\<rparr>), (0x92, \<lambda>v dev. dev\<lparr>dig_P3 := v\<rparr>),
      (0x94, \<lambda>v dev. dev\<lparr>dig_P4 := v\<rparr>), (0x96, \<lambda>v dev. dev\<lparr>dig_P5 := v\<rparr>), (0x98, \<lambda>v dev. dev\<lparr>dig_P6 := v\<rparr>),
      (0x9a, \<lambda>v dev. dev\<lparr>dig_P7 := v\<rparr>), (0x9c, \<lambda>v dev. dev\<lparr>dig_P8 := v\<rparr>), (0x9e, \<lambda>v dev. dev\<lparr>dig_P9 := v\<rparr>)]"

lemma calib_chain: "BMP280_read_calibration_data = all_of (map (\<lambda>(addr, upd). read16_into addr upd) calib_regs)"
  by (simp add: BMP280_read_calibration_data_def calib_regs_def)

lemma calib_own: "own_fields calib_regs"
  by (simp add: own_fields_def calib_regs_def)

text \<open>
  C17.  Reading the calibration data of a chip that answers gives every coefficient the two
  bytes the chip stores for it, low byte first: the twelve words from register 0x88 to 0x9F end
  up in \<^verbatim>\<open>dig_T1\<close> to \<^verbatim>\<open>dig_P9\<close> in order, and the bus is free afterwards.
\<close>

theorem calibration_matches_chip:
  assumes "others_ok e" and "answers e chip" and "bus_inv d" and "length (rx_buff dev) = 2"
  shows "\<exists>dev' d'. BMP280_read_calibration_data e dev d = Some ((True, dev'), d') \<and> bus_inv d' \<and>
    [dig_T1 dev', dig_T2 dev', dig_T3 dev', dig_P1 dev', dig_P2 dev', dig_P3 dev', dig_P4 dev', dig_P5 dev',
     dig_P6 dev', dig_P7 dev', dig_P8 dev', dig_P9 dev'] =
    map (\<lambda>i. word16_of (chip (0x89 + word_of_nat (2 * i))) (chip (0x88 + word_of_nat (2 * i)))) [0..<12]"
proof -
  obtain d' rx where r: "BMP280_read_calibration_data e dev d =
      Some ((True, (load_regs chip calib_regs dev)\<lparr>rx_buff := rx\<rparr>), d')" "bus_inv d'"
    using all_of_chip [OF assms(1,2) calib_own assms(3,4)] unfolding calib_chain by blast
  have "[0..<12] = [0, 1, 2, 3, 4, 5, 6, 7, 8, 9, 10, 11 :: nat]" by (simp add: upt_conv_Cons)
  then show ?thesis
    unfolding r(1) using r(2) by (simp add: load_regs_def calib_regs_def)
qed

theorem calibration_matches_chip_witness:
  "let chip = (\<lambda>r :: u8. r + 1);
       e = \<lparr>lld_transmit = \<lambda>w _ tx rx _. (MSG_OK, map (\<lambda>i. chip (hd tx + word_of_nat i)) [0..<length rx], w),
            lld_receive = \<lambda>w _ rx _. (MSG_OK, rx, w), lld_start = id, lld_stop = id, others = id, peek_state = i2c_state\<rparr>;
       d = \<lparr>i2c_state = I2C_LOCKED, i2c_config = Some 1, i2c_errors = 0, i2c_mutex = False, world = ()\<rparr>
   in \<forall>dev. \<exists>dev' d'. BMP280_read_calibration_data e (dev\<lparr>rx_buff := [0, 0]\<rparr>) d = Some ((True, dev'), d') \<and>
        dig_T1 dev' = 0x8a89 \<and> dig_P9 dev' = 0xa09f"
proof -
  define chip :: "u8 \<Rightarrow> u8" where "chip = (\<lambda>r. r + 1)"
  define e where "e = \<lparr>lld_transmit = \<lambda>w _ tx rx _. (MSG_OK, map (\<lambda>i. chip (hd tx + word_of_nat i)) [0..<length rx], w),
    lld_receive = \<lambda>w _ rx _. (MSG_OK, rx, w), lld_start = id, lld_stop = id, others = id :: unit I2CDriver \<Rightarrow> _, peek_state = i2c_state\<rparr>"
  define d where "d = \<lparr>i2c_state = I2C_LOCKED, i2c_config = Some 1, i2c_errors = 0, i2c_mutex = False, world = ()\<rparr>"
  have pre: "others_ok e" "answers e chip" "bus_inv d"
    by (simp_all add: others_ok_def answers_def e_def d_def bus_inv_def bus_usable_def)
  have "\<exists>dev' d'. BMP280_read_calibration_data e (dev\<lparr>rx_buff := [0, 0]\<rparr>) d = Some ((True, dev'), d') \<and>
      dig_T1 dev' = 0x8a89 \<and> dig_P9 dev' = 0xa09f" for dev
    using calibration_matches_chip [OF pre, of "dev\<lparr>rx_buff := [0, 0]\<rparr>"]
    by (auto simp: upt_conv_Cons chip_def word16_of_def)
  then show ?thesis
    unfolding Let_def e_def d_def chip_def by blast
qed

section \<open>Temperature compensation\<close>

lemma i32_in: "- 2147483648 \<le> x \<Longrightarrow> x < 2147483648 \<Longrightarrow> i32 x = Some x"
  by (simp add: i32_def)

lemma abs_mult_bound:
  fixes x y a b :: int
  assumes "\<bar>x\<bar> \<le> a" "\<bar>y\<bar> \<le> b" "a * b < 2147483648"
  shows "i32 (x * y) = Some (x * y)"
proof -
  have "\<bar>x * y\<bar> \<le> a * b"
    using mult_mono [OF assms(1,2)] assms(1,2) by (simp add: abs_mult)
  then show ?thesis using assms(3) by (intro i32_in) linarith+
qed

text \<open>The calibration box: the coefficients of produced chips lie well inside of it.\<close>

definition temp_calib_ok :: "BMP280_HandleTypedef \<Rightarrow> bool" where
  "temp_calib_ok dev \<longleftrightarrow> 26000 \<le> uint (dig_T1 dev) \<and> uint (dig_T1 dev) \<le> 29000 \<and>
     \<bar>sint (dig_T2 dev)\<bar> \<le> 27000 \<and> \<bar>sint (dig_T3 dev)\<bar> \<le> 5000"

lemma temperature_exact:
  fixes adc :: int
  assumes "temp_calib_ok dev" "0 \<le> adc" "adc < 2 ^ 20"
  defines "a \<equiv> adc div 8 - uint (dig_T1 dev) * 2" and "b \<equiv> adc div 16 - uint (dig_T1 dev)"
  defines "fine \<equiv> a * sint (dig_T2 dev) div 2 ^ 11 + (b * b div 2 ^ 12 * sint (dig_T3 dev)) div 2 ^ 14"
  shows "BMP280_compensate_temperature dev adc = Some ((fine * 5 + 128) div 2 ^ 8, fine)"
    and "\<bar>a\<bar> \<le> 79100" and "\<bar>b\<bar> \<le> 39540"
proof -
  have "adc < 1048576" using assms(3) by simp
  then have "adc div 8 \<le> 131071" "adc div 16 \<le> 65535" by linarith+
  moreover have "0 \<le> adc div 8" "0 \<le> adc div 16" using assms(2) by simp_all
  ultimately show A: "\<bar>a\<bar> \<le> 79100" and B: "\<bar>b\<bar> \<le> 39540"
    using assms(1) by (auto simp: a_def b_def temp_calib_ok_def)
  have T: "\<bar>sint (dig_T2 dev)\<bar> \<le> 27000" "\<bar>sint (dig_T3 dev)\<bar> \<le> 5000"
    using assms(1) by (auto simp: temp_calib_ok_def)
  have aT: "i32 (a * sint (dig_T2 dev)) = Some (a * sint (dig_T2 dev))"
    using A T(1) by (rule abs_mult_bound) simp
  have bb: "i32 (b * b) = Some (b * b)" using B B by (rule abs_mult_bound) simp
  have "\<bar>b * b\<bar> \<le> 39540 * 39540" using mult_mono [OF B B] by (simp add: abs_mult)
  then have "b * b \<le> 1563411600" "0 \<le> b * b" by (simp_all add: abs_mult)
  moreover have "\<bar>x div 2 ^ 12\<bar> \<le> 381692" if "x \<le> 1563411600" "0 \<le> x" for x :: int
    using that by (simp add: abs_if) linarith
  ultimately have c: "\<bar>b * b div 2 ^ 12\<bar> \<le> 381692" by blast
  have cT: "i32 (b * b div 2 ^ 12 * sint (dig_T3 dev)) = Some (b * b div 2 ^ 12 * sint (dig_T3 dev))"
    using c T(2) by (rule abs_mult_bound) simp
  have "\<bar>a * sint (dig_T2 dev)\<bar> \<le> 79100 * 27000"
    using mult_mono [OF A T(1)] by (simp add: abs_mult)
  moreover have "\<bar>b * b div 2 ^ 12 * sint (dig_T3 dev)\<bar> \<le> 381692 * 5000"
    using mult_mono [OF c T(2)] by (simp add: abs_mult)
  ultimately have f: "- 1200000 \<le> fine" "fine \<le> 1200000"
    unfolding fine_def by simp_all
  have "i32 a = Some a" "i32 b = Some b" "i32 fine = Some fine" "i32 (fine * 5) = Some (fine * 5)"
    "i32 (fine * 5 + 128) = Some (fine * 5 + 128)"
    using A B f by (auto intro!: i32_in)
  with aT bb cT show "BMP280_compensate_temperature dev adc = Some ((fine * 5 + 128) div 2 ^ 8, fine)"
    by (simp add: BMP280_compensate_temperature_def a_def b_def fine_def Let_def)
qed

text \<open>The rounding errors of the integer formula, in units of the fine temperature.\<close>

lemma floor_div_real:
  fixes x :: int
  assumes "0 < (n :: int)"
  shows "real_of_int (x div n) \<le> x / n" "x / n - 1 < real_of_int (x div n)"
proof -
  have "real_of_int (x div n) = of_int \<lfloor>x / n\<rfloor>" by (simp add: floor_divide_of_int_eq)
  then show "real_of_int (x div n) \<le> x / n" "x / n - 1 < real_of_int (x div n)"
    by linarith+
qed

lemma fine_temp_error:
  fixes a b T2 T3 :: int and A B :: real
  assumes A: "a \<le> A" "A \<le> a + 7 / 8" and B: "b \<le> B" "B \<le> b + 15 / 16"
    and b: "\<bar>b\<bar> \<le> 39540" and T: "\<bar>T2\<bar> \<le> 27000" "\<bar>T3\<bar> \<le> 5000"
  shows "\<bar>real_of_int (a * T2 div 2 ^ 11 + (b * b div 2 ^ 12 * T3) div 2 ^ 14) - (A * T2 / 2 ^ 11 + B * B * T3 / 2 ^ 26)\<bar> < 20"
proof -
  have t2: "\<bar>real_of_int T2\<bar> \<le> 27000" and t3: "\<bar>real_of_int T3\<bar> \<le> 5000" and bb: "\<bar>real_of_int b\<bar> \<le> 39540"
    using T b by linarith+
  have "\<bar>(A - a) * T2\<bar> \<le> 7 / 8 * 27000"
    unfolding abs_mult using A t2 by (intro mult_mono) auto
  then have e1: "\<bar>A * T2 - a * T2\<bar> \<le> 23625" by (simp add: algebra_simps)
  have "\<bar>(B - b) * (B + b)\<bar> \<le> 15 / 16 * 79081"
    unfolding abs_mult using B bb by (intro mult_mono) auto
  then have "\<bar>B * B - b * b\<bar> \<le> 74139" by (simp add: algebra_simps)
  then have "\<bar>(B * B - b * b) * T3\<bar> \<le> 74139 * 5000"
    unfolding abs_mult using t3 by (intro mult_mono) auto
  then have e2: "\<bar>B * B * T3 - b * b * T3\<bar> \<le> 370695000" by (simp add: algebra_simps)
  define q where "q = b * b div 2 ^ 12"
  have "\<bar>real_of_int q - b * b / 2 ^ 12\<bar> \<le> 1"
    using floor_div_real [of "2 ^ 12" "b * b"] by (simp add: q_def)
  then have "\<bar>(q - b * b / 2 ^ 12) * T3\<bar> \<le> 1 * 5000"
    unfolding abs_mult using t3 by (intro mult_mono) auto
  then have e3: "\<bar>q * T3 - b * b * T3 / 2 ^ 12\<bar> \<le> 5000" by (simp add: algebra_simps)
  have e4: "\<bar>real_of_int (a * T2 div 2 ^ 11) - a * T2 / 2 ^ 11\<bar> \<le> 1"
    using floor_div_real [of "2 ^ 11" "a * T2"] by simp
  have e5: "\<bar>real_of_int (q * T3 div 2 ^ 14) - q * T3 / 2 ^ 14\<bar> \<le> 1"
    using floor_div_real [of "2 ^ 14" "q * T3"] by simp
  from e1 e2 e3 e4 e5 show ?thesis
    unfolding q_def [symmetric] by (simp add: abs_le_iff abs_less_iff)
qed

text \<open>The datasheet's formula over the reals, in hundredths of a degree.\<close>

definition datasheet_temperature :: "BMP280_HandleTypedef \<Rightarrow> int \<Rightarrow> real" where
  "datasheet_temperature dev adc =
     (let T1 = real_of_int (uint (dig_T1 dev)); T2 = real_of_int (sint (dig_T2 dev));
          T3 = real_of_int (sint (dig_T3 dev));
          var1 = (adc / 16384 - T1 / 1024) * T2;
          var2 = (adc / 131072 - T1 / 8192) * (adc / 131072 - T1 / 8192) * T3
      in (var1 + var2) / 5120 * 100)"

lemma temperature_error:
  assumes "temp_calib_ok dev" and "0 \<le> adc" and "adc < 2 ^ 20"
  shows "\<exists>t fine. BMP280_compensate_temperature dev adc = Some (t, fine) \<and>
    \<bar>real_of_int t - datasheet_temperature dev adc\<bar> < 1"
proof -
  define a where "a = adc div 8 - uint (dig_T1 dev) * 2"
  define b where "b = adc div 16 - uint (dig_T1 dev)"
  define fine where "fine = a * sint (dig_T2 dev) div 2 ^ 11 + (b * b div 2 ^ 12 * sint (dig_T3 dev)) div 2 ^ 14"
  define A where "A = adc / 8 - real_of_int (uint (dig_T1 dev) * 2)"
  define B where "B = adc / 16 - real_of_int (uint (dig_T1 dev))"
  have eq: "BMP280_compensate_temperature dev adc = Some ((fine * 5 + 128) div 2 ^ 8, fine)"
    and b: "\<bar>b\<bar> \<le> 39540"
    using temperature_exact [OF assms] unfolding a_def b_def fine_def by blast+
  have "real_of_int (adc div 8) \<le> adc / 8" "adc / 8 \<le> real_of_int (adc div 8) + 7 / 8"
    "real_of_int (adc div 16) \<le> adc / 16" "adc / 16 \<le> real_of_int (adc div 16) + 15 / 16"
    by linarith+
  then have "a \<le> A" "A \<le> a + 7 / 8" "b \<le> B" "B \<le> b + 15 / 16"
    by (simp_all add: a_def b_def A_def B_def)
  moreover have "\<bar>sint (dig_T2 dev)\<bar> \<le> 27000" "\<bar>sint (dig_T3 dev)\<bar> \<le> 5000"
    using assms(1) by (auto simp: temp_calib_ok_def)
  ultimately have "\<bar>fine - (A * sint (dig_T2 dev) / 2 ^ 11 + B * B * sint (dig_T3 dev) / 2 ^ 26)\<bar> < 20"
    unfolding fine_def using b by (intro fine_temp_error)
  moreover have "datasheet_temperature dev adc =
      (A * sint (dig_T2 dev) / 2 ^ 11 + B * B * sint (dig_T3 dev) / 2 ^ 26) * 5 / 256"
    by (simp add: datasheet_temperature_def A_def B_def Let_def field_simps)
  moreover have "\<bar>real_of_int ((fine * 5 + 128) div 2 ^ 8) - fine * 5 / 256\<bar> \<le> 1 / 2"
    using floor_div_real [of "2 ^ 8" "fine * 5 + 128"] by (simp add: abs_le_iff field_simps)
  moreover have "\<bar>q - R * 5 / 256\<bar> < 1" if "\<bar>f - R\<bar> < 20" "\<bar>q - f * 5 / 256\<bar> \<le> 1 / 2" for q f R :: real
    using that by linarith
  ultimately have "\<bar>real_of_int ((fine * 5 + 128) div 2 ^ 8) - datasheet_temperature dev adc\<bar> < 1"
    by (metis of_int_mult of_int_numeral)
  with eq show ?thesis by blast
qed



section \<open>Waiting for the chip\<close>

lemma measure_wait_returns:
  assumes "others_ok e" "\<not> chTimeIsInRangeX (clock n) start end"
  shows "k \<le> n \<Longrightarrow> bus_inv d \<Longrightarrow> \<exists>r d'. measure_wait e clock start end dev k d = Some (r, d') \<and> bus_inv d'"
proof (induction "n - k" arbitrary: k d)
  case 0
  obtain m d' where "BMP280_is_measuring e d dev = Some (m, d')" "bus_inv d'"
    using servesE [OF is_measuring_serves [OF assms(1)] \<open>bus_inv d\<close>] by metis
  then show ?case
    using 0 assms(2) by (subst measure_wait.simps) auto
next
  case (Suc j)
  obtain m d' where m: "BMP280_is_measuring e d dev = Some (m, d')" "bus_inv d'"
    using servesE [OF is_measuring_serves [OF assms(1)] \<open>bus_inv d\<close>] by metis
  have "\<exists>r d''. measure_wait e clock start end dev (Suc k) d' = Some (r, d'') \<and> bus_inv d''"
    using Suc.hyps(1) [of "Suc k" d'] Suc.hyps(2) Suc.prems m(2) by simp
  then show ?case
    using m by (subst measure_wait.simps) auto
qed

text \<open>
  Waiting for a measurement always ends: as soon as one reading of the system time lies
  outside of the window from \<open>start\<close> to \<open>end\<close> the loop returns with the bus released, whatever the chip
  answers.
\<close>

theorem measure_wait_terminates:
  assumes "others_ok e" and "bus_inv d" and "\<not> chTimeIsInRangeX (clock n) start end"
  shows "\<exists>r d'. measure_wait e clock start end dev 0 d = Some (r, d') \<and> bus_inv d'"
  using assms by (intro measure_wait_returns [where clock = clock and n = n]) simp_all

theorem measure_wait_terminates_witness:
  "\<forall>dev. \<exists>r d'. measure_wait
     \<lparr>lld_transmit = \<lambda>w _ _ rx _. (MSG_OK, map (\<lambda>_. 8) rx, w), lld_receive = \<lambda>w _ rx _. (MSG_OK, rx, w),
      lld_start = id, lld_stop = id, others = id, peek_state = i2c_state\<rparr>
     (\<lambda>k. 65000 + word_of_nat (100 * k)) 65000 1464 dev 0
     \<lparr>i2c_state = I2C_READY, i2c_config = Some 1, i2c_errors = 0, i2c_mutex = False, world = ()\<rparr>
     = Some (r, d') \<and> bus_inv d'"
  by (intro allI, rule measure_wait_terminates [where n = 30])
     (simp_all add: others_ok_def bus_inv_def bus_usable_def chTimeIsInRangeX_def chTimeDiffX_def)

text \<open>
  C22.  The loop after the soft reset has no such limit: while the chip does not acknowledge
  (the transfer ends with \<^verbatim>\<open>MSG_RESET\<close>, which leaves the driver ready) \<^verbatim>\<open>BMP280_init\<close> never gets
  past it.
\<close>

theorem nvm_wait_endless:
  assumes "others_ok e" and "bus_inv d" and "\<And>d. peek_state e d = I2C_READY"
    and "\<And>w a tx rx t. fst (lld_transmit e w a tx rx t) = MSG_RESET"
  shows "nvm_wait e dev d = None"
proof (rule ccontr)
  assume "nvm_wait e dev d \<noteq> None"
  then obtain y where "nvm_wait e dev d = Some y" by auto
  then have "e = e \<longrightarrow> \<not> bus_inv d"
  proof (rule nvm_wait.raw_induct [of "\<lambda>e' dev d y. e' = e \<longrightarrow> \<not> bus_inv d", rotated])
    fix f e' dev d y
    assume IH: "\<And>e' dev d y. f e' dev d = Some y \<Longrightarrow> e' = e \<longrightarrow> \<not> bus_inv d"
      and run: "(if peek_state e' d \<noteq> I2C_READY then Some (False, d)
        else BMP280_read_data e' d dev BMP280_REG_STATUS [0] \<bind>
          (\<lambda>((ok, status), d'). if ok \<and> status ! 0 AND 1 = 0 then Some (True, d') else f e' dev d')) = Some y"
    show "e' = e \<longrightarrow> \<not> bus_inv d"
    proof (intro impI notI)
      assume e: "e' = e" and d: "bus_inv d"
      obtain r rx' d1 w where g: "guarded_transmit e d (bmp_addr dev) [BMP280_REG_STATUS] [0] (TIME_MS2I 800)
          = Some (Some (r, rx'), d1)" "bus_inv d1"
          "(r, rx', world d1) = lld_transmit e w (bmp_addr dev) [BMP280_REG_STATUS] [0] (TIME_MS2I 800)"
        using guarded_transmit_ok [OF assms(1) d, of "[BMP280_REG_STATUS]" "TIME_MS2I 800" "bmp_addr dev" "[0]"]
          timeouts_wait(3) by (metis list.distinct(1))
      then have "r = MSG_RESET" using assms(4) by (metis fst_conv)
      with g(1) have "BMP280_read_data e d dev BMP280_REG_STATUS [0] = Some ((False, rx'), d1)"
        by (simp add: BMP280_read_data_eq)
      with run e assms(3) have "f e dev d1 = Some y" by simp
      from IH [OF this] g(2) show False by simp
    qed
  qed
  with assms(2) show False by simp
qed

theorem nvm_wait_endless_witness:
  "\<forall>dev. nvm_wait
     \<lparr>lld_transmit = \<lambda>w _ _ rx _. (MSG_RESET, rx, w), lld_receive = \<lambda>w _ rx _. (MSG_RESET, rx, w),
      lld_start = id, lld_stop = id, others = id, peek_state = \<lambda>_. I2C_READY\<rparr> dev
     \<lparr>i2c_state = I2C_READY, i2c_config = Some 1, i2c_errors = 0, i2c_mutex = False, world = ()\<rparr> = None"
  by (intro allI nvm_wait_endless) (simp_all add: others_ok_def bus_inv_def bus_usable_def)

end
