(* ===== verification/Ads1x15.thy ===== *)
theory Ads1x15
  imports I2c
begin

text \<open>
  The analog-digital converter behind the power thread (\<^verbatim>\<open>drivers/ADS1X15.c\<close>).  A function
  takes the environment, the bus driver and the device structure and returns its result, the
  device and the bus; an out parameter is returned as \<open>Some v\<close> when the function wrote it and as
  \<open>None\<close> when it did not.  \<open>rx_static\<close> is the function-local static receive buffer of \<^verbatim>\<open>ADS__readRegister\<close>.
\<close>

section \<open>The code\<close>

record ADS1X15_device_t =
  ads_config :: u16
  gain :: u16
  ads_mode :: u16
  datarate :: u16
  compMode :: u8
  compPol :: u8
  compLatch :: u8
  compQueConvert :: u8
  bufferRx :: u16
  bufferTx :: "u8 list"
  i2cAddress :: u8
  rx_static :: "u8 list"

definition ADS1X15_REG_CONVERT :: u8 where "ADS1X15_REG_CONVERT = 0x00"
definition ADS1X15_REG_CONFIG :: u8 where "ADS1X15_REG_CONFIG = 0x01"
definition ADS1X15_REG_LOW_THRESHOLD :: u8 where "ADS1X15_REG_LOW_THRESHOLD = 0x02"
definition ADS1X15_REG_HIGH_THRESHOLD :: u8 where "ADS1X15_REG_HIGH_THRESHOLD = 0x03"

definition ADS1X15_OS_NOT_BUSY :: u16 where "ADS1X15_OS_NOT_BUSY = 0x8000"
definition ADS1X15_OS_START_SINGLE :: u16 where "ADS1X15_OS_START_SINGLE = 0x8000"
definition ADS1X15_MUX_DIFF_0_1 :: u16 where "ADS1X15_MUX_DIFF_0_1 = 0x0000"
definition ADS1X15_PGA_6_144V :: u16 where "ADS1X15_PGA_6_144V = 0x0000"
definition ADS1X15_PGA_4_096V :: u16 where "ADS1X15_PGA_4_096V = 0x0200"
definition ADS1X15_PGA_2_048V :: u16 where "ADS1X15_PGA_2_048V = 0x0400"
definition ADS1X15_PGA_1_024V :: u16 where "ADS1X15_PGA_1_024V = 0x0600"
definition ADS1X15_PGA_0_512V :: u16 where "ADS1X15_PGA_0_512V = 0x0800"
definition ADS1X15_PGA_0_256V :: u16 where "ADS1X15_PGA_0_256V = 0x0A00"
definition ADS1X15_MODE_CONTINUE :: u16 where "ADS1X15_MODE_CONTINUE = 0x0000"
definition ADS1X15_MODE_SINGLE :: u16 where "ADS1X15_MODE_SINGLE = 0x0100"
definition ADS1X15_COMP_MODE_TRADITIONAL :: u16 where "ADS1X15_COMP_MODE_TRADITIONAL = 0x0000"
definition ADS1X15_COMP_MODE_WINDOW :: u16 where "ADS1X15_COMP_MODE_WINDOW = 0x0010"
definition ADS1X15_COMP_POL_ACTIV_LOW :: u16 where "ADS1X15_COMP_POL_ACTIV_LOW = 0x0000"
definition ADS1X15_COMP_POL_ACTIV_HIGH :: u16 where "ADS1X15_COMP_POL_ACTIV_HIGH = 0x0008"
definition ADS1X15_COMP_NON_LATCH :: u16 where "ADS1X15_COMP_NON_LATCH = 0x0000"
definition ADS1X15_COMP_LATCH :: u16 where "ADS1X15_COMP_LATCH = 0x0004"

lemmas ads_consts = ADS1X15_REG_CONVERT_def ADS1X15_REG_CONFIG_def ADS1X15_REG_LOW_THRESHOLD_def
  ADS1X15_REG_HIGH_THRESHOLD_def ADS1X15_OS_NOT_BUSY_def ADS1X15_OS_START_SINGLE_def
  ADS1X15_MUX_DIFF_0_1_def ADS1X15_PGA_6_144V_def ADS1X15_PGA_4_096V_def ADS1X15_PGA_2_048V_def
  ADS1X15_PGA_1_024V_def ADS1X15_PGA_0_512V_def ADS1X15_PGA_0_256V_def ADS1X15_MODE_CONTINUE_def
  ADS1X15_MODE_SINGLE_def ADS1X15_COMP_MODE_TRADITIONAL_def ADS1X15_COMP_MODE_WINDOW_def
  ADS1X15_COMP_POL_ACTIV_LOW_def ADS1X15_COMP_POL_ACTIV_HIGH_def ADS1X15_COMP_NON_LATCH_def
  ADS1X15_COMP_LATCH_def

definition ADS__setGain :: "ADS1X15_device_t \<Rightarrow> u8 \<Rightarrow> ADS1X15_device_t" where
  "ADS__setGain dev g = dev\<lparr>gain :=
     (if g = 0 then ADS1X15_PGA_6_144V
      else if g = 1 then ADS1X15_PGA_4_096V
      else if g = 2 then ADS1X15_PGA_2_048V
      else if g = 4 then ADS1X15_PGA_1_024V
      else if g = 8 then ADS1X15_PGA_0_512V
      else if g = 16 then ADS1X15_PGA_0_256V
      else ADS1X15_PGA_6_144V)\<rparr>"

definition ADS__setMode :: "ADS1X15_device_t \<Rightarrow> u8 \<Rightarrow> ADS1X15_device_t" where
  "ADS__setMode dev m = dev\<lparr>ads_mode := (if m = 0 then ADS1X15_MODE_CONTINUE else ADS1X15_MODE_SINGLE)\<rparr>"

definition ADS__setDataRate :: "ADS1X15_device_t \<Rightarrow> u8 \<Rightarrow> ADS1X15_device_t" where
  "ADS__setDataRate dev r =
     (let dev = dev\<lparr>datarate := ucast r\<rparr>;
          dev = (if datarate dev > 7 then dev\<lparr>datarate := 4\<rparr> else dev)
      in dev\<lparr>datarate := push_bit 5 (datarate dev)\<rparr>)"

definition ADS__setComparatorLatch :: "ADS1X15_device_t \<Rightarrow> u8 \<Rightarrow> bool \<times> ADS1X15_device_t" where
  "ADS__setComparatorLatch dev latch = (True, dev\<lparr>compLatch := (if latch \<noteq> 0 then 0 else 1)\<rparr>)"

definition ADS__setComparatorQueConvert :: "ADS1X15_device_t \<Rightarrow> u8 \<Rightarrow> bool \<times> ADS1X15_device_t" where
  "ADS__setComparatorQueConvert dev mode = (True, dev\<lparr>compQueConvert := (if mode < 3 then mode else 3)\<rparr>)"

definition ADS__writeRegister ::
    "'w i2c_env \<Rightarrow> 'w I2CDriver \<Rightarrow> ADS1X15_device_t \<Rightarrow> u8 \<Rightarrow> u16 \<Rightarrow>
     ((bool \<times> ADS1X15_device_t) \<times> 'w I2CDriver) option" where
  "ADS__writeRegister e d dev reg val = do {
     d \<leftarrow> i2cAcquireBus e d;
     (ok, d) \<leftarrow> checkI2CCondition e d;
     if \<not> ok then do { d \<leftarrow> i2cReleaseBus d; Some ((False, dev), d) }
     else do {
       let dev = dev\<lparr>bufferTx := [reg, ucast (drop_bit 8 val), ucast (val AND 0xFF)]\<rparr>;
       (r, _, d) \<leftarrow> i2cMasterTransmitTimeout e d (ucast (i2cAddress dev)) (bufferTx dev) [] (TIME_MS2I 500);
       d \<leftarrow> i2cReleaseBus d;
       Some ((r = MSG_OK, dev), d) } }"

definition ADS__readRegister ::
    "'w i2c_env \<Rightarrow> 'w I2CDriver \<Rightarrow> ADS1X15_device_t \<Rightarrow> u8 \<Rightarrow>
     ((bool \<times> u16 option \<times> ADS1X15_device_t) \<times> 'w I2CDriver) option" where
  "ADS__readRegister e d dev reg = do {
     d \<leftarrow> i2cAcquireBus e d;
     (ok, d) \<leftarrow> checkI2CCondition e d;
     if \<not> ok then do { d \<leftarrow> i2cReleaseBus d; Some ((False, None, dev), d) }
     else do {
       let dev = dev\<lparr>bufferTx := (bufferTx dev)[0 := reg]\<rparr>;
       (r, rx, d) \<leftarrow> i2cMasterTransmitTimeout e d (ucast (i2cAddress dev)) [reg] (rx_static dev) (TIME_MS2I 200);
       let dev = dev\<lparr>rx_static := rx\<rparr>;
       d \<leftarrow> i2cReleaseBus d;
       Some ((r = MSG_OK, Some (push_bit 8 (ucast (rx_static dev ! 0)) OR ucast (rx_static dev ! 1)), dev), d) } }"

definition ADS__setComparatorThresholdLow ::
    "'w i2c_env \<Rightarrow> 'w I2CDriver \<Rightarrow> ADS1X15_device_t \<Rightarrow> u16 \<Rightarrow>
     ((bool \<times> ADS1X15_device_t) \<times> 'w I2CDriver) option" where
  "ADS__setComparatorThresholdLow e d dev lo = ADS__writeRegister e d dev ADS1X15_REG_LOW_THRESHOLD lo"

definition ADS__setComparatorThresholdHigh ::
    "'w i2c_env \<Rightarrow> 'w I2CDriver \<Rightarrow> ADS1X15_device_t \<Rightarrow> u16 \<Rightarrow>
     ((bool \<times> ADS1X15_device_t) \<times> 'w I2CDriver) option" where
  "ADS__setComparatorThresholdHigh e d dev hi = ADS__writeRegister e d dev ADS1X15_REG_HIGH_THRESHOLD hi"

text \<open>The result of the read is ignored: \<^verbatim>\<open>bufferRx\<close> keeps what the buffer held.\<close>

definition ADS__isBusy ::
    "'w i2c_env \<Rightarrow> 'w I2CDriver \<Rightarrow> ADS1X15_device_t \<Rightarrow>
     ((bool \<times> ADS1X15_device_t) \<times> 'w I2CDriver) option" where
  "ADS__isBusy e d dev = do {
     ((_, v, dev), d) \<leftarrow> ADS__readRegister e d dev ADS1X15_REG_CONFIG;
     let dev = (case v of None \<Rightarrow> dev | Some v \<Rightarrow> dev\<lparr>bufferRx := v\<rparr>);
     Some ((bufferRx dev AND ADS1X15_OS_NOT_BUSY = 0, dev), d) }"

definition ADS__getValue ::
    "'w i2c_env \<Rightarrow> 'w I2CDriver \<Rightarrow> ADS1X15_device_t \<Rightarrow>
     ((bool \<times> u16 option \<times> ADS1X15_device_t) \<times> 'w I2CDriver) option" where
  "ADS__getValue e d dev = ADS__readRegister e d dev ADS1X15_REG_CONVERT"

definition ads_config_word :: "ADS1X15_device_t \<Rightarrow> u16 \<Rightarrow> u16" where
  "ads_config_word dev readmode =
     (let c = ADS1X15_OS_START_SINGLE;
          c = c OR readmode;
          c = c OR gain dev;
          c = c OR ads_mode dev;
          c = c OR datarate dev;
          c = (if compMode dev \<noteq> 0 then c OR ADS1X15_COMP_MODE_WINDOW else c OR ADS1X15_COMP_MODE_TRADITIONAL);
          c = (if compPol dev \<noteq> 0 then c OR ADS1X15_COMP_POL_ACTIV_HIGH else c OR ADS1X15_COMP_POL_ACTIV_LOW);
          c = (if compLatch dev \<noteq> 0 then c OR ADS1X15_COMP_LATCH else c OR ADS1X15_COMP_NON_LATCH)
      in c OR ucast (compQueConvert dev))"

definition ADS__requestADCPriv ::
    "'w i2c_env \<Rightarrow> 'w I2CDriver \<Rightarrow> ADS1X15_device_t \<Rightarrow> u16 \<Rightarrow>
     ((bool \<times> ADS1X15_device_t) \<times> 'w I2CDriver) option" where
  "ADS__requestADCPriv e d dev readmode =
     (let dev = dev\<lparr>ads_config := ads_config_word dev readmode\<rparr>
      in ADS__writeRegister e d dev ADS1X15_REG_CONFIG (ads_config dev))"

text \<open>\<^verbatim>\<open>(4 + pin) << 12\<close> in \<^verbatim>\<open>int\<close>, stored in 16 bits.\<close>

definition pin_mode :: "u8 \<Rightarrow> u16" where
  "pin_mode pin = word_of_nat ((4 + unat pin) * 2 ^ 12)"

definition ADS__requestADC ::
    "'w i2c_env \<Rightarrow> 'w I2CDriver \<Rightarrow> ADS1X15_device_t \<Rightarrow> u8 \<Rightarrow>
     ((bool \<times> ADS1X15_device_t) \<times> 'w I2CDriver) option" where
  "ADS__requestADC e d dev pin = ADS__requestADCPriv e d dev (pin_mode pin)"

text \<open>\<^verbatim>\<open>while (ADS__isBusy(dev)) chThdSleepMilliseconds(10)\<close>: the loop has no bound.\<close>

partial_function (option) ads_wait ::
    "'w i2c_env \<Rightarrow> 'w I2CDriver \<Rightarrow> ADS1X15_device_t \<Rightarrow> (ADS1X15_device_t \<times> 'w I2CDriver) option" where
  "ads_wait e d dev = do {
     ((busy, dev'), d') \<leftarrow> ADS__isBusy e d dev;
     if busy then ads_wait e d' dev' else Some (dev', d') }"

text \<open>\<open>t0\<close> and \<open>t1\<close> are the two readings of the system time.\<close>

definition ADS__readADCPriv ::
    "'w i2c_env \<Rightarrow> systime_t \<Rightarrow> systime_t \<Rightarrow> 'w I2CDriver \<Rightarrow> ADS1X15_device_t \<Rightarrow> u16 \<Rightarrow>
     ((bool \<times> u16 option \<times> ADS1X15_device_t) \<times> 'w I2CDriver) option" where
  "ADS__readADCPriv e t0 t1 d dev readmode = do {
     ((ok, dev), d) \<leftarrow> ADS__requestADCPriv e d dev readmode;
     if \<not> ok then Some ((False, None, dev), d)
     else do {
       end \<leftarrow> chTimeAddX t0 (TIME_MS2I 1000);
       if ads_mode dev = ADS1X15_MODE_SINGLE \<and> compQueConvert dev = 3 then
         (if \<not> chTimeIsInRangeX t1 t0 end then Some ((False, None, dev), d)
          else do {
            (dev, d) \<leftarrow> ads_wait e d dev;
            ADS__getValue e d dev })
       else ADS__getValue e d dev } }"

definition ADS__readADC ::
    "'w i2c_env \<Rightarrow> systime_t \<Rightarrow> systime_t \<Rightarrow> 'w I2CDriver \<Rightarrow> ADS1X15_device_t \<Rightarrow> u8 \<Rightarrow>
     ((bool \<times> u16 option \<times> ADS1X15_device_t) \<times> 'w I2CDriver) option" where
  "ADS__readADC e t0 t1 d dev pin = ADS__readADCPriv e t0 t1 d dev (pin_mode pin)"

definition ADS__readADC_Differential_0_1 ::
    "'w i2c_env \<Rightarrow> systime_t \<Rightarrow> systime_t \<Rightarrow> 'w I2CDriver \<Rightarrow> ADS1X15_device_t \<Rightarrow>
     ((bool \<times> u16 option \<times> ADS1X15_device_t) \<times> 'w I2CDriver) option" where
  "ADS__readADC_Differential_0_1 e t0 t1 d dev = ADS__readADCPriv e t0 t1 d dev ADS1X15_MUX_DIFF_0_1"

text \<open>The initial reading goes to \<^verbatim>\<open>dev->bufferRx\<close>.\<close>

definition ADS__init ::
    "'w i2c_env \<Rightarrow> systime_t \<Rightarrow> systime_t \<Rightarrow> 'w I2CDriver \<Rightarrow> ADS1X15_device_t \<Rightarrow>
     ((bool \<times> ADS1X15_device_t) \<times> 'w I2CDriver) option" where
  "ADS__init e t0 t1 d dev = do {
     let dev = dev\<lparr>compQueConvert := 3, compPol := 1\<rparr>;
     let dev = ADS__setGain dev (ucast ADS1X15_PGA_6_144V);
     let dev = ADS__setMode dev 1;
     let dev = ADS__setDataRate dev 4;
     ((ok, v, dev), d) \<leftarrow> ADS__readADC e t0 t1 d dev 0;
     Some ((ok, case v of None \<Rightarrow> dev | Some v \<Rightarrow> dev\<lparr>bufferRx := v\<rparr>), d) }"

section \<open>Register access\<close>

lemma ADS__writeRegister_eq:
  "ADS__writeRegister e d dev reg val = do {
     let tx = [reg, ucast (drop_bit 8 val), ucast (val AND 0xFF)];
     (x, d) \<leftarrow> guarded_transmit e d (ucast (i2cAddress dev)) tx [] (TIME_MS2I 500);
     Some (case x of None \<Rightarrow> ((False, dev), d) | Some (r, rx) \<Rightarrow> ((r = MSG_OK, dev\<lparr>bufferTx := tx\<rparr>), d)) }"
  by (auto simp: ADS__writeRegister_def guarded_transmit_def Let_def split: bind_splits)

lemma ADS__readRegister_eq:
  "ADS__readRegister e d dev reg = do {
     (x, d) \<leftarrow> guarded_transmit e d (ucast (i2cAddress dev)) [reg] (rx_static dev) (TIME_MS2I 200);
     Some (case x of None \<Rightarrow> ((False, None, dev), d)
       | Some (r, rx) \<Rightarrow> ((r = MSG_OK, Some (push_bit 8 (ucast (rx ! 0)) OR ucast (rx ! 1)),
            dev\<lparr>bufferTx := (bufferTx dev)[0 := reg], rx_static := rx\<rparr>), d)) }"
  by (auto simp: ADS__readRegister_def guarded_transmit_def Let_def split: bind_splits)

section \<open>The contract of the bus\<close>

lemma ADS__writeRegister_serves [bus_keeps]:
  "others_ok e \<Longrightarrow> serves (\<lambda>d. ADS__writeRegister e d dev reg val)"
  using serves_guarded [of e "[reg, ucast (drop_bit 8 val), ucast (val AND 0xFF)]" "TIME_MS2I 500" "ucast (i2cAddress dev)" "[]"]
  by (fastforce simp: ADS__writeRegister_eq serves_def split: option.split)

lemma ADS__readRegister_serves [bus_keeps]:
  "others_ok e \<Longrightarrow> serves (\<lambda>d. ADS__readRegister e d dev reg)"
  using serves_guarded [of e "[reg]" "TIME_MS2I 200" "ucast (i2cAddress dev)" "rx_static dev"]
  by (fastforce simp: ADS__readRegister_eq serves_def split: option.split)

lemma ADS__isBusy_serves [bus_keeps]: "others_ok e \<Longrightarrow> serves (\<lambda>d. ADS__isBusy e d dev)"
  unfolding ADS__isBusy_def Let_def by (intro bus_keeps)

lemma ADS__requestADCPriv_serves [bus_keeps]: "others_ok e \<Longrightarrow> serves (\<lambda>d. ADS__requestADCPriv e d dev m)"
  by (simp add: ADS__requestADCPriv_def bus_keeps)

interpretation ads_write: bus_client "\<lambda>e d. ADS__writeRegister e d dev reg val" for dev reg val
  by unfold_locales (rule ADS__writeRegister_serves)

interpretation ads_read: bus_client "\<lambda>e d. ADS__readRegister e d dev reg" for dev reg
  by unfold_locales (rule ADS__readRegister_serves)

interpretation ads_busy: bus_client "\<lambda>e d. ADS__isBusy e d dev" for dev
  by unfold_locales (rule ADS__isBusy_serves)

section \<open>The configuration word\<close>

definition ads_wf :: "ADS1X15_device_t \<Rightarrow> bool" where
  "ads_wf dev \<longleftrightarrow> gain dev AND 0x0E00 = gain dev \<and> ads_mode dev AND 0x0100 = ads_mode dev \<and>
     datarate dev AND 0x00E0 = datarate dev \<and> compQueConvert dev \<le> 3"

lemma field_apart: "x AND k = x \<Longrightarrow> k AND m = 0 \<Longrightarrow> x AND m = 0" for x :: u16
  by (metis and.assoc bit.conj_zero_right)

lemma and_or_distrib: "(a OR b) AND m = (a AND m) OR (b AND m)" for a :: u16
  by (rule bit.conj_disj_distrib2)

lemma setGain_field: "gain (ADS__setGain dev g) AND 0x0E00 = gain (ADS__setGain dev g)"
  by (simp add: ADS__setGain_def ads_consts)

lemma setMode_field: "ads_mode (ADS__setMode dev m) AND 0x0100 = ads_mode (ADS__setMode dev m)"
  by (simp add: ADS__setMode_def ads_consts)

lemma datarate_small: "x \<le> 7 \<Longrightarrow> push_bit 5 x AND 0x00E0 = push_bit 5 x" for x :: u16
proof -
  assume "x \<le> 7"
  then have "unat x \<le> 7" by (simp add: word_le_nat_alt)
  then have "unat x \<in> {0, 1, 2, 3, 4, 5, 6, 7}" by auto
  then have "x \<in> {0, 1, 2, 3, 4, 5, 6, 7}"
    by (auto simp: word_unat_eq_iff)
  then show ?thesis by auto
qed

lemma setDataRate_field: "datarate (ADS__setDataRate dev r) AND 0x00E0 = datarate (ADS__setDataRate dev r)"
  using datarate_small [of "ucast r"]
  by (auto simp: ADS__setDataRate_def Let_def not_less)

lemma que_field: "q \<le> 3 \<Longrightarrow> (ucast (q :: u8) :: u16) AND 0x0003 = ucast q"
proof -
  assume "q \<le> 3"
  then have "unat q \<le> 3" by (simp add: word_le_nat_alt)
  then have "unat q \<in> {0, 1, 2, 3}" by auto
  then have "q \<in> {0, 1, 2, 3}" by (auto simp: word_unat_eq_iff)
  then show ?thesis by auto
qed

lemma ads_config_word_eq:
  assumes "f1 = (if compMode dev \<noteq> 0 then 0x10 else 0)" "f2 = (if compPol dev \<noteq> 0 then 8 else 0)"
    "f3 = (if compLatch dev \<noteq> 0 then 4 else (0 :: u16))"
  shows "ads_config_word dev m = 0x8000 OR m OR gain dev OR ads_mode dev OR datarate dev OR (f1 OR f2 OR f3)
    OR ucast (compQueConvert dev)"
  unfolding ads_config_word_def Let_def ads_consts
  by (cases "compMode dev = 0"; cases "compPol dev = 0"; cases "compLatch dev = 0")
     (simp_all only: assms or.assoc if_True if_False simp_thms or.right_neutral or.left_neutral not_False_eq_True)

lemma setters_keep:
  "gain ((ADS__setDataRate (ADS__setMode (ADS__setGain dev g) m) r)\<lparr>compQueConvert := q\<rparr>) = gain (ADS__setGain dev g)"
  "ads_mode ((ADS__setDataRate (ADS__setMode (ADS__setGain dev g) m) r)\<lparr>compQueConvert := q\<rparr>) = ads_mode (ADS__setMode dev m)"
  "datarate ((ADS__setDataRate (ADS__setMode (ADS__setGain dev g) m) r)\<lparr>compQueConvert := q\<rparr>) = datarate (ADS__setDataRate dev r)"
  by (simp_all add: ADS__setGain_def ADS__setMode_def ADS__setDataRate_def Let_def)

text \<open>
  Whatever arguments the setters got, the word the driver sends to the converter's
  configuration register carries each setting in its own field: start bit, channel, gain,
  mode, data rate and comparator queue, none of them disturbed by another.
\<close>

theorem ads_config_fields:
  fixes dev :: ADS1X15_device_t and g m r q pin :: u8
  assumes "pin < 4" and "q \<le> 3"
  defines "dev1 \<equiv> (ADS__setDataRate (ADS__setMode (ADS__setGain dev g) m) r)\<lparr>compQueConvert := q\<rparr>"
  defines "c \<equiv> ads_config_word dev1 (pin_mode pin)"
  shows "c AND 0x8000 = 0x8000 \<and> c AND 0x7000 = pin_mode pin \<and>
    c AND 0x0E00 = gain (ADS__setGain dev g) \<and> c AND 0x0100 = ads_mode (ADS__setMode dev m) \<and>
    c AND 0x00E0 = datarate (ADS__setDataRate dev r) \<and> c AND 0x0003 = ucast q"
proof -
  let ?g = "gain (ADS__setGain dev g)" and ?m = "ads_mode (ADS__setMode dev m)"
    and ?r = "datarate (ADS__setDataRate dev r)" and ?q = "ucast q :: u16"
  define p where "p = pin_mode pin"
  define f1 f2 f3 :: u16 where "f1 = (if compMode dev1 \<noteq> 0 then 0x10 else 0)"
    and "f2 = (if compPol dev1 \<noteq> 0 then 8 else 0)" and "f3 = (if compLatch dev1 \<noteq> 0 then 4 else 0)"
  define f where "f = (f1 OR f2 OR f3)"
  have "compQueConvert dev1 = q" by (simp add: dev1_def)
  then have c: "c = 0x8000 OR p OR ?g OR ?m OR ?r OR f OR ?q"
    unfolding c_def ads_config_word_eq [OF f1_def f2_def f3_def] f_def p_def
    by (simp only: dev1_def setters_keep)
  have "unat pin < 4" using assms(1) by (simp add: word_less_nat_alt)
  then have "unat pin \<in> {0, 1, 2, 3}" by auto
  then have "pin \<in> {0, 1, 2, 3}" by (auto simp: word_unat_eq_iff)
  then have p: "p AND 0x7000 = p" by (auto simp: p_def pin_mode_def)
  have f: "f AND 0x001C = f" by (simp add: f_def f1_def f2_def f3_def)
  have q: "?q AND 0x0003 = ?q" using assms(2) by (rule que_field)
  note fields = setGain_field [of dev g] setMode_field [of dev m] setDataRate_field [of dev r] p f q
  note apart = fields [THEN field_apart]
  have "c AND 0x8000 = 0x8000" unfolding c by (simp add: and_or_distrib apart)
  moreover have "c AND 0x7000 = p" unfolding c by (simp add: and_or_distrib apart p)
  moreover have "c AND 0x0E00 = ?g" unfolding c by (simp add: and_or_distrib apart fields(1))
  moreover have "c AND 0x0100 = ?m" unfolding c by (simp add: and_or_distrib apart fields(2))
  moreover have "c AND 0x00E0 = ?r" unfolding c by (simp add: and_or_distrib apart fields(3))
  moreover have "c AND 0x0003 = ?q" unfolding c by (simp add: and_or_distrib apart q)
  ultimately show ?thesis unfolding p_def by blast
qed

theorem ads_config_fields_witness:
  "let dev = \<lparr>ads_config = 0, gain = 0, ads_mode = 0, datarate = 0, compMode = 0, compPol = 1, compLatch = 0,
              compQueConvert = 3, bufferRx = 0, bufferTx = [0, 0, 0], i2cAddress = 0x48, rx_static = [0, 0]\<rparr>;
       c = ads_config_word ((ADS__setDataRate (ADS__setMode (ADS__setGain dev 2) 1) 4)\<lparr>compQueConvert := 3\<rparr>) (pin_mode 1)
   in c AND 0x7000 = 0x5000 \<and> c AND 0x0E00 = 0x0400 \<and> c AND 0x00E0 = 0x0080"
proof -
  define dev where "dev = \<lparr>ads_config = 0, gain = 0, ads_mode = 0, datarate = 0, compMode = 0, compPol = 1,
    compLatch = 0, compQueConvert = 3, bufferRx = 0, bufferTx = [0, 0, 0], i2cAddress = 0x48, rx_static = [0, 0]\<rparr>"
  have "(1 :: u8) < 4" "(3 :: u8) \<le> 3" by simp_all
  from ads_config_fields [OF this, of dev 2 1 4]
  show ?thesis
    by (simp add: dev_def [symmetric] pin_mode_def Let_def ADS__setGain_def ADS__setDataRate_def ads_consts)
qed

section \<open>Waiting for a conversion\<close>

text \<open>\<open>polls e d dev n dev' d'\<close>: the converter reports busy \<open>n\<close> times and then ready.\<close>

inductive polls :: "'w i2c_env \<Rightarrow> 'w I2CDriver \<Rightarrow> ADS1X15_device_t \<Rightarrow> nat \<Rightarrow> ADS1X15_device_t \<Rightarrow> 'w I2CDriver \<Rightarrow> bool"
  for e where
  ready: "ADS__isBusy e d dev = Some ((False, dev'), d') \<Longrightarrow> polls e d dev 0 dev' d'"
| busy: "ADS__isBusy e d dev = Some ((True, dev1), d1) \<Longrightarrow> polls e d1 dev1 n dev' d' \<Longrightarrow>
    polls e d dev (Suc n) dev' d'"

lemma ads_wait_returns: "polls e d dev n dev' d' \<Longrightarrow> ads_wait e d dev = Some (dev', d')"
proof (induction rule: polls.induct)
  case (ready d dev dev' d')
  then show ?case by (subst ads_wait.simps) simp
next
  case (busy d dev dev1 d1 n dev' d')
  then show ?case by (subst ads_wait.simps) simp
qed

text \<open>A converter that answers every read with zeros never becomes ready.\<close>

definition always_busy :: "'w i2c_env \<Rightarrow> bool" where
  "always_busy e \<longleftrightarrow> (\<forall>w addr tx rx t. \<exists>w'. lld_transmit e w addr tx rx t = (MSG_OK, map (\<lambda>_. 0) rx, w'))"

lemma readRegister_busy:
  assumes "others_ok e" "always_busy e" "bus_inv d" "length (rx_static dev) = 2"
  obtains dev' d' where "ADS__readRegister e d dev reg = Some ((True, Some 0, dev'), d')" "bus_inv d'"
    "length (rx_static dev') = 2"
proof -
  obtain r rx' d' w where g: "guarded_transmit e d (ucast (i2cAddress dev)) [reg] (rx_static dev) (TIME_MS2I 200)
      = Some (Some (r, rx'), d')" "bus_inv d'"
      "(r, rx', world d') = lld_transmit e w (ucast (i2cAddress dev)) [reg] (rx_static dev) (TIME_MS2I 200)"
    using guarded_transmit_ok [OF assms(1,3), of "[reg]" "TIME_MS2I 200" "ucast (i2cAddress dev)" "rx_static dev"]
      timeouts_wait(1) by (metis list.distinct(1))
  moreover obtain w' where "lld_transmit e w (ucast (i2cAddress dev)) [reg] (rx_static dev) (TIME_MS2I 200)
      = (MSG_OK, map (\<lambda>_. 0) (rx_static dev), w')"
    using assms(2) unfolding always_busy_def by blast
  moreover have "map (\<lambda>_. 0) (rx_static dev) = [0, 0 :: u8]"
    using assms(4) by (auto simp: numeral_2_eq_2 length_Suc_conv)
  ultimately have "r = MSG_OK" "rx' = [0, 0]" by auto
  with g show ?thesis
    by (intro that [of "dev\<lparr>bufferTx := (bufferTx dev)[0 := reg], rx_static := rx'\<rparr>" d'])
       (simp_all add: ADS__readRegister_eq)
qed

lemma isBusy_busy:
  assumes "others_ok e" "always_busy e" "bus_inv d" "length (rx_static dev) = 2"
  obtains dev' d' where "ADS__isBusy e d dev = Some ((True, dev'), d')" "bus_inv d'"
    "length (rx_static dev') = 2"
proof -
  obtain dev1 d1 where "ADS__readRegister e d dev ADS1X15_REG_CONFIG = Some ((True, Some 0, dev1), d1)"
      "bus_inv d1" "length (rx_static dev1) = 2"
    using readRegister_busy [OF assms] by metis
  then show ?thesis
    by (intro that [of "dev1\<lparr>bufferRx := 0\<rparr>" d1]) (simp_all add: ADS__isBusy_def)
qed

lemma ads_wait_endless:
  assumes "others_ok e" "always_busy e" "bus_inv d" "length (rx_static dev) = 2"
  shows "ads_wait e d dev = None"
proof (rule ccontr)
  assume "ads_wait e d dev \<noteq> None"
  then obtain y where "ads_wait e d dev = Some y" by auto
  then have "e = e \<longrightarrow> \<not> (bus_inv d \<and> length (rx_static dev) = 2)"
  proof (rule ads_wait.raw_induct [of "\<lambda>e' d dev y. e' = e \<longrightarrow> \<not> (bus_inv d \<and> length (rx_static dev) = 2)", rotated])
    fix f e' d dev y
    assume IH: "\<And>e' d dev y. f e' d dev = Some y \<Longrightarrow> e' = e \<longrightarrow> \<not> (bus_inv d \<and> length (rx_static dev) = 2)"
      and run: "ADS__isBusy e' d dev \<bind> (\<lambda>((busy, dev'), d'). if busy then f e' d' dev' else Some (dev', d')) = Some y"
    show "e' = e \<longrightarrow> \<not> (bus_inv d \<and> length (rx_static dev) = 2)"
    proof (intro impI notI)
      assume e: "e' = e" and "bus_inv d \<and> length (rx_static dev) = 2"
      then obtain dev1 d1 where b: "ADS__isBusy e d dev = Some ((True, dev1), d1)" "bus_inv d1"
          "length (rx_static dev1) = 2"
        using isBusy_busy [OF assms(1,2), of d dev] by blast
      with run e have "f e d1 dev1 = Some y" by simp
      from IH [OF this] b show False by simp
    qed
  qed
  with assms(3,4) show False by simp
qed

text \<open>
  C19.  The 1000 ms limit of a conversion is checked only once, before the polling loop: with a
  converter that keeps answering \<^verbatim>\<open>busy\<close>, \<^verbatim>\<open>ADS__readADC\<close> in single-shot mode never
  returns.
\<close>

theorem ADS__readADC_hangs:
  assumes "others_ok e" and "always_busy e" and "bus_inv d" and "length (rx_static dev) = 2"
    and "ads_mode dev = ADS1X15_MODE_SINGLE" and "compQueConvert dev = 3"
    and "chTimeIsInRangeX t1 t0 (t0 + 1000)"
  shows "ADS__readADC e t0 t1 d dev pin = None"
proof -
  let ?dev = "dev\<lparr>ads_config := ads_config_word dev (pin_mode pin)\<rparr>"
  obtain d1 dev1 where w: "ADS__requestADCPriv e d dev (pin_mode pin) = Some ((True, dev1), d1)"
      "bus_inv d1" "length (rx_static dev1) = 2" "ads_mode dev1 = ads_mode dev" "compQueConvert dev1 = 3"
  proof -
    let ?tx = "[ADS1X15_REG_CONFIG, ucast (drop_bit 8 (ads_config ?dev)), ucast (ads_config ?dev AND 0xFF)]"
    obtain r rx' d' w where "guarded_transmit e d (ucast (i2cAddress ?dev)) ?tx [] (TIME_MS2I 500)
        = Some (Some (r, rx'), d')" "bus_inv d'"
        "(r, rx', world d') = lld_transmit e w (ucast (i2cAddress ?dev)) ?tx [] (TIME_MS2I 500)"
      using guarded_transmit_ok [OF assms(1,3), of ?tx "TIME_MS2I 500" "ucast (i2cAddress ?dev)" "[]"]
        timeouts_wait(2) by (metis list.distinct(1))
    moreover obtain w' where "lld_transmit e w (ucast (i2cAddress ?dev)) ?tx [] (TIME_MS2I 500) = (MSG_OK, [], w')"
      using assms(2) unfolding always_busy_def by (metis list.map_disc_iff)
    ultimately show ?thesis
      using assms(4,6) by (intro that [of "?dev\<lparr>bufferTx := ?tx\<rparr>" d'])
        (auto simp: ADS__requestADCPriv_def ADS__writeRegister_eq Let_def)
  qed
  from add_1000 [of t0] w assms(5,7) ads_wait_endless [OF assms(1,2) w(2,3)] show ?thesis
    by (simp add: ADS__readADC_def ADS__readADCPriv_def)
qed

theorem ADS__readADC_hangs_witness:
  "ADS__readADC \<lparr>lld_transmit = \<lambda>w _ _ rx _. (MSG_OK, map (\<lambda>_. 0) rx, w), lld_receive = \<lambda>w _ rx _. (MSG_OK, rx, w),
      lld_start = id, lld_stop = id, others = id, peek_state = i2c_state\<rparr> 65000 65001
     \<lparr>i2c_state = I2C_READY, i2c_config = Some 1, i2c_errors = 0, i2c_mutex = False, world = ()\<rparr>
     \<lparr>ads_config = 0, gain = 0, ads_mode = 0x0100, datarate = 0x80, compMode = 0, compPol = 1, compLatch = 0,
       compQueConvert = 3, bufferRx = 0, bufferTx = [0, 0, 0], i2cAddress = 0x48, rx_static = [0, 0]\<rparr> 0 = None"
  by (rule ADS__readADC_hangs)
     (simp_all add: others_ok_def always_busy_def bus_inv_def bus_usable_def ads_consts chTimeIsInRangeX_def)

text \<open>
  C18.  When the converter becomes ready after any number of polls, \<^verbatim>\<open>ADS__readADC\<close> returns the
  contents of its conversion register, with the bus released.
\<close>

theorem ADS__readADC_returns:
  assumes "others_ok e" and "ADS__requestADCPriv e d dev (pin_mode pin) = Some ((True, dev1), d1)"
    and "ads_mode dev1 = ADS1X15_MODE_SINGLE" and "compQueConvert dev1 = 3"
    and "chTimeIsInRangeX t1 t0 (t0 + 1000)" and "polls e d1 dev1 n dev2 d2" and "bus_inv d2"
  shows "\<exists>r rx d3 dev3 w. ADS__readADC e t0 t1 d dev pin =
      Some ((r = MSG_OK, Some (push_bit 8 (ucast (rx ! 0)) OR ucast (rx ! 1)), dev3), d3) \<and> bus_inv d3 \<and>
      (r, rx, world d3) = lld_transmit e w (ucast (i2cAddress dev2)) [0] (rx_static dev2) 200"
proof -
  have call: "ADS__readADC e t0 t1 d dev pin = ADS__readRegister e d2 dev2 0"
    using add_1000 [of t0] assms ads_wait_returns [OF assms(6)]
    by (simp add: ADS__readADC_def ADS__readADCPriv_def ADS__getValue_def ads_consts)
  have ms: "TIME_MS2I 200 = 200" using TIME_MS2I_id [of 200] by simp
  obtain r rx d3 w where "guarded_transmit e d2 (ucast (i2cAddress dev2)) [0] (rx_static dev2) (TIME_MS2I 200)
      = Some (Some (r, rx), d3)" "bus_inv d3"
      "(r, rx, world d3) = lld_transmit e w (ucast (i2cAddress dev2)) [0] (rx_static dev2) (TIME_MS2I 200)"
    using guarded_transmit_ok [OF assms(1,7), of "[0]" "TIME_MS2I 200" "ucast (i2cAddress dev2)" "rx_static dev2"]
      timeouts_wait(1) by (metis list.distinct(1))
  then show ?thesis
    unfolding call ADS__readRegister_eq by (auto simp: ms)
qed

theorem ADS__readADC_returns_witness:
  "let e = \<lparr>lld_transmit = \<lambda>w _ _ rx _. (MSG_OK, if rx = [] then [] else [0x81, 0x23], w),
            lld_receive = \<lambda>w _ rx _. (MSG_OK, rx, w), lld_start = id, lld_stop = id, others = id, peek_state = i2c_state\<rparr>;
       d = \<lparr>i2c_state = I2C_READY, i2c_config = Some 1, i2c_errors = 0, i2c_mutex = False, world = ()\<rparr>;
       dev = \<lparr>ads_config = 0, gain = 0, ads_mode = 0x0100, datarate = 0x80, compMode = 0, compPol = 1, compLatch = 0,
         compQueConvert = 3, bufferRx = 0, bufferTx = [0, 0, 0], i2cAddress = 0x48, rx_static = [0, 0]\<rparr>
   in \<exists>dev3 d3. ADS__readADC e 0 5 d dev 1 = Some ((True, Some 0x8123, dev3), d3) \<and> bus_inv d3"
proof -
  define e where "e = \<lparr>lld_transmit = \<lambda>w _ _ rx _. (MSG_OK, if rx = [] then [] else [0x81, 0x23], w),
    lld_receive = \<lambda>w _ rx _. (MSG_OK, rx, w), lld_start = id, lld_stop = id, others = id :: unit I2CDriver \<Rightarrow> _, peek_state = i2c_state\<rparr>"
  define d where "d = \<lparr>i2c_state = I2C_READY, i2c_config = Some 1, i2c_errors = 0, i2c_mutex = False, world = ()\<rparr>"
  define dev where "dev = \<lparr>ads_config = 0, gain = 0, ads_mode = 0x0100, datarate = 0x80, compMode = 0, compPol = 1,
    compLatch = 0, compQueConvert = 3, bufferRx = 0, bufferTx = [0, 0, 0], i2cAddress = 0x48, rx_static = [0, 0]\<rparr>"
  note run = d_def dev_def e_def i2cAcquireBus_def checkI2CCondition_def i2cMasterTransmitTimeout_def
    i2cReleaseBus_def ads_consts
  define dev1 where "dev1 = dev\<lparr>ads_config := 0xD18B, bufferTx := [1, 0xD1, 0x8B]\<rparr>"
  have req: "ADS__requestADCPriv e d dev (pin_mode 1) = Some ((True, dev1), d)"
    by (simp add: ADS__requestADCPriv_def ADS__writeRegister_def ads_config_word_def pin_mode_def dev1_def run Let_def)
  obtain dev2 where "ADS__isBusy e d dev1 = Some ((False, dev2), d)"
    by (simp add: ADS__isBusy_def ADS__readRegister_def dev1_def run Let_def)
  then have p: "polls e d dev1 0 dev2 d" by (rule polls.ready)
  have "others_ok e" "bus_inv d" by (simp_all add: others_ok_def e_def d_def bus_inv_def bus_usable_def)
  moreover have "chTimeIsInRangeX 5 0 (0 + 1000)" by (simp add: chTimeIsInRangeX_def)
  moreover have "ads_mode dev1 = ADS1X15_MODE_SINGLE" "compQueConvert dev1 = 3"
    by (simp_all add: dev1_def dev_def ads_consts)
  ultimately obtain r rx d3 dev3 w where "ADS__readADC e 0 5 d dev 1 =
      Some ((r = MSG_OK, Some (push_bit 8 (ucast (rx ! 0)) OR ucast (rx ! 1)), dev3), d3)" "bus_inv d3"
      "(r, rx, world d3) = lld_transmit e w (ucast (i2cAddress dev2)) [0] (rx_static dev2) 200"
    using ADS__readADC_returns [OF _ req _ _ _ p, of 5 0] by blast
  moreover have "rx_static dev2 \<noteq> []"
    using \<open>ADS__isBusy e d dev1 = Some ((False, dev2), d)\<close>
    by (simp add: ADS__isBusy_def ADS__readRegister_def dev1_def run Let_def) auto
  ultimately have "ADS__readADC e 0 5 d dev 1 = Some ((True, Some 0x8123, dev3), d3) \<and> bus_inv d3"
    by (simp add: e_def)
  then show ?thesis
    unfolding Let_def e_def [symmetric] d_def [symmetric] dev_def [symmetric] by blast
qed

end
