(* ===== verification/Ieee754.thy ===== *)
theory Ieee754
  imports Complex_Main "HOL-Library.Log_Nat" Firmware_Prelude
begin

text \<open>
  Floating point as the C code uses it: \<^verbatim>\<open>float\<close> and \<^verbatim>\<open>double\<close> values are rational numbers, and every
  operation is the exact operation followed by rounding to the nearest representable number, ties to
  even, with gradual underflow.  Infinities and NaN are left out: every value the drivers compute
  stays far below the largest number of the format.

  The lemmas bound the error of one rounding by half a unit in the last place and show that integers that fit
  the significand are exact.
\<close>

definition ilog2 :: "rat \<Rightarrow> int" where
  "ilog2 x = (case quotient_of x of (p, q) \<Rightarrow>
     let k = int (floorlog 2 (nat p)) - int (floorlog 2 (nat q)) in if 2 powi k \<le> x then k else k - 1)"

definition round_even :: "rat \<Rightarrow> int" where
  "round_even x = (
     let f = \<lfloor>x\<rfloor>; r = x - of_int f in
     if r < 1/2 then f else if 1/2 < r then f + 1 else if even f then f else f + 1)"

text \<open>\<open>p\<close> is the number of significant bits, \<open>emin\<close> the exponent of the smallest number.\<close>

definition ulp_exp :: "int \<Rightarrow> int \<Rightarrow> rat \<Rightarrow> int" where
  "ulp_exp p emin x = max emin (ilog2 \<bar>x\<bar> - p + 1)"

definition rounded :: "int \<Rightarrow> int \<Rightarrow> rat \<Rightarrow> rat" where
  "rounded p emin x =
     (if x = 0 then 0 else of_int (round_even (x / 2 powi ulp_exp p emin x)) * 2 powi ulp_exp p emin x)"

definition flt :: "rat \<Rightarrow> rat" where "flt x = rounded 24 (- 149) x"
definition dbl :: "rat \<Rightarrow> rat" where "dbl x = rounded 53 (- 1074) x"

text \<open>The conversions to integers truncate; a value out of range is undefined behaviour.\<close>

definition to_u32 :: "rat \<Rightarrow> u32 option" where
  "to_u32 x = (if - 1 < x \<and> x < 4294967296 then Some (word_of_int (if 0 \<le> x then \<lfloor>x\<rfloor> else 0)) else None)"

definition to_long :: "rat \<Rightarrow> int option" where
  "to_long x = (let n = (if 0 \<le> x then \<lfloor>x\<rfloor> else \<lceil>x\<rceil>) in if - 2147483648 \<le> n \<and> n < 2147483648 then Some n else None)"

section \<open>Rounding\<close>

lemma rat_floorlog: "0 < n \<Longrightarrow> 2 powi (int (floorlog 2 n) - 1) \<le> (of_nat n :: rat) \<and> (of_nat n :: rat) < 2 powi int (floorlog 2 n)"
proof -
  assume n: "0 < n"
  then have "2 ^ (floorlog 2 n - 1) \<le> n" "n < 2 ^ floorlog 2 n" using floorlog_bounds [of n 2] by auto
  with n obtain k where "floorlog 2 n = Suc k" "2 ^ k \<le> n" "n < 2 ^ Suc k" by (cases "floorlog 2 n") auto
  then have "(2 :: rat) ^ k \<le> of_nat n" "(of_nat n :: rat) < 2 ^ Suc k"
    by (metis of_nat_le_iff of_nat_numeral of_nat_power, metis of_nat_less_iff of_nat_numeral of_nat_power)
  moreover have "(2 :: rat) powi (1 + int k) = 2 ^ Suc k" by (simp add: power_int_add)
  ultimately show ?thesis using \<open>floorlog 2 n = Suc k\<close> by simp
qed
lemma ilog2_bounds:
  assumes "0 < x"
  shows "2 powi ilog2 x \<le> x" "x < 2 powi (ilog2 x + 1)"
proof -
  obtain p q where pq: "quotient_of x = (p, q)" by (cases "quotient_of x")
  have q: "0 < q" "x = of_int p / of_int q" using pq quotient_of_denom_pos quotient_of_div by blast+
  then have p: "0 < p" using assms by (simp add: zero_less_divide_iff)
  define a where "a = int (floorlog 2 (nat p))"
  define b where "b = int (floorlog 2 (nat q))"
  have P: "2 powi (a - 1) \<le> (of_int p :: rat)" "(of_int p :: rat) < 2 powi a"
    using rat_floorlog [of "nat p"] p by (simp_all add: a_def)
  have Q: "2 powi (b - 1) \<le> (of_int q :: rat)" "(of_int q :: rat) < 2 powi b" "0 < (of_int q :: rat)"
    using rat_floorlog [of "nat q"] q by (simp_all add: b_def)
  have "x < 2 powi a / 2 powi (b - 1)"
    unfolding q(2) using P Q p by (intro frac_less) auto
  also have "\<dots> = 2 powi (a - b + 1)" by (simp flip: power_int_diff add: algebra_simps)
  finally have up: "x < 2 powi (a - b + 1)" .
  have "2 powi (a - 1) / 2 powi b \<le> x"
    unfolding q(2) using P Q p by (intro frac_le) auto
  then have lo: "2 powi (a - b - 1) \<le> x" by (simp flip: power_int_diff add: algebra_simps)
  have "ilog2 x = (if 2 powi (a - b) \<le> x then a - b else a - b - 1)"
    by (simp add: ilog2_def pq a_def b_def Let_def)
  then show "2 powi ilog2 x \<le> x" "x < 2 powi (ilog2 x + 1)" using up lo by auto
qed

lemma round_even_error: "\<bar>of_int (round_even x) - x\<bar> \<le> 1/2"
proof -
  have "of_int \<lfloor>x\<rfloor> \<le> x" "x < of_int \<lfloor>x\<rfloor> + 1" by linarith+
  then show ?thesis by (auto simp: round_even_def Let_def abs_le_iff)
qed

lemma round_even_int [simp]: "round_even (of_int n) = n"
  by (simp add: round_even_def)

lemma rounded_error_ulp: "\<bar>rounded p emin x - x\<bar> \<le> 2 powi ulp_exp p emin x / 2"
proof (cases "x = 0")
  case False
  let ?u = "2 powi ulp_exp p emin x :: rat"
  have "\<bar>of_int (round_even (x / ?u)) - x / ?u\<bar> * ?u \<le> 1/2 * ?u"
    by (intro mult_right_mono round_even_error) simp
  moreover have "\<bar>of_int (round_even (x / ?u)) - x / ?u\<bar> * ?u = \<bar>(of_int (round_even (x / ?u)) - x / ?u) * ?u\<bar>"
    by (simp add: abs_mult)
  moreover have "(of_int (round_even (x / ?u)) - x / ?u) * ?u = rounded p emin x - x"
    using False by (simp add: rounded_def left_diff_distrib)
  ultimately show ?thesis by simp
qed (simp add: rounded_def)

text \<open>The relative error: half a unit of the last of \<open>p\<close> bits, for numbers that are not tiny.\<close>

lemma rounded_error:
  assumes "2 powi (emin + p - 1) \<le> \<bar>x\<bar>"
  shows "\<bar>rounded p emin x - x\<bar> \<le> \<bar>x\<bar> * 2 powi (- p)"
proof -
  have "0 < \<bar>x\<bar>" using assms less_le_trans [of 0 "2 powi (emin + p - 1)" "\<bar>x\<bar>"] by simp
  note b = ilog2_bounds [OF this]
  have "emin + p - 1 < ilog2 \<bar>x\<bar> + 1"
    using order.strict_trans1 [OF assms b(2)] power_int_increasing [of "ilog2 \<bar>x\<bar> + 1" "emin + p - 1" "2 :: rat"] by linarith
  then have e: "ulp_exp p emin x = ilog2 \<bar>x\<bar> + - p + 1" by (simp add: ulp_exp_def)
  have "2 powi ulp_exp p emin x / 2 = 2 powi ilog2 \<bar>x\<bar> * (2 powi (- p) :: rat)"
    unfolding e by (subst power_int_add, simp, subst power_int_add, simp_all)
  also have "\<dots> \<le> \<bar>x\<bar> * 2 powi (- p)" using b(1) by (intro mult_right_mono) auto
  finally show ?thesis using rounded_error_ulp [of p emin x] by linarith
qed

lemma flt_error: "2 powi (- 126) \<le> \<bar>x\<bar> \<Longrightarrow> \<bar>flt x - x\<bar> \<le> \<bar>x\<bar> / 2 ^ 24"
  using rounded_error [of "- 149" 24 x] by (simp add: flt_def power_int_def field_simps)

lemma flt_0 [simp]: "flt 0 = 0" by (simp add: flt_def rounded_def)

text \<open>Integers of at most \<open>p\<close> bits are not changed.\<close>

lemma rounded_int:
  assumes "\<bar>n\<bar> < 2 ^ p" "emin \<le> 0"
  shows "rounded (int p) emin (of_int n) = of_int n"
proof (cases "n = 0")
  case False
  let ?x = "of_int n :: rat"
  have "0 < \<bar>?x\<bar>" using False by simp
  note b = ilog2_bounds [OF this]
  have "\<bar>?x\<bar> < 2 ^ p" using assms(1) by (metis of_int_abs of_int_less_iff of_int_numeral of_int_power)
  then have "2 powi ilog2 \<bar>?x\<bar> < (2 powi int p :: rat)" using b(1) by simp
  then have "ilog2 \<bar>?x\<bar> < int p" using power_int_increasing [of "int p" "ilog2 \<bar>?x\<bar>" "2 :: rat"] by linarith
  then have "ulp_exp (int p) emin ?x \<le> 0" using assms(2) by (simp add: ulp_exp_def)
  then obtain k where k: "ulp_exp (int p) emin ?x = - int k" using nonpos_int_cases by blast
  have "?x / 2 powi (- int k) = of_int (n * 2 ^ k)" by (simp add: power_int_minus divide_inverse)
  then have "round_even (?x / 2 powi (- int k)) = n * 2 ^ k" by (simp only: round_even_int)
  then show ?thesis using False by (simp add: rounded_def k power_int_minus field_simps)
qed (simp add: rounded_def)

lemma flt_int [simp]: "\<bar>n\<bar> < 2 ^ 24 \<Longrightarrow> flt (of_int n) = of_int n"
  using rounded_int [of n 24 "- 149"] by (simp add: flt_def)

text \<open>An error bound without a lower limit on the argument, for chains of operations.\<close>

lemma rounded_near:
  assumes "emin + p - 1 \<le> 0" "0 \<le> p"
  shows "\<bar>rounded p emin x - x\<bar> \<le> (\<bar>x\<bar> + 1) * 2 powi (- p)"
proof (cases "2 powi (emin + p - 1) \<le> \<bar>x\<bar>")
  case True
  have "0 \<le> (2 :: rat) powi (- p)" by simp
  moreover have "(\<bar>x\<bar> + 1) * 2 powi (- p) = \<bar>x\<bar> * 2 powi (- p) + 2 powi (- p)" by (simp add: distrib_right)
  ultimately show ?thesis using rounded_error [OF True] by linarith
next
  case False
  then have "x = 0 \<or> ulp_exp p emin x = emin"
  proof (cases "x = 0")
    case nz: False
    then have "2 powi ilog2 \<bar>x\<bar> < (2 :: rat) powi (emin + p - 1)"
      using False ilog2_bounds(1) [of "\<bar>x\<bar>"] by simp
    then have "ilog2 \<bar>x\<bar> < emin + p - 1"
      using power_int_increasing [of "emin + p - 1" "ilog2 \<bar>x\<bar>" "2 :: rat"] by linarith
    then show ?thesis by (simp add: ulp_exp_def)
  qed simp
  then show ?thesis
  proof
    assume "ulp_exp p emin x = emin"
    then have "\<bar>rounded p emin x - x\<bar> \<le> 2 powi emin / 2" using rounded_error_ulp [of p emin x] by simp
    also have "\<dots> = 2 powi (emin - 1)" by (simp add: power_int_diff)
    also have "\<dots> \<le> (2 :: rat) powi (- p)" using assms by (intro power_int_increasing) auto
    also have "\<dots> \<le> (\<bar>x\<bar> + 1) * 2 powi (- p)" by (simp add: distrib_right)
    finally show ?thesis .
  qed (simp add: rounded_def)
qed

lemma flt_near: "\<bar>flt x - x\<bar> \<le> (\<bar>x\<bar> + 1) / 2 ^ 24"
  using rounded_near [of "- 149" 24 x] by (simp add: flt_def power_int_def field_simps)

lemma dbl_near: "\<bar>dbl x - x\<bar> \<le> (\<bar>x\<bar> + 1) / 2 ^ 53"
  using rounded_near [of "- 1074" 53 x] by (simp add: dbl_def power_int_def field_simps)

lemma flt_upto:
  assumes "- B \<le> x" "x \<le> B" "B + 1 \<le> e * 16777216"
  shows "\<bar>flt x - x\<bar> \<le> e"
proof -
  have "\<bar>flt x - x\<bar> \<le> (\<bar>x\<bar> + 1) / 16777216" using flt_near [of x] by simp
  also have "\<dots> \<le> (B + 1) / 16777216" using assms by (intro divide_right_mono) auto
  also have "\<dots> \<le> e" using assms(3) by (simp add: field_simps)
  finally show ?thesis .
qed

lemma dbl_upto:
  assumes "- B \<le> x" "x \<le> B" "B + 1 \<le> e * 9007199254740992"
  shows "\<bar>dbl x - x\<bar> \<le> e"
proof -
  have "\<bar>dbl x - x\<bar> \<le> (\<bar>x\<bar> + 1) / 9007199254740992" using dbl_near [of x] by simp
  also have "\<dots> \<le> (B + 1) / 9007199254740992" using assms by (intro divide_right_mono) auto
  also have "\<dots> \<le> e" using assms(3) by (simp add: field_simps)
  finally show ?thesis .
qed

text \<open>A relative error for chains of multiplications and additions, with an allowance for the tiny numbers.\<close>

lemma flt_rel: "\<bar>flt x - x\<bar> \<le> \<bar>x\<bar> / 16777216 + 1 / 10000000000000000000000000000000000000000"
proof (cases "2 powi (- 126) \<le> \<bar>x\<bar>")
  case True
  then show ?thesis using flt_error [of x] by (simp add: add_increasing2)
next
  case False
  show ?thesis
  proof (cases "x = 0")
    case nz: False
    then have "2 powi ilog2 \<bar>x\<bar> < (2 powi (- 126) :: rat)" using ilog2_bounds(1) [of "\<bar>x\<bar>"] False by linarith
    then have "ilog2 \<bar>x\<bar> < - 126" using power_int_increasing [of "- 126" "ilog2 \<bar>x\<bar>" "2 :: rat"] by linarith
    then have "ulp_exp 24 (- 149) x = - 149" by (simp add: ulp_exp_def)
    then have "\<bar>flt x - x\<bar> \<le> 2 powi (- 149) / 2" using rounded_error_ulp [of 24 "- 149" x] by (simp add: flt_def)
    also have "\<dots> \<le> 1 / 10000000000000000000000000000000000000000" by (simp add: power_int_def power_one_over field_simps)
    also have "\<dots> \<le> \<bar>x\<bar> / 16777216 + 1 / 10000000000000000000000000000000000000000" by simp
    finally show ?thesis .
  qed simp
qed

text \<open>\<open>m\<close> bounds the magnitude of the exact value; errors are multiples of it.\<close>

lemma flt_mult_step:
  assumes "0 \<le> x" "\<bar>x' - x\<bar> \<le> a * x" "\<bar>p\<bar> \<le> m" "\<bar>p' - p\<bar> \<le> b * m" "0 \<le> a" "0 \<le> b" "a \<le> 1/100000" "b \<le> 1/100000"
    and "1 / 1000000000000000000000000000000 \<le> x * m"
  shows "\<bar>flt (x' * p') - x * p\<bar> \<le> (a + b + 3 / 16777216) * (x * m)"
proof -
  define q where "q = x * m"
  have m: "0 \<le> m" using assms(3) by linarith
  have q: "1 / 1000000000000000000000000000000 \<le> q" using assms(9) by (simp add: q_def)
  have 1: "\<bar>(x' - x) * p\<bar> \<le> a * q"
    using mult_mono [OF assms(2,3)] assms(1,5) by (simp add: abs_mult q_def ac_simps)
  have 2: "\<bar>x * (p' - p)\<bar> \<le> b * q"
    using mult_left_mono [OF assms(4,1)] assms(1) by (simp add: abs_mult q_def ac_simps)
  have "\<bar>(x' - x) * (p' - p)\<bar> \<le> (a * x) * (b * m)"
    unfolding abs_mult using assms m by (intro mult_mono) auto
  also have "\<dots> = a * b * q" by (simp add: q_def)
  also have "\<dots> \<le> 1/100000 * (1/100000) * q" using assms(5-8) q by (intro mult_mono) auto
  finally have 3: "\<bar>(x' - x) * (p' - p)\<bar> \<le> q / 10000000000" by simp
  have 4: "\<bar>x * p\<bar> \<le> q" using mult_left_mono [OF assms(3,1)] assms(1) by (simp add: abs_mult q_def)
  have d: "x' * p' - x * p = (x' - x) * p + x * (p' - p) + (x' - x) * (p' - p)" by (simp add: algebra_simps)
  have ab: "a * q \<le> q / 100000" "b * q \<le> q / 100000" using mult_right_mono [OF assms(7), of q] mult_right_mono [OF assms(8), of q] q by simp_all
  have "\<bar>x' * p' - x * p\<bar> \<le> a * q + b * q + q / 10000000000" unfolding d using 1 2 3 by linarith
  moreover from this have "\<bar>x' * p'\<bar> \<le> q + (a * q + b * q + q / 10000000000)" using 4 by linarith
  moreover note flt_rel [of "x' * p'"]
  ultimately have "\<bar>flt (x' * p') - x * p\<bar> \<le> a * q + b * q + 3 / 16777216 * q" using q ab by linarith
  then show ?thesis by (simp add: q_def algebra_simps)
qed

lemma flt_add_step:
  assumes "\<bar>s\<bar> \<le> m" "\<bar>s' - s\<bar> \<le> a * m" "0 \<le> a" "a \<le> 1/100000" "\<bar>c' - c\<bar> \<le> \<bar>c\<bar> / 16777216"
    and "1 / 1000000000000000000000000000000 \<le> \<bar>c\<bar>"
  shows "\<bar>flt (c' + s') - (c + s)\<bar> \<le> (a + 3 / 16777216) * (\<bar>c\<bar> + m)"
proof -
  define k where "k = \<bar>c\<bar>"
  define e where "e = a * m"
  have k: "\<bar>c\<bar> \<le> k" "0 \<le> a * k" "1 / 1000000000000000000000000000000 \<le> k" "\<bar>c' - c\<bar> \<le> k / 16777216"
    using assms by (simp_all add: k_def)
  have "0 \<le> m" using assms(1) by linarith
  then have e: "e \<le> m / 100000" "0 \<le> e" "\<bar>s' - s\<bar> \<le> e" using mult_right_mono [OF assms(4)] assms(2,3) by (simp_all add: e_def)
  have d: "\<bar>(c' + s') - (c + s)\<bar> \<le> k / 16777216 + e" using e k(4) by linarith
  define y where "y = \<bar>c' + s'\<bar>"
  have "y \<le> k + m + (k / 16777216 + e)" using d assms(1) k(1) unfolding y_def by linarith
  then have "\<bar>flt (c' + s') - (c' + s')\<bar> \<le> k / 8388608 + m / 8388608"
    using flt_rel [of "c' + s'"] e(1,2) k(3) \<open>0 \<le> m\<close> unfolding y_def [symmetric] by (simp add: field_simps)
  then have "\<bar>flt (c' + s') - (c + s)\<bar> \<le> e + a * k + k * 3 / 16777216 + m * 3 / 16777216" using d k(2) \<open>0 \<le> m\<close> by linarith
  then show ?thesis by (simp add: algebra_simps add_divide_distrib k_def e_def)
qed

lemma flt_const: "1 / 10^20 \<le> \<bar>c\<bar> \<Longrightarrow> \<bar>flt c - c\<bar> \<le> \<bar>c\<bar> / 16777216"
  using flt_error [of c] by (simp add: power_int_def power_one_over field_simps)

text \<open>A step of Horner's rule.\<close>

lemma flt_horner_step:
  assumes "1 \<le> x" "\<bar>x' - x\<bar> \<le> a * x" "\<bar>p\<bar> \<le> m" "\<bar>p' - p\<bar> \<le> b * m" "0 \<le> a" "0 \<le> b" "a \<le> 1/1000000" "b \<le> 2/1000000"
    and "1 / 10^20 \<le> m" "1 / 10^20 \<le> \<bar>c\<bar>"
  shows "\<bar>flt (flt c + flt (x' * p')) - (c + x * p)\<bar> \<le> (a + b + 6 / 16777216) * (\<bar>c\<bar> + x * m)"
    and "\<bar>c + x * p\<bar> \<le> \<bar>c\<bar> + x * m" and "1 / 10^20 \<le> \<bar>c\<bar> + x * m"
proof -
  have "m \<le> x * m" using assms(1,3) mult_right_mono [of 1 x m] by simp
  with assms(9) have xm: "1 / 10^20 \<le> x * m" by (rule order_trans)
  with assms(10) show "1 / 10^20 \<le> \<bar>c\<bar> + x * m" by simp
  have xp: "\<bar>x * p\<bar> \<le> x * m" using mult_left_mono [OF assms(3), of x] assms(1) by (simp add: abs_mult)
  then show "\<bar>c + x * p\<bar> \<le> \<bar>c\<bar> + x * m" by linarith
  have "\<bar>flt (x' * p') - x * p\<bar> \<le> (a + b + 3 / 16777216) * (x * m)"
    by (rule flt_mult_step) (use assms xm in auto)
  from flt_add_step [OF xp this _ _ flt_const [OF assms(10)]]
  show "\<bar>flt (flt c + flt (x' * p')) - (c + x * p)\<bar> \<le> (a + b + 6 / 16777216) * (\<bar>c\<bar> + x * m)"
    using assms(5-8,10) by (simp add: ac_simps)
qed

text \<open>Conversion of a number that is known up to an error.\<close>

lemma to_u32_near:
  assumes "\<bar>x - y\<bar> \<le> e" "e < 1" "0 \<le> y" "y < 4294967295"
  shows "\<exists>v. to_u32 x = Some v \<and> y - 1 - e < of_int (uint v) \<and> of_int (uint v) \<le> y + e"
proof -
  have x: "- 1 < x" "x < 4294967296" using assms by auto
  define n where "n = (if 0 \<le> x then \<lfloor>x\<rfloor> else 0)"
  have n: "0 \<le> n" "n < 4294967296" using x by (auto simp: n_def floor_less_iff)
  then have "uint (word_of_int n :: u32) = n" by (simp add: unsigned_of_int take_bit_eq_mod)
  moreover have "to_u32 x = Some (word_of_int n)" using x by (simp add: to_u32_def n_def)
  moreover have "y - 1 - e < of_int n" "of_int n \<le> y + e"
  proof -
    have "of_int \<lfloor>x\<rfloor> \<le> x" "x < of_int \<lfloor>x\<rfloor> + 1" "x - y \<le> e" "y - x \<le> e" using assms(1) by linarith+
    then show "y - 1 - e < of_int n" "of_int n \<le> y + e"
      using assms(2-4) unfolding n_def by (cases "0 \<le> x"; simp; linarith)+
  qed
  ultimately show ?thesis by (intro exI [of _ "word_of_int n"] conjI) (simp_all only:)
qed

lemma uint_ge_1: "x \<noteq> 0 \<Longrightarrow> 1 \<le> uint x" for x :: "'a::len word"
  using unsigned_greater_eq [of x] by (metis int_one_le_iff_zero_less order_le_less uint_0_iff)

lemma to_u32_nonneg:
  assumes "0 \<le> x" "x < 4294967296"
  shows "\<exists>v. to_u32 x = Some v \<and> x - 1 < of_int (uint v) \<and> of_int (uint v) \<le> x"
proof -
  have n: "0 \<le> \<lfloor>x\<rfloor>" "\<lfloor>x\<rfloor> < 4294967296" using assms by (auto simp: floor_less_iff)
  then have "uint (word_of_int \<lfloor>x\<rfloor> :: u32) = \<lfloor>x\<rfloor>" by (simp add: unsigned_of_int take_bit_eq_mod)
  moreover have "to_u32 x = Some (word_of_int \<lfloor>x\<rfloor>)" using assms by (simp add: to_u32_def)
  moreover have "of_int \<lfloor>x\<rfloor> \<le> x" "x - 1 < of_int \<lfloor>x\<rfloor>" by linarith+
  ultimately show ?thesis by (intro exI [of _ "word_of_int \<lfloor>x\<rfloor>"] conjI) (simp_all only:)
qed

end
