(* ===== verification/Shell.thy ===== *)
theory Shell
  imports Firmware_Prelude "HOL-Library.Sublist"
begin

text \<open>
  The command shell of \<^verbatim>\<open>src/src/shell/shell.c\<close> as it is configured: no history, no completion,
  no escape sequences and no exit command.  The line buffer is an array of characters and a
  \<^verbatim>\<open>char *\<close> into it is an index; every read or write outside of the array is \<open>None\<close>.  The serial
  channel is the list of characters still to come (its end stands for a reset of the channel)
  and the text sent back.

  The theorems relate the line editor and the in-place argument splitter to a specification on
  strings: what the terminal shows is what is stored, and what is stored is what the command
  handler receives.
\<close>

section \<open>C strings\<close>

abbreviation NUL :: char where "NUL \<equiv> CHR 0x00"

type_synonym cmem = "char list"

definition get_char :: "cmem \<Rightarrow> nat \<Rightarrow> char option" where
  "get_char m i = (if i < length m then Some (m ! i) else None)"

definition put_char :: "cmem \<Rightarrow> nat \<Rightarrow> char \<Rightarrow> cmem option" where
  "put_char m i c = (if i < length m then Some (m[i := c]) else None)"

definition cstr :: "cmem \<Rightarrow> nat \<Rightarrow> string" where
  "cstr m p = takeWhile (\<lambda>c. c \<noteq> NUL) (drop p m)"

text \<open>\<^verbatim>\<open>strspn\<close> and \<^verbatim>\<open>strpbrk\<close> of the C library; \<open>None\<close> when no terminator is found in the array.\<close>

fun span_chars :: "string \<Rightarrow> char list \<Rightarrow> nat option" where
  "span_chars acc [] = None"
| "span_chars acc (c # cs) = (if c \<noteq> NUL \<and> c \<in> set acc then map_option Suc (span_chars acc cs) else Some 0)"

definition strspn :: "cmem \<Rightarrow> nat \<Rightarrow> string \<Rightarrow> nat option" where
  "strspn m p acc = span_chars acc (drop p m)"

fun break_chars :: "string \<Rightarrow> char list \<Rightarrow> nat \<Rightarrow> nat option option" where
  "break_chars acc [] n = None"
| "break_chars acc (c # cs) n =
     (if c = NUL then Some None else if c \<in> set acc then Some (Some n) else break_chars acc cs (Suc n))"

definition strpbrk :: "cmem \<Rightarrow> nat \<Rightarrow> string \<Rightarrow> nat option option" where
  "strpbrk m p acc = break_chars acc (drop p m) p"

section \<open>Splitting the line\<close>

text \<open>The blank and the tabulator.\<close>

definition blanks :: string where
  "blanks = [CHR '' '', CHR 0x09]"

abbreviation DQUOTE :: char where "DQUOTE \<equiv> CHR 0x22"

text \<open>The result is the pointer returned, the new \<^verbatim>\<open>*saveptr\<close> and the line.\<close>

definition parse_arguments ::
    "cmem \<Rightarrow> nat option \<Rightarrow> nat option \<Rightarrow> (nat option \<times> nat option \<times> cmem) option" where
  "parse_arguments m str saveptr = (
     let saveptr = (if str \<noteq> None then str else saveptr) in
     case saveptr of
       None \<Rightarrow> Some (None, None, m)
     | Some p \<Rightarrow> do {
         n \<leftarrow> strspn m p blanks;
         let p = p + n;
         c \<leftarrow> get_char m p;
         let p = (if c = DQUOTE then p + 1 else p);
         saveptr \<leftarrow> strpbrk m p (if c = DQUOTE then [DQUOTE] else blanks);
         (saveptr, m) \<leftarrow> (case saveptr of
             None \<Rightarrow> Some (None, m)
           | Some s \<Rightarrow> do { m \<leftarrow> put_char m s NUL; Some (Some (s + 1), m) });
         c \<leftarrow> get_char m p;
         Some (if c \<noteq> NUL then Some p else None, saveptr, m) })"

section \<open>Commands\<close>

text \<open>
  What a command can change: the text written to the channel and the state \<open>app\<close> of the rest of
  the program.  A handler gets the argument strings.
\<close>

record 's shell_state =
  chan :: string
  app :: 's

type_synonym 's shellcmd_t = "string list \<Rightarrow> 's shell_state \<Rightarrow> 's shell_state option"
type_synonym 's ShellCommand = "string \<times> 's shellcmd_t"

definition SHELL_NEWLINE_STR :: string where "SHELL_NEWLINE_STR = [CHR 0x0D, CHR 0x0A]"
definition SHELL_PROMPT_STR :: string where "SHELL_PROMPT_STR = ''ch> ''"
definition SHELL_MAX_LINE_LENGTH :: nat where "SHELL_MAX_LINE_LENGTH = 64"
definition SHELL_MAX_ARGUMENTS :: nat where "SHELL_MAX_ARGUMENTS = 4"

definition chprintf :: "'s shell_state \<Rightarrow> string \<Rightarrow> 's shell_state" where
  "chprintf st t = st\<lparr>chan := chan st @ t\<rparr>"

definition shellUsage :: "'s shell_state \<Rightarrow> string \<Rightarrow> 's shell_state" where
  "shellUsage st message = chprintf st (''Usage: '' @ message @ SHELL_NEWLINE_STR)"

fun list_commands :: "'s ShellCommand list \<Rightarrow> 's shell_state \<Rightarrow> 's shell_state" where
  "list_commands [] st = st"
| "list_commands ((sc_name, _) # scp) st = list_commands scp (chprintf st (sc_name @ '' ''))"

text \<open>\<open>True\<close> when no entry has the name.\<close>

fun cmdexec :: "'s ShellCommand list \<Rightarrow> string \<Rightarrow> string list \<Rightarrow> 's shell_state \<Rightarrow> (bool \<times> 's shell_state) option" where
  "cmdexec [] name argv st = Some (True, st)"
| "cmdexec ((sc_name, sc_function) # scp) name argv st =
     (if sc_name = name then do { st \<leftarrow> sc_function argv st; Some (False, st) }
      else cmdexec scp name argv st)"

text \<open>The loop that collects the arguments; the first component says that there were not too many.\<close>

function arg_loop ::
    "cmem \<Rightarrow> nat option \<Rightarrow> nat list \<Rightarrow> 's shell_state \<Rightarrow> (bool \<times> nat list \<times> cmem \<times> 's shell_state) option" where
  "arg_loop m tokp args st =
     (case parse_arguments m None tokp of
        None \<Rightarrow> None
      | Some (lp, tokp, m) \<Rightarrow>
          (case lp of
             None \<Rightarrow> Some (True, args, m, st)
           | Some lp \<Rightarrow>
               if length args \<ge> SHELL_MAX_ARGUMENTS
               then Some (False, args, m, chprintf st (''too many arguments'' @ SHELL_NEWLINE_STR))
               else arg_loop m tokp (args @ [lp]) st))"
  by pat_completeness auto
termination
  by (relation "measure (\<lambda>(m, tokp, args, st). SHELL_MAX_ARGUMENTS - length args)") auto

declare arg_loop.simps [simp del]

text \<open>The part of the loop of \<^verbatim>\<open>shellThread\<close> behind \<^verbatim>\<open>shellGetLine\<close>: the choice of the command,
  and the splitting of the line before it.\<close>

definition shell_exec ::
    "'s ShellCommand list \<Rightarrow> 's ShellCommand list option \<Rightarrow> string \<Rightarrow> string list \<Rightarrow> 's shell_state \<Rightarrow>
     's shell_state option" where
  "shell_exec shellCommands scp cmd args st =
     (if cmd = ''help'' then
        if args \<noteq> [] then Some (shellUsage st ''help'')
        else do {
          let st = list_commands shellCommands (chprintf st ''Commands: help '');
          let st = (case scp of None \<Rightarrow> st | Some scp \<Rightarrow> list_commands scp st);
          Some (chprintf st SHELL_NEWLINE_STR) }
      else do {
        (missing, st) \<leftarrow> cmdexec shellCommands cmd args st;
        (missing, st) \<leftarrow> (if \<not> missing then Some (False, st)
          else case scp of None \<Rightarrow> Some (True, st) | Some scp \<Rightarrow> cmdexec scp cmd args st);
        Some (if missing then chprintf (chprintf st cmd) ('' ?'' @ SHELL_NEWLINE_STR) else st) })"

definition shell_line ::
    "'s ShellCommand list \<Rightarrow> 's ShellCommand list option \<Rightarrow> cmem \<Rightarrow> 's shell_state \<Rightarrow> (cmem \<times> 's shell_state) option" where
  "shell_line shellCommands scp line st = do {
     (cmd, tokp, line) \<leftarrow> parse_arguments line (Some 0) None;
     (ok, args, line, st) \<leftarrow> arg_loop line tokp [] st;
     case (if ok then cmd else None) of
       None \<Rightarrow> Some (line, st)
     | Some cmd \<Rightarrow> do {
         st \<leftarrow> shell_exec shellCommands scp (cstr line cmd) (map (cstr line) args) st;
         Some (line, st) } }"

section \<open>Reading a line\<close>

text \<open>\<open>True\<close> in the result says that the channel was reset; \<open>p\<close> is the write position.\<close>

fun getline_loop ::
    "nat \<Rightarrow> string \<Rightarrow> cmem \<Rightarrow> nat \<Rightarrow> 's shell_state \<Rightarrow> (bool \<times> string \<times> cmem \<times> 's shell_state) option" where
  "getline_loop sz [] line p st = Some (True, [], line, st)"
| "getline_loop sz (c # input) line p st =
     (if c = CHR 0x08 \<or> c = CHR 0x7F then
        (if p \<noteq> 0 then getline_loop sz input line (p - 1) (chprintf st [CHR 0x08, CHR 0x20, CHR 0x08])
         else getline_loop sz input line p st)
      else if c = CHR 0x0D then do {
        let st = chprintf st SHELL_NEWLINE_STR;
        line \<leftarrow> put_char line p NUL;
        Some (False, input, line, st) }
      else if (of_char c :: nat) < 0x20 then getline_loop sz input line p st
      else if p < sz - 1 then
        (case put_char line p c of
           None \<Rightarrow> None
         | Some line \<Rightarrow> getline_loop sz input line (p + 1) (chprintf st [c]))
      else getline_loop sz input line p st)"

definition shellGetLine ::
    "string \<Rightarrow> cmem \<Rightarrow> 's shell_state \<Rightarrow> (bool \<times> string \<times> cmem \<times> 's shell_state) option" where
  "shellGetLine input line st = getline_loop SHELL_MAX_LINE_LENGTH input line 0 st"

text \<open>One round of \<^verbatim>\<open>shellThread\<close>.  After a reset of the channel the code goes on with the line as it
  is.\<close>

definition shell_round ::
    "'s ShellCommand list \<Rightarrow> 's ShellCommand list option \<Rightarrow> string \<Rightarrow> cmem \<Rightarrow> 's shell_state \<Rightarrow>
     (string \<times> cmem \<times> 's shell_state) option" where
  "shell_round shellCommands scp input line st = do {
     let st = chprintf st SHELL_PROMPT_STR;
     (_, input, line, st) \<leftarrow> shellGetLine input line st;
     (line, st) \<leftarrow> shell_line shellCommands scp line st;
     Some (input, line, st) }"
section \<open>Specification on strings\<close>

text \<open>The first word of a text, and what follows its delimiter.\<close>

definition cut_at :: "(char \<Rightarrow> bool) \<Rightarrow> string \<Rightarrow> string \<times> string option" where
  "cut_at P s = (takeWhile (\<lambda>c. \<not> P c) s, case dropWhile (\<lambda>c. \<not> P c) s of [] \<Rightarrow> None | _ # r \<Rightarrow> Some r)"

definition next_word :: "string \<Rightarrow> string \<times> string option" where
  "next_word s = (case dropWhile (\<lambda>c. c \<in> set blanks) s of
     [] \<Rightarrow> ([], None)
   | c # cs \<Rightarrow> if c = DQUOTE then cut_at (\<lambda>c. c = DQUOTE) cs else cut_at (\<lambda>c. c \<in> set blanks) (c # cs))"

lemma cut_at_shorter: "cut_at P s = (t, Some r) \<Longrightarrow> length r < length s"
proof -
  assume "cut_at P s = (t, Some r)"
  then obtain c where "dropWhile (\<lambda>c. \<not> P c) s = c # r"
    by (auto simp: cut_at_def split: list.splits)
  then show ?thesis
    using length_dropWhile_le [of "\<lambda>c. \<not> P c" s] by simp
qed

lemma next_word_shorter: "next_word s = (t, Some r) \<Longrightarrow> length r < length s"
  using length_dropWhile_le [of "\<lambda>c. c \<in> set blanks" s]
  by (auto simp: next_word_def split: list.splits if_splits dest!: cut_at_shorter)

text \<open>All the words, up to the first empty one.\<close>

function words :: "string \<Rightarrow> string list" where
  "words s = (case next_word s of
     (t, r) \<Rightarrow> if t = [] then [] else t # (case r of None \<Rightarrow> [] | Some r \<Rightarrow> words r))"
  by pat_completeness auto
termination
  by (relation "measure length") (auto dest: next_word_shorter [OF sym])

declare words.simps [simp del]

fun words_opt :: "string option \<Rightarrow> string list" where
  "words_opt None = []"
| "words_opt (Some s) = words s"

section \<open>The splitter\<close>

lemma get_char_at [simp]: "get_char (pre @ c # post) (length pre) = Some c"
  by (simp add: get_char_def)

lemma put_char_at [simp]: "put_char (pre @ c # post) (length pre) c' = Some (pre @ c' # post)"
  by (simp add: put_char_def)

lemma cstr_at [simp]: "NUL \<notin> set t \<Longrightarrow> cstr (pre @ t @ NUL # post) (length pre) = t"
  by (auto simp: cstr_def takeWhile_append)

lemma span_chars_string:
  "NUL \<notin> set s \<Longrightarrow> span_chars acc (s @ NUL # post) = Some (length (takeWhile (\<lambda>c. c \<in> set acc) s))"
  by (induction s) auto

lemma strspn_string:
  "NUL \<notin> set s \<Longrightarrow> strspn (pre @ s @ NUL # post) (length pre) acc = Some (length (takeWhile (\<lambda>c. c \<in> set acc) s))"
  by (simp add: strspn_def span_chars_string)

lemma break_chars_string:
  "NUL \<notin> set s \<Longrightarrow> break_chars acc (s @ NUL # post) n =
     Some (if \<exists>c \<in> set s. c \<in> set acc then Some (n + length (takeWhile (\<lambda>c. c \<notin> set acc) s)) else None)"
  by (induction s arbitrary: n) auto

lemma strpbrk_string:
  "NUL \<notin> set s \<Longrightarrow> strpbrk (pre @ s @ NUL # post) (length pre) acc =
     Some (if \<exists>c \<in> set s. c \<in> set acc then Some (length pre + length (takeWhile (\<lambda>c. c \<notin> set acc) s)) else None)"
  by (simp add: strpbrk_def break_chars_string)

text \<open>Where the delimiter is found, the text is the word, the delimiter and the rest.\<close>

lemma cut_at_cases:
  obtains "cut_at P s = (s, None)" "\<not> (\<exists>c \<in> set s. P c)"
  | t c r where "cut_at P s = (t, Some r)" "s = t @ c # r" "t = takeWhile (\<lambda>c. \<not> P c) s" "\<exists>c \<in> set s. P c"
proof (cases "dropWhile (\<lambda>c. \<not> P c) s")
  case Nil
  then have all: "\<not> (\<exists>c \<in> set s. P c)" by (simp add: dropWhile_eq_Nil_conv)
  then have "takeWhile (\<lambda>c. \<not> P c) s = s" by (simp add: takeWhile_eq_all_conv)
  then have "cut_at P s = (s, None)" unfolding cut_at_def Nil by simp
  with all that(1) show ?thesis by blast
next
  case (Cons c r)
  define t where "t = takeWhile (\<lambda>c. \<not> P c) s"
  have "s = t @ c # r" using Cons unfolding t_def by (metis takeWhile_dropWhile_id)
  moreover have "\<exists>c \<in> set s. P c" using Cons by (metis dropWhile_eq_Nil_conv list.distinct(1))
  moreover have "cut_at P s = (t, Some r)" unfolding cut_at_def Cons t_def by simp
  ultimately show ?thesis using that(2) t_def by blast
qed

text \<open>The common part of both branches: the delimiter is replaced by a terminator.\<close>

definition cut_in_place :: "cmem \<Rightarrow> nat \<Rightarrow> string \<Rightarrow> (nat option \<times> nat option \<times> cmem) option" where
  "cut_in_place m p acc = do {
     saveptr \<leftarrow> strpbrk m p acc;
     (saveptr, m) \<leftarrow> (case saveptr of
         None \<Rightarrow> Some (None, m)
       | Some s \<Rightarrow> do { m \<leftarrow> put_char m s NUL; Some (Some (s + 1), m) });
     c \<leftarrow> get_char m p;
     Some (if c \<noteq> NUL then Some p else None, saveptr, m) }"

lemma get_char_word:
  assumes "NUL \<notin> set t"
  obtains c where "get_char (pre @ t @ NUL # post) (length pre) = Some c" "c = NUL \<longleftrightarrow> t = []" "t \<noteq> [] \<Longrightarrow> c = hd t"
  using assms that by (cases t) auto

lemma cut_in_place_string:
  assumes "NUL \<notin> set s" and "cut_at (\<lambda>c. c \<in> set acc) s = (t, r)"
  shows "NUL \<notin> set t \<and> (\<exists>post'. cut_in_place (pre @ s @ NUL # post) (length pre) acc =
     Some (if t = [] then None else Some (length pre), map_option (\<lambda>_. length pre + length t + 1) r,
           pre @ t @ NUL # post') \<and> (case r of None \<Rightarrow> True | Some r \<Rightarrow> NUL \<notin> set r \<and> post' = r @ NUL # post))"
proof (cases rule: cut_at_cases [of "\<lambda>c. c \<in> set acc" s])
  case 1
  obtain c where "get_char (pre @ s @ NUL # post) (length pre) = Some c" "c = NUL \<longleftrightarrow> s = []"
    using get_char_word [OF assms(1)] by metis
  moreover have "strpbrk (pre @ s @ NUL # post) (length pre) acc = Some None"
    using 1 assms(1) by (simp add: strpbrk_string)
  ultimately have "cut_in_place (pre @ s @ NUL # post) (length pre) acc =
      Some (if s = [] then None else Some (length pre), None, pre @ s @ NUL # post)"
    by (simp add: cut_in_place_def)
  with 1 assms show ?thesis by auto
next
  case (2 t' c r')
  have *: "strpbrk (pre @ s @ NUL # post) (length pre) acc = Some (Some (length (pre @ t')))"
    using strpbrk_string [OF assms(1), of pre post acc] 2(4) by (simp add: 2(3) [symmetric])
  have "put_char (pre @ s @ NUL # post) (length (pre @ t')) NUL = Some (pre @ t' @ NUL # r' @ NUL # post)"
    using put_char_at [of "pre @ t'" c "r' @ NUL # post" NUL] 2(2) by simp
  moreover have no: "NUL \<notin> set t'" "NUL \<notin> set r'" using assms(1) 2(2) by auto
  moreover obtain c where "get_char (pre @ t' @ NUL # r' @ NUL # post) (length pre) = Some c" "c = NUL \<longleftrightarrow> t' = []"
    using get_char_word [OF no(1)] by metis
  ultimately have "cut_in_place (pre @ s @ NUL # post) (length pre) acc =
      Some (if t' = [] then None else Some (length pre), Some (length pre + length t' + 1), pre @ t' @ NUL # r' @ NUL # post)"
    by (simp add: cut_in_place_def *)
  with 2(1) assms(2) \<open>NUL \<notin> set t'\<close> \<open>NUL \<notin> set r'\<close> show ?thesis by auto
qed

lemma parse_arguments_cut:
  assumes "NUL \<notin> set s" "s = a @ b" "a = takeWhile (\<lambda>c. c \<in> set blanks) s"
  shows "parse_arguments (pre @ s @ NUL # post) None (Some (length pre)) =
    (if b \<noteq> [] \<and> hd b = DQUOTE
     then cut_in_place (pre @ s @ NUL # post) (length (pre @ a @ [DQUOTE])) [DQUOTE]
     else cut_in_place (pre @ s @ NUL # post) (length (pre @ a)) blanks)"
proof -
  have "NUL \<notin> set b" using assms(1,2) by simp
  then obtain c where "get_char ((pre @ a) @ b @ NUL # post) (length (pre @ a)) = Some c" "c = NUL \<longleftrightarrow> b = []"
      "b \<noteq> [] \<Longrightarrow> c = hd b"
    using get_char_word [of b "pre @ a" post] by metis
  then have "get_char (pre @ s @ NUL # post) (length pre + length a) = Some c" "c = DQUOTE \<longleftrightarrow> b \<noteq> [] \<and> hd b = DQUOTE"
    using assms(2) by auto
  moreover have "strspn (pre @ s @ NUL # post) (length pre) blanks = Some (length a)"
    using strspn_string [OF assms(1), of pre post blanks] assms(3) by simp
  ultimately show ?thesis
    by (cases "c = DQUOTE") (auto simp: parse_arguments_def cut_in_place_def Let_def cong: if_cong)
qed

lemma parse_arguments_word:
  assumes "NUL \<notin> set s" and "next_word s = (t, r)"
  shows "\<exists>a post'. NUL \<notin> set t \<and> parse_arguments (pre @ s @ NUL # post) None (Some (length pre)) =
     Some (if t = [] then None else Some (length (pre @ a)), map_option (\<lambda>_. length (pre @ a) + length t + 1) r,
           pre @ a @ t @ NUL # post') \<and> (case r of None \<Rightarrow> True | Some r \<Rightarrow> NUL \<notin> set r \<and> post' = r @ NUL # post)"
proof -
  define a b where "a = takeWhile (\<lambda>c. c \<in> set blanks) s" and "b = dropWhile (\<lambda>c. c \<in> set blanks) s"
  have s: "s = a @ b" by (simp add: a_def b_def)
  have nw: "next_word s = (case b of [] \<Rightarrow> ([], None)
      | c # cs \<Rightarrow> if c = DQUOTE then cut_at (\<lambda>c. c = DQUOTE) cs else cut_at (\<lambda>c. c \<in> set blanks) (c # cs))"
    by (simp add: next_word_def b_def)
  note P = parse_arguments_cut [OF assms(1) s a_def, of pre post]
  show ?thesis
  proof (cases "b \<noteq> [] \<and> hd b = DQUOTE")
    case True
    then obtain b' where b: "b = DQUOTE # b'" by (cases b) auto
    then have "cut_at (\<lambda>c. c \<in> set [DQUOTE]) b' = (t, r)"
      using assms(2) nw by simp
    from cut_in_place_string [OF _ this, of "pre @ a @ [DQUOTE]" post] assms(1) s b
    obtain post' where "NUL \<notin> set t" "cut_in_place (pre @ s @ NUL # post) (length (pre @ a @ [DQUOTE])) [DQUOTE] =
       Some (if t = [] then None else Some (length (pre @ a @ [DQUOTE])),
         map_option (\<lambda>_. length (pre @ a @ [DQUOTE]) + length t + 1) r, pre @ (a @ [DQUOTE]) @ t @ NUL # post')"
      "case r of None \<Rightarrow> True | Some r \<Rightarrow> NUL \<notin> set r \<and> post' = r @ NUL # post"
      by auto
    with P True show ?thesis by (intro exI [of _ "a @ [DQUOTE]"] exI [of _ post']) simp
  next
    case False
    have "cut_at (\<lambda>c. c \<in> set blanks) b = (t, r)"
      using assms(2) False nw by (cases b) (auto simp: cut_at_def)
    from cut_in_place_string [OF _ this, of "pre @ a" post] assms(1) s
    obtain post' where "NUL \<notin> set t" "cut_in_place (pre @ s @ NUL # post) (length (pre @ a)) blanks =
       Some (if t = [] then None else Some (length (pre @ a)),
         map_option (\<lambda>_. length (pre @ a) + length t + 1) r, pre @ a @ t @ NUL # post')"
      "case r of None \<Rightarrow> True | Some r \<Rightarrow> NUL \<notin> set r \<and> post' = r @ NUL # post"
      by auto
    with P False show ?thesis by (intro exI [of _ a] exI [of _ post']) auto
  qed
qed
section \<open>The arguments of a command\<close>

lemma arg_loop_None [simp]: "arg_loop m None args st = Some (True, args, m, st)"
  by (subst arg_loop.simps) (simp add: parse_arguments_def)

abbreviation too_many :: "'s shell_state \<Rightarrow> 's shell_state" where
  "too_many st \<equiv> chprintf st (''too many arguments'' @ SHELL_NEWLINE_STR)"

lemma parse_arguments_length: "parse_arguments m str save = Some (lp, tokp, m') \<Longrightarrow> length m' = length m"
  by (auto simp: parse_arguments_def put_char_def Let_def split: option.splits bind_splits if_splits)

lemma arg_loop_words:
  assumes "NUL \<notin> set s" and "length args \<le> 4"
  shows "\<exists>ptrs suf. length suf = length (s @ NUL # post) \<and> arg_loop (pre @ s @ NUL # post) (Some (length pre)) args st =
     (if length args + length (words s) \<le> 4 then Some (True, args @ ptrs, pre @ suf, st)
      else Some (False, ptrs, pre @ suf, too_many st)) \<and>
     (length args + length (words s) \<le> 4 \<longrightarrow> map (cstr (pre @ suf)) ptrs = words s)"
  using assms
proof (induction "length s" arbitrary: s pre args rule: less_induct)
  case less
  obtain t r where n: "next_word s = (t, r)" by force
  from parse_arguments_word [OF less.prems(1) n, of pre post] obtain a post' where t: "NUL \<notin> set t"
    and p: "parse_arguments (pre @ s @ NUL # post) None (Some (length pre)) =
      Some (if t = [] then None else Some (length (pre @ a)), map_option (\<lambda>_. length (pre @ a) + length t + 1) r,
            pre @ a @ t @ NUL # post')"
    and r: "case r of None \<Rightarrow> True | Some r \<Rightarrow> NUL \<notin> set r \<and> post' = r @ NUL # post" by blast
  have len: "length (a @ t @ NUL # post') = length (s @ NUL # post)"
    using parse_arguments_length [OF p] by simp
  have w: "words s = (if t = [] then [] else t # words_opt r)"
    by (subst words.simps) (auto simp: n split: option.splits)
  show ?case
  proof (cases "t = [] \<or> length args = 4 \<or> r = None")
    case True
    show ?thesis
      by (subst arg_loop.simps, subst p)
         (use True len less.prems(2) t w cstr_at [OF t, of "pre @ a" post'] in
           \<open>auto simp: SHELL_MAX_ARGUMENTS_def intro!: exI [of _ "a @ t @ NUL # post'"]\<close>)
  next
    case False
    then obtain r' where r': "r = Some r'" by auto
    let ?pre = "pre @ a @ t @ [NUL]"
    have "length r' < length s" using next_word_shorter n r' by simp
    moreover have "NUL \<notin> set r'" and post': "post' = r' @ NUL # post" using r r' by simp_all
    moreover have "length (args @ [length (pre @ a)]) \<le> 4" using False less.prems(2) by simp
    ultimately obtain ptrs suf where IH: "length suf = length (r' @ NUL # post)"
      "arg_loop (?pre @ r' @ NUL # post) (Some (length ?pre)) (args @ [length (pre @ a)]) st =
       (if length (args @ [length (pre @ a)]) + length (words r') \<le> 4
        then Some (True, (args @ [length (pre @ a)]) @ ptrs, ?pre @ suf, st)
        else Some (False, ptrs, ?pre @ suf, too_many st))"
      "length (args @ [length (pre @ a)]) + length (words r') \<le> 4 \<longrightarrow> map (cstr (?pre @ suf)) ptrs = words r'"
      using less.hyps by blast
    have "arg_loop (pre @ s @ NUL # post) (Some (length pre)) args st =
        arg_loop (?pre @ r' @ NUL # post) (Some (length ?pre)) (args @ [length (pre @ a)]) st"
      by (subst arg_loop.simps, subst p) (use False less.prems(2) r' post' in \<open>simp add: SHELL_MAX_ARGUMENTS_def add.assoc\<close>)
    moreover have "cstr (?pre @ suf) (length (pre @ a)) = t" using cstr_at [OF t, of "pre @ a" suf] by simp
    moreover have "length (a @ t @ [NUL] @ suf) = length (s @ NUL # post)"
      using len IH(1) post' by simp
    ultimately show ?thesis
      using IH(2,3) False w r'
      by (intro exI [of _ "if length args + 1 + length (words r') \<le> 4 then length (pre @ a) # ptrs else ptrs"]
            exI [of _ "a @ t @ [NUL] @ suf"]) auto
  qed
qed
text \<open>What a line of text does: the part of \<^verbatim>\<open>shellThread\<close> behind the splitter, on strings.\<close>

definition exec_spec ::
    "'s ShellCommand list \<Rightarrow> string \<Rightarrow> string list \<Rightarrow> 's shell_state \<Rightarrow> 's shell_state option" where
  "exec_spec cmds name argv st =
     (if name = ''help'' then
        if argv \<noteq> [] then Some (shellUsage st ''help'')
        else Some (chprintf st (''Commands: help '' @ concat (map (\<lambda>(n, _). n @ '' '') cmds) @ SHELL_NEWLINE_STR))
      else case map_of cmds name of
        None \<Rightarrow> Some (chprintf st (name @ '' ?'' @ SHELL_NEWLINE_STR))
      | Some f \<Rightarrow> f argv st)"

definition line_spec :: "'s ShellCommand list \<Rightarrow> string \<Rightarrow> 's shell_state \<Rightarrow> 's shell_state option" where
  "line_spec cmds tx st = (case next_word tx of (name, rest) \<Rightarrow>
     if 4 < length (words_opt rest) then Some (too_many st)
     else if name = [] then Some st
     else exec_spec cmds name (words_opt rest) st)"

fun all_commands :: "'s ShellCommand list \<Rightarrow> 's ShellCommand list option \<Rightarrow> 's ShellCommand list" where
  "all_commands cmds None = cmds"
| "all_commands cmds (Some scp) = cmds @ scp"

lemma chprintf_chprintf [simp]: "chprintf (chprintf st a) b = chprintf st (a @ b)"
  by (simp add: chprintf_def)

lemma list_commands_eq: "list_commands cmds st = chprintf st (concat (map (\<lambda>(n, _). n @ '' '') cmds))"
  by (induction cmds st rule: list_commands.induct) (simp_all add: chprintf_def)

lemma cmdexec_map_of:
  "cmdexec cmds name argv st =
     (case map_of cmds name of None \<Rightarrow> Some (True, st) | Some f \<Rightarrow> map_option (\<lambda>st. (False, st)) (f argv st))"
  by (induction cmds name argv st rule: cmdexec.induct) (auto split: bind_splits option.splits)

lemma shell_exec_spec: "shell_exec cmds scp name argv st = exec_spec (all_commands cmds scp) name argv st"
  by (cases scp)
     (auto simp: shell_exec_def exec_spec_def cmdexec_map_of list_commands_eq Let_def map_add_def split: option.splits bind_splits)

lemma shell_line_spec:
  assumes "NUL \<notin> set tx"
  shows "\<exists>line'. length line' = length (tx @ NUL # post) \<and>
    shell_line cmds scp (tx @ NUL # post) st = map_option (\<lambda>st. (line', st)) (line_spec (all_commands cmds scp) tx st)"
proof -
  obtain t r where n: "next_word tx = (t, r)" by force
  from parse_arguments_word [OF assms n, of "[]" post, unfolded append_Nil list.size] obtain a post' where t: "NUL \<notin> set t"
    and p: "parse_arguments (tx @ NUL # post) None (Some 0) =
      Some (if t = [] then None else Some (length a), map_option (\<lambda>_. length a + length t + 1) r, a @ t @ NUL # post')"
    and r: "case r of None \<Rightarrow> True | Some r \<Rightarrow> NUL \<notin> set r \<and> post' = r @ NUL # post" by blast
  have p': "parse_arguments (tx @ NUL # post) (Some 0) None =
      Some (if t = [] then None else Some (length a), map_option (\<lambda>_. length a + length t + 1) r, a @ t @ NUL # post')"
    using p by (simp add: parse_arguments_def)
  obtain args suf where args: "length suf = length post'"
    "arg_loop (a @ t @ NUL # post') (map_option (\<lambda>_. length a + length t + 1) r) [] st =
      (if length (words_opt r) \<le> 4 then Some (True, args, a @ t @ NUL # suf, st)
       else Some (False, args, a @ t @ NUL # suf, too_many st))"
    "length (words_opt r) \<le> 4 \<Longrightarrow> map (cstr (a @ t @ NUL # suf)) args = words_opt r"
  proof (cases r)
    case None
    then show ?thesis by (intro that [of post' "[]"]) simp_all
  next
    case (Some r')
    then show ?thesis
      using arg_loop_words [of r' "[]" post "a @ t @ [NUL]" st] r that by fastforce
  qed
  let ?m = "a @ t @ NUL # suf"
  have "cstr ?m (length a) = t" using cstr_at [OF t, of a suf] .
  moreover have "args = [] \<longleftrightarrow> words_opt r = []" if "length (words_opt r) \<le> 4" using args(3) [OF that] by auto
  ultimately have "shell_line cmds scp (tx @ NUL # post) st = map_option (\<lambda>st. (?m, st)) (line_spec (all_commands cmds scp) tx st)"
    using args(2,3) unfolding shell_line_def p'
    by (auto simp: line_spec_def n shell_exec_spec map_option_case split: option.splits)
  moreover have "length ?m = length (tx @ NUL # post)"
    using parse_arguments_length [OF p] args(1) by simp
  ultimately show ?thesis by blast
qed
section \<open>The line editor\<close>

text \<open>What a key does to the text typed so far, and what a terminal shows: the cells left of the
  cursor, in reverse, and those from the cursor on.\<close>

definition edit_key :: "string \<Rightarrow> char \<Rightarrow> string" where
  "edit_key tx c =
     (if c = CHR 0x08 \<or> c = CHR 0x7F then butlast tx
      else if (of_char c :: nat) < 0x20 \<or> 63 \<le> length tx then tx
      else tx @ [c])"

fun term_put :: "string \<times> string \<Rightarrow> char \<Rightarrow> string \<times> string" where
  "term_put (l, r) c = (if c = CHR 0x08 then (case l of [] \<Rightarrow> (l, r) | x # l \<Rightarrow> (l, x # r)) else (c # l, tl r))"

definition on_screen :: "string \<Rightarrow> string \<Rightarrow> bool" where
  "on_screen echo tx \<longleftrightarrow> (\<exists>k. foldl term_put ([], []) echo = (rev tx, replicate k (CHR '' '')))"

lemma edit_key_NUL: "NUL \<notin> set tx \<Longrightarrow> NUL \<notin> set (edit_key tx c)"
  by (auto simp: edit_key_def dest: in_set_butlastD)

lemma edit_NUL: "NUL \<notin> set tx \<Longrightarrow> NUL \<notin> set (foldl edit_key tx keys)"
  by (induction keys arbitrary: tx) (simp_all add: edit_key_NUL)

lemma edit_key_length: "length tx \<le> 63 \<Longrightarrow> length (edit_key tx c) \<le> 63"
  by (auto simp: edit_key_def)

text \<open>One key that is not the return key: the buffer, the position and the echo follow the text.\<close>

lemma getline_key:
  assumes "c \<noteq> CHR 0x0D" "length (tx @ suf) = 64" "length tx \<le> 63"
  shows "\<exists>suf' e k'. length (edit_key tx c @ suf') = 64 \<and>
     foldl term_put (rev tx, replicate k (CHR '' '')) e = (rev (edit_key tx c), replicate k' (CHR '' '')) \<and>
     (\<forall>st :: 's shell_state. getline_loop 64 (c # input) (tx @ suf) (length tx) st =
        getline_loop 64 input (edit_key tx c @ suf') (length (edit_key tx c)) (chprintf st e))"
proof (cases "c = CHR 0x08 \<or> c = CHR 0x7F")
  case True
  show ?thesis
  proof (cases tx rule: rev_cases)
    case Nil
    with True assms(2) show ?thesis
      by (intro exI [of _ suf] exI [of _ "[]"] exI [of _ k]) (auto simp: edit_key_def chprintf_def)
  next
    case (snoc t x)
    have "foldl term_put (rev tx, replicate k (CHR '' '')) [CHR 0x08, CHR 0x20, CHR 0x08] =
        (rev t, replicate (Suc k) (CHR '' ''))" using snoc by simp
    with True snoc assms(2) show ?thesis
      by (intro exI [of _ "x # suf"] exI [of _ "[CHR 0x08, CHR 0x20, CHR 0x08]"] exI [of _ "Suc k"])
         (auto simp: edit_key_def)
  qed
next
  case False
  show ?thesis
  proof (cases "(of_char c :: nat) < 0x20 \<or> 63 \<le> length tx")
    case True
    with False assms show ?thesis
      by (intro exI [of _ suf] exI [of _ "[]"] exI [of _ k]) (auto simp: edit_key_def chprintf_def)
  next
    case False': False
    obtain x suf' where suf: "suf = x # suf'" using assms(2) False' by (cases suf) auto
    have "put_char (tx @ suf) (length tx) c = Some ((tx @ [c]) @ suf')" using suf by simp
    moreover have "tl (replicate k (CHR '' '')) = replicate (k - 1) (CHR '' '')" by (cases k) simp_all
    ultimately show ?thesis
      using False False' assms suf
      by (intro exI [of _ suf'] exI [of _ "[c]"] exI [of _ "k - 1"]) (auto simp: edit_key_def)
  qed
qed

lemma getline_keys:
  assumes "CHR 0x0D \<notin> set keys" "length (tx @ suf) = 64" "length tx \<le> 63"
  shows "\<exists>suf' e k'. length (foldl edit_key tx keys @ NUL # suf') = 64 \<and>
     foldl term_put (rev tx, replicate k (CHR '' '')) e = (rev (foldl edit_key tx keys), replicate k' (CHR '' '')) \<and>
     (\<forall>st :: 's shell_state. getline_loop 64 (keys @ CHR 0x0D # rest) (tx @ suf) (length tx) st =
        Some (False, rest, foldl edit_key tx keys @ NUL # suf', chprintf st (e @ SHELL_NEWLINE_STR)))"
  using assms
proof (induction keys arbitrary: tx suf k)
  case Nil
  then obtain x suf' where "suf = x # suf'" by (cases suf) auto
  with Nil show ?case
    by (intro exI [of _ suf'] exI [of _ "[]"] exI [of _ k]) (auto simp: chprintf_def)
next
  case (Cons c keys)
  obtain suf1 e1 k1 where key: "length (edit_key tx c @ suf1) = 64"
    "foldl term_put (rev tx, replicate k (CHR '' '')) e1 = (rev (edit_key tx c), replicate k1 (CHR '' ''))"
    "\<forall>st :: 's shell_state. getline_loop 64 (c # keys @ CHR 0x0D # rest) (tx @ suf) (length tx) st =
        getline_loop 64 (keys @ CHR 0x0D # rest) (edit_key tx c @ suf1) (length (edit_key tx c)) (chprintf st e1)"
    using getline_key [where 's = 's, OF _ Cons.prems(2,3), of c k "keys @ CHR 0x0D # rest"] Cons.prems(1) by auto
  from Cons.IH [OF _ key(1) edit_key_length [OF Cons.prems(3)], of k1] Cons.prems(1)
  obtain suf' e k' where "length (foldl edit_key (edit_key tx c) keys @ NUL # suf') = 64"
    "foldl term_put (rev (edit_key tx c), replicate k1 (CHR '' '')) e =
       (rev (foldl edit_key (edit_key tx c) keys), replicate k' (CHR '' ''))"
    "\<forall>st :: 's shell_state. getline_loop 64 (keys @ CHR 0x0D # rest) (edit_key tx c @ suf1) (length (edit_key tx c)) st =
        Some (False, rest, foldl edit_key (edit_key tx c) keys @ NUL # suf', chprintf st (e @ SHELL_NEWLINE_STR))"
    by auto
  with key show ?case
    by (intro exI [of _ suf'] exI [of _ "e1 @ e"] exI [of _ k']) simp
qed

lemma shell_round_spec:
  fixes st :: "'s shell_state"
  assumes "CHR 0x0D \<notin> set keys" and "length line = 64"
  shows "\<exists>line' echo. length line' = 64 \<and> on_screen echo (foldl edit_key [] keys) \<and>
    shell_round cmds scp (keys @ CHR 0x0D # rest) line st =
      map_option (\<lambda>st. (rest, line', st))
        (line_spec (all_commands cmds scp) (foldl edit_key [] keys) (chprintf st (''ch> '' @ echo @ SHELL_NEWLINE_STR)))"
proof -
  let ?tx = "foldl edit_key [] keys"
  obtain suf e k where e: "length (?tx @ NUL # suf) = 64"
    "foldl term_put ([], []) e = (rev ?tx, replicate k (CHR '' ''))"
    "\<And>st :: 's shell_state. getline_loop 64 (keys @ CHR 0x0D # rest) line 0 st = Some (False, rest, ?tx @ NUL # suf, chprintf st (e @ SHELL_NEWLINE_STR))"
    using getline_keys [where 's = 's, OF assms(1), of "[]" line 0 rest] assms(2) by auto
  obtain line' where "length line' = 64" "shell_line cmds scp (?tx @ NUL # suf) (chprintf st (''ch> '' @ e @ SHELL_NEWLINE_STR)) =
      map_option (\<lambda>st. (line', st)) (line_spec (all_commands cmds scp) ?tx (chprintf st (''ch> '' @ e @ SHELL_NEWLINE_STR)))"
    using shell_line_spec [OF edit_NUL [of "[]" keys], of suf] e(1) by (metis empty_iff list.set(1))
  then show ?thesis
    using e by (intro exI [of _ line'] exI [of _ e])
      (auto simp: on_screen_def shell_round_def shellGetLine_def SHELL_MAX_LINE_LENGTH_def SHELL_PROMPT_STR_def option.map_comp
         map_option_case split: option.splits)
qed

text \<open>
  C24.  What the user sees is what the shell runs.  Whatever keys are typed before the return
  key (control characters, corrections, more than fit), the echo leaves on the terminal exactly
  the text that was stored, never more than 63 characters and never outside of the buffer, and
  the round then does exactly what the specification on strings says of that text: split into
  words at blanks and quotes, run the handler with these words, or print the answer.
\<close>

theorem shell_round_executes:
  fixes st :: "'s shell_state"
  assumes "CHR 0x0D \<notin> set keys" and "length line = 64"
  shows "\<exists>line' echo. length line' = 64 \<and> on_screen echo (foldl edit_key [] keys) \<and>
    shell_round cmds scp (keys @ CHR 0x0D # rest) line st =
      map_option (\<lambda>st. (rest, line', st))
        (line_spec (all_commands cmds scp) (foldl edit_key [] keys) (chprintf st (''ch> '' @ echo @ SHELL_NEWLINE_STR)))"
  using assms by (rule shell_round_spec)

theorem shell_round_executes_witness:
  "\<exists>line' echo. on_screen echo ''send \"a b\" 7'' \<and>
     shell_round [(''send'', \<lambda>argv st. Some (st\<lparr>app := argv\<rparr>))] None
       (''sedn'' @ [CHR 0x08, CHR 0x08] @ ''nd \"a b\" 7'' @ [CHR 0x0D]) (replicate 64 (CHR ''x'')) \<lparr>chan = [], app = []\<rparr> =
     Some ([], line', \<lparr>chan = ''ch> '' @ echo @ SHELL_NEWLINE_STR, app = [''a b'', ''7'']\<rparr>)"
proof -
  let ?cmds = "[(''send'', \<lambda>argv st. Some (st\<lparr>app := argv\<rparr>))] :: string list ShellCommand list"
  let ?keys = "''sedn'' @ [CHR 0x08, CHR 0x08] @ ''nd \"a b\" 7''"
  have keys: "foldl edit_key [] ?keys = ''send \"a b\" 7''" by code_simp
  have "next_word ''send \"a b\" 7'' = (''send'', Some ''\"a b\" 7'')" "words ''\"a b\" 7'' = [''a b'', ''7'']" by code_simp+
  then have spec: "line_spec (all_commands ?cmds None) ''send \"a b\" 7'' st = Some (st\<lparr>app := [''a b'', ''7'']\<rparr>)" for st
    by (simp add: line_spec_def exec_spec_def)
  have "\<exists>line' echo. length line' = 64 \<and> on_screen echo (foldl edit_key [] ?keys) \<and>
      shell_round ?cmds None (?keys @ CHR 0x0D # []) (replicate 64 (CHR ''x'')) \<lparr>chan = [], app = []\<rparr> =
      map_option (\<lambda>st. ([], line', st)) (line_spec (all_commands ?cmds None) (foldl edit_key [] ?keys)
        (chprintf \<lparr>chan = [], app = []\<rparr> (''ch> '' @ echo @ SHELL_NEWLINE_STR)))"
    by (rule shell_round_executes) simp_all
  then show ?thesis
    unfolding keys spec by (auto simp: chprintf_def)
qed

text \<open>
  C26.  A reset of the channel repeats a command: \<^verbatim>\<open>shellGetLine\<close> then returns \<open>True\<close> without writing
  a terminator, the thread only waits, and goes on with the line as the last round left it.
  Whatever text the buffer still holds is run again.
\<close>

theorem shell_reset_reruns:
  assumes "NUL \<notin> set tx"
  shows "\<exists>line'. shell_round cmds scp [] (tx @ NUL # post) st =
    map_option (\<lambda>st. ([], line', st)) (line_spec (all_commands cmds scp) tx (chprintf st ''ch> ''))"
proof -
  obtain line' where "shell_line cmds scp (tx @ NUL # post) (chprintf st ''ch> '') =
      map_option (\<lambda>st. (line', st)) (line_spec (all_commands cmds scp) tx (chprintf st ''ch> ''))"
    using shell_line_spec [OF assms] by blast
  then show ?thesis
    by (intro exI [of _ line']) (auto simp: shell_round_def shellGetLine_def SHELL_PROMPT_STR_def map_option_case split: option.splits)
qed

theorem shell_reset_reruns_witness:
  "\<exists>line'. shell_round [(''save'', \<lambda>argv st. Some (st\<lparr>app := Suc (app st)\<rparr>))] None [] (''save'' @ replicate 60 NUL) \<lparr>chan = [], app = 1\<rparr> =
     Some ([], line', \<lparr>chan = ''ch> '', app = 2\<rparr>)"
proof -
  let ?cmds = "[(''save'', \<lambda>argv st. Some (st\<lparr>app := Suc (app st)\<rparr>))] :: nat ShellCommand list"
  have "next_word ''save'' = (''save'', None)" by code_simp
  then have spec: "line_spec (all_commands ?cmds None) ''save'' st = Some (st\<lparr>app := Suc (app st)\<rparr>)" for st
    by (simp add: line_spec_def exec_spec_def)
  have "\<exists>line'. shell_round ?cmds None [] (''save'' @ NUL # replicate 59 NUL) \<lparr>chan = [], app = 1\<rparr> =
      map_option (\<lambda>st. ([], line', st)) (line_spec (all_commands ?cmds None) ''save'' (chprintf \<lparr>chan = [], app = 1\<rparr> ''ch> ''))"
    by (rule shell_reset_reruns) simp
  then show ?thesis
    unfolding spec by (simp add: chprintf_def numeral_eq_Suc)
qed

end
