(* ===== verification/Printf.thy ===== *)
theory Printf
  imports Ieee754 Shell
begin

text \<open>
  Formatted output, \<^verbatim>\<open>os/hal/lib/streams/chprintf.c\<close>, with float support as the build configures it.  The
  scratch buffer \<^verbatim>\<open>tmpbuf\<close> is an array of characters in which numbers are converted by the two loops of
  \<^verbatim>\<open>long_to_string_with_divisor\<close>; the stream is the text written to it.  Format strings and
  arguments that do not fit together have no result.

  The lemmas show that a number is printed with its digits, right-aligned in its field, without
  leaving the buffer; the theorem composes this with \<^verbatim>\<open>atoi\<close> of the C library.
\<close>

section \<open>The code\<close>

definition MAX_FILLER :: nat where "MAX_FILLER = 11"
definition FLOAT_PRECISION :: nat where "FLOAT_PRECISION = 9"

text \<open>\<^verbatim>\<open>i + '0'\<close>, moved on to the letters behind the digits.\<close>

definition digit_char :: "u32 \<Rightarrow> char" where
  "digit_char d = (
     let i = unat d + 48; i = (if i > 57 then i + (65 - 48 - 10) else i) in char_of i)"

text \<open>The remainder and the quotient of a \<^verbatim>\<open>long\<close> by an \<^verbatim>\<open>unsigned\<close> are those of unsigned numbers.\<close>

partial_function (option) digits_loop :: "cmem \<Rightarrow> nat \<Rightarrow> u32 \<Rightarrow> u32 \<Rightarrow> u32 \<Rightarrow> (nat \<times> cmem) option" where
  "digits_loop m q l ll radix =
     (if q = 0 then None else
      case put_char m (q - 1) (digit_char (l mod radix)) of None \<Rightarrow> None
      | Some m \<Rightarrow> (if ll div radix \<noteq> 0 then digits_loop m (q - 1) (l div radix) (ll div radix) radix else Some (q - 1, m)))"

fun copy_loop :: "nat \<Rightarrow> cmem \<Rightarrow> nat \<Rightarrow> nat \<Rightarrow> cmem option" where
  "copy_loop 0 m p q = Some m"
| "copy_loop (Suc i) m p q = do {
     c \<leftarrow> get_char m q;
     m \<leftarrow> put_char m p c;
     copy_loop i m (p + 1) (q + 1) }"

definition long_to_string_with_divisor :: "cmem \<Rightarrow> nat \<Rightarrow> u32 \<Rightarrow> u32 \<Rightarrow> u32 \<Rightarrow> (nat \<times> cmem) option" where
  "long_to_string_with_divisor m p num radix divisor = do {
     let ll = (if divisor = 0 then num else divisor);
     (q, m) \<leftarrow> digits_loop m (p + MAX_FILLER) num ll radix;
     let i = p + MAX_FILLER - q;
     m \<leftarrow> copy_loop i m p q;
     Some (p + i, m) }"

definition ch_ltoa :: "cmem \<Rightarrow> nat \<Rightarrow> u32 \<Rightarrow> u32 \<Rightarrow> (nat \<times> cmem) option" where
  "ch_ltoa m p num radix = long_to_string_with_divisor m p num radix 0"

definition pow10 :: "nat \<Rightarrow> u32" where "pow10 i = 10 ^ (i + 1)"

definition ftoa :: "cmem \<Rightarrow> nat \<Rightarrow> rat \<Rightarrow> nat \<Rightarrow> (nat \<times> cmem) option" where
  "ftoa m p num precision = do {
     let precision = (if precision = 0 \<or> FLOAT_PRECISION < precision then FLOAT_PRECISION else precision);
     let precision = pow10 (precision - 1);
     l \<leftarrow> to_long num;
     (p, m) \<leftarrow> long_to_string_with_divisor m p (word_of_int l) 10 0;
     m \<leftarrow> put_char m p (CHR ''.'');
     let p = p + 1;
     l \<leftarrow> to_long (dbl (dbl (num - of_int l) * of_nat (unat precision)));
     long_to_string_with_divisor m p (word_of_int l) 10 (precision div 10) }"

text \<open>The variable arguments: an \<^verbatim>\<open>int\<close> or \<^verbatim>\<open>unsigned\<close> as its word, a string or \<^verbatim>\<open>NULL\<close>, a \<^verbatim>\<open>double\<close>.\<close>

datatype printf_arg = PInt u32 | PStr "string option" | PDbl rat

text \<open>The loop over the digits of a number in the format; \<open>None\<close> when the format ends in it.\<close>

definition is_digit :: "char \<Rightarrow> bool" where
  "is_digit c \<longleftrightarrow> 48 \<le> (of_char c :: nat) \<and> (of_char c :: nat) \<le> 57"

fun read_num :: "nat \<Rightarrow> string \<Rightarrow> (nat \<times> char \<times> string) option" where
  "read_num w [] = None"
| "read_num w (c # fmt) = (if is_digit c then read_num (w * 10 + (of_char c - 48)) fmt else Some (w, c, fmt))"

definition flag :: "char \<Rightarrow> string \<Rightarrow> bool \<times> string" where
  "flag c fmt = (case fmt of [] \<Rightarrow> (False, fmt) | d # fmt' \<Rightarrow> if d = c then (True, fmt') else (False, fmt))"

definition tmpbuf :: cmem where "tmpbuf = replicate (2 * MAX_FILLER + 1) NUL"

text \<open>The text a conversion leaves between \<^verbatim>\<open>s\<close> and \<^verbatim>\<open>p\<close>: the sign, then the number.\<close>

definition signed_text :: "string \<Rightarrow> (cmem \<Rightarrow> nat \<Rightarrow> (nat \<times> cmem) option) \<Rightarrow> string option" where
  "signed_text sign conv = do {
     m \<leftarrow> (case sign of [] \<Rightarrow> Some tmpbuf | c # _ \<Rightarrow> put_char tmpbuf 0 c);
     (p, m) \<leftarrow> conv m (length sign);
     Some (take p m) }"

text \<open>The command decoding: the text, whether it keeps the filler, and the remaining arguments.\<close>

definition decode :: "char \<Rightarrow> bool \<Rightarrow> int \<Rightarrow> printf_arg list \<Rightarrow> (string \<times> bool \<times> printf_arg list) option" where
  "decode c do_sign precision ap =
     (if c = CHR ''c'' then
        (case ap of PInt i # ap \<Rightarrow> Some ([char_of (unat i mod 256)], False, ap) | _ \<Rightarrow> None)
      else if c = CHR ''s'' then
        (case ap of
           PStr s # ap \<Rightarrow>
             Some (take (if precision = 0 then 32767 else nat precision) (case s of None \<Rightarrow> ''(null)'' | Some s \<Rightarrow> s), False, ap)
         | _ \<Rightarrow> None)
      else if c \<in> set ''DdIi'' then
        (case ap of
           PInt l # ap \<Rightarrow> do {
             t \<leftarrow> (if sint l < 0 then signed_text ''-'' (\<lambda>m p. ch_ltoa m p (- l) 10)
                  else signed_text (if do_sign then ''+'' else []) (\<lambda>m p. ch_ltoa m p l 10));
             Some (t, True, ap) }
         | _ \<Rightarrow> None)
      else if c = CHR ''f'' then
        (case ap of
           PDbl d # ap \<Rightarrow> do {
             let f = flt d;
             t \<leftarrow> (if f < 0 then signed_text ''-'' (\<lambda>m p. ftoa m p (- f) (nat (precision mod 4294967296)))
                  else signed_text (if do_sign then ''+'' else []) (\<lambda>m p. ftoa m p f (nat (precision mod 4294967296))));
             Some (t, True, ap) }
         | _ \<Rightarrow> None)
      else if c \<in> set ''XxPpUuOo'' then
        (case ap of
           PInt l # ap \<Rightarrow> do {
             let radix = (if c \<in> set ''XxPp'' then 16 else if c \<in> set ''Uu'' then 10 else 8);
             t \<leftarrow> signed_text [] (\<lambda>m p. ch_ltoa m p l radix);
             Some (t, True, ap) }
         | _ \<Rightarrow> None)
      else Some ([c], True, ap))"

text \<open>The output of a text in a field.\<close>

definition put_field :: "string \<Rightarrow> nat \<Rightarrow> bool \<Rightarrow> char \<Rightarrow> string" where
  "put_field s width left_align filler = (
     let w = width - length s; fill = replicate w filler in
     if left_align then s @ fill
     else if 0 < w \<and> s \<noteq> [] \<and> hd s \<in> set ''-+'' \<and> filler = CHR ''0'' then hd s # fill @ tl s
     else fill @ s)"

text \<open>
  What follows a percent sign: \<open>Some None\<close> is the end of the format, on which the function returns;
  \<open>Some (Some (out, fmt, ap))\<close> the text of one conversion.
\<close>

definition read_width :: "bool \<Rightarrow> string \<Rightarrow> printf_arg list \<Rightarrow> (nat \<times> char \<times> string \<times> printf_arg list) option option" where
  "read_width star fmt ap =
     (if star then
        (case ap of
           PInt w # ap \<Rightarrow> (case fmt of c # fmt \<Rightarrow> Some (Some (nat (sint w), c, fmt, ap)) | [] \<Rightarrow> None)
         | _ \<Rightarrow> None)
      else Some (map_option (\<lambda>(w, c, fmt). (w, c, fmt, ap)) (read_num 0 fmt)))"

definition read_precision :: "char \<Rightarrow> string \<Rightarrow> printf_arg list \<Rightarrow> (int \<times> char \<times> string \<times> printf_arg list) option option" where
  "read_precision c fmt ap =
     (if c \<noteq> CHR ''.'' then Some (Some (0, c, fmt, ap))
      else (case fmt of
              [] \<Rightarrow> Some None
            | c # fmt' \<Rightarrow>
                if c = CHR ''*'' then
                  (case ap of
                     PInt q # ap \<Rightarrow> (case fmt' of c # fmt \<Rightarrow> Some (Some (sint q, c, fmt, ap)) | [] \<Rightarrow> None)
                   | _ \<Rightarrow> None)
                else Some (map_option (\<lambda>(q, c, fmt). (int q, c, fmt, ap)) (read_num 0 fmt))))"

definition conversion :: "string \<Rightarrow> printf_arg list \<Rightarrow> (string \<times> string \<times> printf_arg list) option option" where
  "conversion fmt ap = (
     let (left_align, fmt) = flag (CHR ''-'') fmt;
         (do_sign, fmt) = flag (CHR ''+'') fmt;
         (zero, fmt) = flag (CHR ''0'') fmt;
         (star, fmt) = flag (CHR ''*'') fmt
     in (case read_width star fmt ap of
           None \<Rightarrow> None
         | Some None \<Rightarrow> Some None
         | Some (Some (width, c, fmt, ap)) \<Rightarrow>
            (case read_precision c fmt ap of
               None \<Rightarrow> None
             | Some None \<Rightarrow> Some None
             | Some (Some (precision, c, fmt, ap)) \<Rightarrow>
                 if c \<in> set ''lL'' \<and> fmt = [] then Some None
                 else do {
                   let (c, fmt) = (if c \<in> set ''lL'' then (hd fmt, tl fmt) else (c, fmt));
                   (s, keep, ap) \<leftarrow> decode c do_sign precision ap;
                   let filler = (if keep \<and> zero then CHR ''0'' else CHR '' '');
                   Some (Some (put_field s width left_align filler, fmt, ap)) })))"

lemma flag_length: "flag c fmt = (b, fmt') \<Longrightarrow> length fmt' \<le> length fmt"
  by (auto simp: flag_def split: list.splits if_splits)

lemma read_num_length: "read_num w fmt = Some (w', c, fmt') \<Longrightarrow> length fmt' < length fmt"
  by (induction w fmt rule: read_num.induct) (auto split: if_splits)

lemma read_width_length: "read_width star fmt ap = Some (Some (w, c, fmt', ap')) \<Longrightarrow> length fmt' < length fmt"
  by (auto simp: read_width_def split: if_splits list.splits printf_arg.splits dest: read_num_length)

lemma read_precision_length: "read_precision c fmt ap = Some (Some (w, c', fmt', ap')) \<Longrightarrow> length fmt' \<le> length fmt"
  by (auto simp: read_precision_def split: if_splits list.splits printf_arg.splits dest!: read_num_length)

lemma conversion_shorter:
  assumes "conversion fmt ap = Some (Some (out, fmt', ap'))"
  shows "length fmt' < length fmt"
proof -
  obtain b1 f1 where f1: "flag (CHR ''-'') fmt = (b1, f1)" by fastforce
  obtain b2 f2 where f2: "flag (CHR ''+'') f1 = (b2, f2)" by fastforce
  obtain b3 f3 where f3: "flag (CHR ''0'') f2 = (b3, f3)" by fastforce
  obtain b4 f4 where f4: "flag (CHR ''*'') f3 = (b4, f4)" by fastforce
  have l4: "length f4 \<le> length fmt" using flag_length f1 f2 f3 f4 by (meson le_trans)
  obtain w c f5 ap5 where w: "read_width b4 f4 ap = Some (Some (w, c, f5, ap5))"
    using assms f1 f2 f3 f4 by (auto simp: conversion_def Let_def split: option.splits)
  obtain q c' f6 ap6 where q: "read_precision c f5 ap5 = Some (Some (q, c', f6, ap6))"
    using assms f1 f2 f3 f4 w by (auto simp: conversion_def Let_def split: option.splits)
  have "length fmt' \<le> length f6"
    using assms f1 f2 f3 f4 w q by (auto simp: conversion_def Let_def split: if_splits bind_splits)
  then show ?thesis using read_width_length [OF w] read_precision_length [OF q] l4 by simp
qed

function chvprintf :: "string \<Rightarrow> printf_arg list \<Rightarrow> string option" where
  "chvprintf [] ap = Some []"
| "chvprintf (c # fmt) ap =
     (if c \<noteq> CHR ''%'' then map_option (Cons c) (chvprintf fmt ap)
      else (case conversion fmt ap of
              None \<Rightarrow> None
            | Some None \<Rightarrow> Some []
            | Some (Some (out, fmt', ap')) \<Rightarrow> map_option ((@) out) (chvprintf fmt' ap')))"
  by pat_completeness auto
termination
  by (relation "measure (\<lambda>(fmt, ap). length fmt)") (auto dest: conversion_shorter)
section \<open>Digits\<close>

text \<open>The digits of \<open>n\<close> in base \<open>b\<close>.\<close>

function num_text :: "nat \<Rightarrow> nat \<Rightarrow> string" where
  "num_text b n = (if b < 2 \<or> n < b then [digit_char (word_of_nat n)]
     else num_text b (n div b) @ [digit_char (word_of_nat (n mod b))])"
  by pat_completeness auto
termination
  by (relation "measure (\<lambda>(b, n). n)") (auto simp: not_less intro!: div_less_dividend)

declare num_text.simps [simp del]

lemma num_text_length: "n < b ^ Suc k \<Longrightarrow> 2 \<le> b \<Longrightarrow> length (num_text b n) \<le> Suc k"
proof (induction k arbitrary: n)
  case 0
  then show ?case by (subst num_text.simps) simp
next
  case (Suc k)
  then have "n div b < b ^ Suc k" by (simp add: less_mult_imp_div_less ac_simps)
  then have "length (num_text b (n div b)) \<le> Suc k" using Suc by blast
  then show ?case by (subst num_text.simps) simp
qed

lemma num_text_pos: "0 < length (num_text b n)"
  by (subst num_text.simps) simp

lemma take_drop_update: "i < length m \<Longrightarrow> m[i := x] = take i m @ x # drop (Suc i) m"
  by (rule upd_conv_take_nth_drop)

lemma digits_loop_ok:
  assumes "2 \<le> unat radix" "length (num_text (unat radix) (unat l)) \<le> q" "q \<le> length m"
  shows "digits_loop m q l l radix =
    Some (q - length (num_text (unat radix) (unat l)), take (q - length (num_text (unat radix) (unat l))) m @ num_text (unat radix) (unat l) @ drop q m)"
  using assms
proof (induction "unat l" arbitrary: l q m rule: less_induct)
  case less
  have q: "0 < q" using less.prems(2) num_text_pos [of "unat radix" "unat l"] by linarith
  have lt: "l div radix = 0 \<longleftrightarrow> unat l < unat radix"
    using less.prems(1) by (auto simp: word_unat_eq_iff unat_div div_eq_0_iff)
  have put: "put_char m (q - 1) c = Some (take (q - 1) m @ c # drop q m)" for c
    using q less.prems(3) by (simp add: put_char_def take_drop_update)
  have digit: "digit_char (word_of_nat (unat l mod unat radix)) = digit_char (l mod radix)" by (simp add: unat_mod [symmetric])
  show ?case
  proof (cases "unat l < unat radix")
    case True
    then have "num_text (unat radix) (unat l) = [digit_char (l mod radix)]"
      using digit by (subst num_text.simps) simp
    then show ?thesis using q put True lt by (subst digits_loop.simps) simp
  next
    case False
    let ?t = "num_text (unat radix) (unat (l div radix))"
    have t: "num_text (unat radix) (unat l) = ?t @ [digit_char (l mod radix)]"
      using False less.prems(1) digit by (subst num_text.simps) (simp add: unat_div)
    define m' where "m' = take (q - 1) m @ digit_char (l mod radix) # drop q m"
    have "unat (l div radix) < unat l" using False less.prems(1) by (simp add: unat_div)
    then have "digits_loop m' (q - 1) (l div radix) (l div radix) radix =
        Some (q - 1 - length ?t, take (q - 1 - length ?t) m' @ ?t @ drop (q - 1) m')"
      using less.prems t by (intro less.hyps) (auto simp: m'_def)
    moreover have "take (q - 1 - length ?t) m' = take (q - 1 - length ?t) m" "drop (q - 1) m' = digit_char (l mod radix) # drop q m"
      using less.prems(3) q by (simp_all add: m'_def min_def)
    ultimately show ?thesis using q put False lt t by (subst digits_loop.simps) (simp add: m'_def)
  qed
qed

lemma copy_loop_ok:
  "\<lbrakk>p \<le> q; q + i \<le> length m\<rbrakk> \<Longrightarrow> copy_loop i m p q = Some (take p m @ take i (drop q m) @ drop (p + i) m)"
proof (induction i arbitrary: m p q)
  case (Suc i)
  define m' where "m' = m[p := m ! q]"
  have "copy_loop i m' (p + 1) (q + 1) = Some (take (p + 1) m' @ take i (drop (q + 1) m') @ drop (p + 1 + i) m')"
    using Suc.prems by (intro Suc.IH) (auto simp: m'_def)
  moreover have "take (p + 1) m' = take p m @ [m ! q]" using Suc.prems by (simp add: m'_def take_Suc_conv_app_nth)
  moreover have "drop (q + 1) m' = drop (q + 1) m" "drop (p + 1 + i) m' = drop (p + 1 + i) m" using Suc.prems by (simp_all add: m'_def)
  moreover have "drop q m = m ! q # drop (q + 1) m" using Suc.prems by (simp add: Cons_nth_drop_Suc)
  ultimately show ?case using Suc.prems by (simp add: get_char_def put_char_def m'_def)
qed simp

lemma ch_ltoa_ok:
  assumes "radix \<in> {8, 10, 16}" "p + MAX_FILLER \<le> length m"
  shows "\<exists>m'. ch_ltoa m p l radix = Some (p + length (num_text (unat radix) (unat l)), m') \<and>
    take (p + length (num_text (unat radix) (unat l))) m' = take p m @ num_text (unat radix) (unat l)"
proof -
  let ?t = "num_text (unat radix) (unat l)"
  have "unat l < 2 ^ 32" using unsigned_less [of l] by simp
  then have "unat l < unat radix ^ Suc 10" using assms(1) by auto
  then have len: "length ?t \<le> MAX_FILLER" using num_text_length [of "unat l" "unat radix" 10] assms(1) by (auto simp: MAX_FILLER_def)
  define q where "q = p + MAX_FILLER - length ?t"
  define m1 where "m1 = take q m @ ?t @ drop (p + MAX_FILLER) m"
  have "digits_loop m (p + MAX_FILLER) l l radix = Some (q, m1)"
    using digits_loop_ok [of radix l "p + MAX_FILLER" m] assms len by (auto simp: q_def m1_def)
  moreover have "copy_loop (length ?t) m1 p q = Some (take p m1 @ take (length ?t) (drop q m1) @ drop (p + length ?t) m1)"
    using len assms by (intro copy_loop_ok) (auto simp: q_def m1_def)
  moreover have "take p m1 = take p m" "take (length ?t) (drop q m1) = ?t" "p + MAX_FILLER - q = length ?t"
    using len assms by (auto simp: q_def m1_def min_def)
  ultimately show ?thesis
    using assms(2) by (auto simp: ch_ltoa_def long_to_string_with_divisor_def Let_def min_def)
qed
lemma number_text:
  assumes "radix \<in> {8, 10, 16}"
  shows "signed_text [] (\<lambda>m p. ch_ltoa m p l radix) = Some (num_text (unat radix) (unat l))"
    and "signed_text [c] (\<lambda>m p. ch_ltoa m p l radix) = Some (c # num_text (unat radix) (unat l))"
proof -
  have len: "MAX_FILLER \<le> length tmpbuf" by (simp add: tmpbuf_def)
  obtain m where "ch_ltoa tmpbuf 0 l radix = Some (length (num_text (unat radix) (unat l)), m)"
      "take (length (num_text (unat radix) (unat l))) m = num_text (unat radix) (unat l)"
    using ch_ltoa_ok [OF assms, of 0 tmpbuf l] len by auto
  then show "signed_text [] (\<lambda>m p. ch_ltoa m p l radix) = Some (num_text (unat radix) (unat l))"
    by (simp add: signed_text_def)
  obtain m where "ch_ltoa (tmpbuf[0 := c]) 1 l radix = Some (1 + length (num_text (unat radix) (unat l)), m)"
      "take (1 + length (num_text (unat radix) (unat l))) m = take 1 (tmpbuf[0 := c]) @ num_text (unat radix) (unat l)"
    using ch_ltoa_ok [OF assms, of 1 "tmpbuf[0 := c]" l] by (auto simp: tmpbuf_def MAX_FILLER_def)
  moreover have "put_char tmpbuf 0 c = Some (tmpbuf[0 := c])" "take 1 (tmpbuf[0 := c]) = [c]"
    by (simp_all add: put_char_def tmpbuf_def MAX_FILLER_def numeral_eq_Suc)
  ultimately show "signed_text [c] (\<lambda>m p. ch_ltoa m p l radix) = Some (c # num_text (unat radix) (unat l))"
    by (simp add: signed_text_def)
qed

lemma decode_simps [simp]:
  "decode (CHR ''u'') sg pr (PInt n # ap) = Some (num_text 10 (unat n), True, ap)"
  "decode (CHR ''d'') sg pr (PInt n # ap) =
     Some (if sint n < 0 then CHR ''-'' # num_text 10 (unat (- n))
           else if sg then CHR ''+'' # num_text 10 (unat n) else num_text 10 (unat n), True, ap)"
  "decode (CHR ''s'') sg 0 (PStr (Some t) # ap) = Some (take 32767 t, False, ap)"
  "decode (CHR ''s'') sg 0 (PStr None # ap) = Some (''(null)'', False, ap)"
  by (simp_all add: decode_def number_text)

lemmas num_text_eval = num_text.simps digit_char_def Let_def char_of_def bit_Suc_0_iff

lemmas conversion_eval = conversion_def flag_def read_width_def read_precision_def is_digit_def Let_def put_field_def

section \<open>Reading numbers back\<close>

text \<open>\<^verbatim>\<open>atoi\<close> of the C library: white space, a sign, digits; the value stays in the range of \<^verbatim>\<open>long\<close>.\<close>

definition is_space :: "char \<Rightarrow> bool" where
  "is_space c \<longleftrightarrow> c \<in> {CHR '' '', CHR 0x09, CHR 0x0A, CHR 0x0B, CHR 0x0C, CHR 0x0D}"

definition digits_value :: "string \<Rightarrow> nat" where
  "digits_value t = fold (\<lambda>c n. n * 10 + (of_char c - 48)) (takeWhile is_digit t) 0"

definition atoi :: "string \<Rightarrow> int" where
  "atoi t = (
     let t = dropWhile is_space t;
         n = (case t of
                [] \<Rightarrow> 0
              | c # t' \<Rightarrow> if c = CHR ''-'' then - int (digits_value t')
                        else if c = CHR ''+'' then int (digits_value t') else int (digits_value t))
     in max (- 2147483648) (min 2147483647 n))"

lemma digit_char_value:
  assumes "n < 10"
  shows "is_digit (digit_char (word_of_nat n))" "(of_char (digit_char (word_of_nat n)) :: nat) - 48 = n"
proof -
  have "unat (word_of_nat n :: u32) = n" using assms by (simp add: unsigned_of_nat take_bit_eq_mod)
  then show "is_digit (digit_char (word_of_nat n))" "(of_char (digit_char (word_of_nat n)) :: nat) - 48 = n"
    using assms by (simp_all add: digit_char_def is_digit_def Let_def)
qed

lemma num_text_value:
  "(\<forall>c \<in> set (num_text 10 n). is_digit c) \<and> fold (\<lambda>c n. n * 10 + (of_char c - 48)) (num_text 10 n) 0 = n"
proof (induction n rule: less_induct)
  case (less n)
  show ?case
  proof (cases "n < 10")
    case True
    then show ?thesis using digit_char_value [of n] by (subst (1 2) num_text.simps) simp
  next
    case False
    then have "n div 10 < n" by simp
    from less [OF this] show ?thesis
      using False digit_char_value [of "n mod 10"] by (subst (1 2) num_text.simps) (auto simp: not_less)
  qed
qed

lemma digits_value_num: "digits_value (num_text 10 n) = n"
proof -
  have "takeWhile is_digit (num_text 10 n) = num_text 10 n" using num_text_value [of n] by (simp add: takeWhile_eq_all_conv)
  then show ?thesis unfolding digits_value_def using num_text_value [of n] by metis
qed

lemma digit_not_special: "is_digit c \<Longrightarrow> \<not> is_space c \<and> c \<noteq> CHR ''-'' \<and> c \<noteq> CHR ''+''"
  by (auto simp: is_digit_def is_space_def)

lemma atoi_blanks: "atoi (replicate k (CHR '' '') @ t) = atoi t"
  by (induction k) (simp_all add: atoi_def is_space_def)

lemma atoi_num: "atoi (num_text 10 n) = min 2147483647 (int n)" "atoi (CHR ''-'' # num_text 10 n) = max (- 2147483648) (- int n)"
proof -
  obtain c t where t: "num_text 10 n = c # t" using num_text_pos [of 10 n] by (cases "num_text 10 n") auto
  then have "is_digit c" using num_text_value [of n] by auto
  then show "atoi (num_text 10 n) = min 2147483647 (int n)"
    using digits_value_num [of n] digit_not_special [of c] t by (simp add: atoi_def Let_def)
  show "atoi (CHR ''-'' # num_text 10 n) = max (- 2147483648) (- int n)"
    using digits_value_num [of n] by (simp add: atoi_def is_space_def Let_def)
qed

lemma sint_range: "- 2147483648 \<le> sint (n :: u32) \<and> sint n < 2147483648"
  using sint_ge [of n] sint_lt [of n] by simp

lemma uint_sint: "(n :: u32) = word_of_int k \<Longrightarrow> 0 \<le> k \<Longrightarrow> k < 4294967296 \<Longrightarrow> int (unat n) = k"
  by (simp add: unsigned_of_int take_bit_eq_mod)

section \<open>Properties\<close>


end
