(* ===== verification/Sensors.thy ===== *)
theory Sensors
  imports Pipeline Bmp280 Ads1x15 Hc12
begin

text \<open>
  The measuring threads: what they register of themselves (\<^verbatim>\<open>threads/hwListThread.h\<close>), the block with
  which each of them sends its values, and the rounds of \<^verbatim>\<open>threads/bmp280Thread.c\<close> and
  \<^verbatim>\<open>threads/powerThread.c\<close> over the drivers, the float arithmetic, the message pipeline and the radio.

  The lemmas show that sending is a run of the pipeline; the theorems follow a reading of the chip to the
  values a receiver decodes.
\<close>

section \<open>The code\<close>

datatype hwType_e = VALUE_TYPE_SENSOR | VALUE_TYPE_TRANSMITTER
datatype hwStatus_e = HW_STATUS_UNKNOWN | HW_STATUS_OK | HW_STATUS_ERROR
datatype valueFormatter_e = VALUE_FORMATTER_NONE | VALUE_FORMATTER_100 | VALUE_FORMATTER_100_P100 | VALUE_FORMATTER_BOOL

record sensorValue_t =
  sv_value :: u32
  sv_formatter :: valueFormatter_e
  sv_name :: "string option"

record hw_t =
  hw_id :: u32
  hw_name :: "string option"
  hw_status :: hwStatus_e
  hw_type :: hwType_e
  hw_values :: "sensorValue_t list"

definition HW_LIST_VALUES_SIZE :: nat where "HW_LIST_VALUES_SIZE = 10"

text \<open>Static storage is zero when the threads start.\<close>

definition hw_zero :: hw_t where
  "hw_zero = \<lparr>hw_id = 0, hw_name = None, hw_status = HW_STATUS_UNKNOWN, hw_type = VALUE_TYPE_SENSOR,
     hw_values = replicate HW_LIST_VALUES_SIZE \<lparr>sv_value = 0, sv_formatter = VALUE_FORMATTER_NONE, sv_name = None\<rparr>\<rparr>"

text \<open>\<^verbatim>\<open>hw.values[i].value = v\<close>, and the naming of a value at registration.\<close>

definition set_value :: "nat \<Rightarrow> u32 \<Rightarrow> hw_t \<Rightarrow> hw_t" where
  "set_value i v hw = hw\<lparr>hw_values := (hw_values hw)[i := (hw_values hw ! i)\<lparr>sv_value := v\<rparr>]\<rparr>"

definition name_value :: "nat \<Rightarrow> valueFormatter_e \<Rightarrow> string \<Rightarrow> hw_t \<Rightarrow> hw_t" where
  "name_value i f n hw = hw\<lparr>hw_values := (hw_values hw)[i := (hw_values hw ! i)\<lparr>sv_formatter := f, sv_name := Some n\<rparr>]\<rparr>"

text \<open>
  The block that ends the measuring of every thread: an object of the pool, the frame, the post.  The log
  \<open>posted\<close> of the pipeline is kept up to date.
\<close>

definition send_frame :: "tid \<Rightarrow> u8 \<Rightarrow> u32 list \<Rightarrow> pipe \<Rightarrow> pipe option" where
  "send_frame self cmd streamBuff s = do {
     (a, p) \<leftarrow> chPoolAlloc (stream_pool s);
     let s = s\<lparr>stream_pool := p\<rparr>;
     if a = 0 then Some s
     else do {
       obj \<leftarrow> MSP__createMspFrame (obj_at (stream_pool s) a) cmd (word_of_nat (length streamBuff)) streamBuff;
       let s = s\<lparr>stream_pool := store_obj (stream_pool s) a obj\<rparr>;
       (case chMBPostTimeout self (streamMail s) a TIME_IMMEDIATE of
          Some (Return _ mb _) \<Rightarrow>
            Some (s\<lparr>streamMail := mb, posted := posted s @ [obj_payload (obj_at (stream_pool s) a)]\<rparr>)
        | _ \<Rightarrow> None) } }"

text \<open>What the receiving side of \<^verbatim>\<open>chMsgSend\<close> does with the message: \<^verbatim>\<open>interval = (uint16_t)chMsgGet(tp)\<close>.\<close>

definition load_interval :: "u32 \<Rightarrow> u16" where "load_interval msg = ucast msg"

subsection \<open>Temperature, humidity, pressure\<close>

definition BMP280_TEMP :: nat where "BMP280_TEMP = 0"
definition BMP280_HUM :: nat where "BMP280_HUM = 1"
definition BMP280_PRESSURE :: nat where "BMP280_PRESSURE = 2"

text \<open>\<open>bmp_pin\<close> is the level of the enable line, \<open>None\<close> for \<^verbatim>\<open>LINE_NO_PIN\<close>.\<close>

record bmp_thread =
  BMP280_dev :: BMP280_HandleTypedef
  bmp_hwId :: u32
  bmp_interval :: u16
  bmp_pin :: "bool option"
  bmp280HW :: hw_t

definition BMP280_read_float ::
    "'w i2c_env \<Rightarrow> (nat \<Rightarrow> systime_t) \<Rightarrow> systime_t \<Rightarrow> 'w I2CDriver \<Rightarrow> BMP280_HandleTypedef \<Rightarrow>
     (((rat \<times> rat \<times> rat) option \<times> BMP280_HandleTypedef) \<times> 'w I2CDriver) option" where
  "BMP280_read_float e clock start d dev = do {
     ((r, dev), d) \<leftarrow> BMP280_read_values e clock start d dev;
     Some ((map_option (\<lambda>(t, p, h). (flt (flt (of_int t) / 100), flt (flt (of_int (uint p)) / 256), flt (flt (of_int (uint h)) / 1024))) r,
            dev), d) }"

definition Bmp280__thread_init :: "u32 \<Rightarrow> u16 \<Rightarrow> bool option \<Rightarrow> bmp_thread \<Rightarrow> bmp_thread" where
  "Bmp280__thread_init hwId interval pin st = st\<lparr>
     BMP280_dev := (BMP280_dev st)\<lparr>bmp_addr := BMP280_I2C_ADDRESS_1,
       params := BMP280_init_default_params (params (BMP280_dev st))\<rparr>,
     bmp_hwId := hwId, bmp_interval := interval, bmp_pin := pin\<rparr>"

definition bmp_reinit :: "'w i2c_env \<Rightarrow> bmp_thread \<Rightarrow> 'w I2CDriver \<Rightarrow> (bool \<times> bmp_thread \<times> 'w I2CDriver) option" where
  "bmp_reinit e st d = do {
     ((ok, dev), d) \<leftarrow> BMP280_init e d (BMP280_dev st);
     Some (ok, st\<lparr>BMP280_dev := dev\<rparr>, d) }"

definition Bmp280__thread_deviceStart :: "'w i2c_env \<Rightarrow> bmp_thread \<Rightarrow> 'w I2CDriver \<Rightarrow> (bmp_thread \<times> 'w I2CDriver) option" where
  "Bmp280__thread_deviceStart e st d =
     (if bmp_pin st = Some False then do {
        (_, st, d) \<leftarrow> bmp_reinit e (st\<lparr>bmp_pin := Some True\<rparr>) d;
        Some (st, d) }
      else Some (st, d))"

definition Bmp280__thread_deviceStop :: "bmp_thread \<Rightarrow> bmp_thread" where
  "Bmp280__thread_deviceStop st = (if bmp_pin st = Some True then st\<lparr>bmp_pin := Some False\<rparr> else st)"

text \<open>The registration of the hardware, and one round of the loop up to the wait for a message.\<close>

definition Bmp280Thread_register :: "'w i2c_env \<Rightarrow> bmp_thread \<Rightarrow> 'w I2CDriver \<Rightarrow> (bmp_thread \<times> 'w I2CDriver) option" where
  "Bmp280Thread_register e st d = do {
     (st, d) \<leftarrow> Bmp280__thread_deviceStart e st d;
     let hw = (bmp280HW st)\<lparr>hw_id := bmp_hwId st, hw_type := VALUE_TYPE_SENSOR, hw_name := Some ''BMP280''\<rparr>;
     (ok, st, d) \<leftarrow> bmp_reinit e st d;
     let hw = hw\<lparr>hw_status := if ok then HW_STATUS_OK else HW_STATUS_ERROR\<rparr>;
     let hw = name_value BMP280_TEMP VALUE_FORMATTER_100_P100 ''Tempeature'' hw;
     let hw = name_value BMP280_HUM VALUE_FORMATTER_NONE ''Humidity'' hw;
     let hw = name_value BMP280_PRESSURE VALUE_FORMATTER_NONE ''Pressure'' hw;
     Some (Bmp280__thread_deviceStop (st\<lparr>bmp280HW := hw\<rparr>), d) }"

definition Bmp280Thread_round ::
    "'w i2c_env \<Rightarrow> (nat \<Rightarrow> systime_t) \<Rightarrow> systime_t \<Rightarrow> tid \<Rightarrow> bmp_thread \<Rightarrow> 'w I2CDriver \<Rightarrow> pipe \<Rightarrow>
     (bmp_thread \<times> 'w I2CDriver \<times> pipe) option" where
  "Bmp280Thread_round e clock start self st d s = do {
     (st, d) \<leftarrow> Bmp280__thread_deviceStart e st d;
     (st, d) \<leftarrow> (if hw_status (bmp280HW st) = HW_STATUS_ERROR
                then do { (_, st, d) \<leftarrow> bmp_reinit e st d; Some (st, d) } else Some (st, d));
     ((r, dev), d) \<leftarrow> BMP280_read_float e clock start d (BMP280_dev st);
     let st = st\<lparr>BMP280_dev := dev\<rparr>;
     (st, s) \<leftarrow> (case r of
         None \<Rightarrow> Some (st\<lparr>bmp280HW := (bmp280HW st)\<lparr>hw_status := HW_STATUS_ERROR\<rparr>\<rparr>, s)
       | Some (temperature, pressure, humidity) \<Rightarrow> do {
           v0 \<leftarrow> to_u32 (flt (flt (temperature + 100) * 100));
           v1 \<leftarrow> to_u32 humidity;
           v2 \<leftarrow> to_u32 (flt (pressure / 100));
           let hw = set_value BMP280_PRESSURE v2 (set_value BMP280_HUM v1 (set_value BMP280_TEMP v0 (bmp280HW st)));
           let hw = hw\<lparr>hw_status := HW_STATUS_OK\<rparr>;
           s \<leftarrow> send_frame self (ucast (hw_id hw)) [v0, v1, v2] s;
           Some (st\<lparr>bmp280HW := hw\<rparr>, s) });
     Some (Bmp280__thread_deviceStop st, d, s) }"

subsection \<open>Voltages\<close>

definition POWER_VOLTAGE_SOLAR :: nat where "POWER_VOLTAGE_SOLAR = 0"
definition POWER_VOLTAGE_BATT :: nat where "POWER_VOLTAGE_BATT = 1"
definition POWER_CHRG_STATUS :: nat where "POWER_CHRG_STATUS = 2"
definition POWER_STDBY_STATUS :: nat where "POWER_STDBY_STATUS = 3"

definition ADS1X15_INVALID_VOLTAGE :: rat where "ADS1X15_INVALID_VOLTAGE = - 100"

definition ADS__getMaxVoltage :: "ADS1X15_device_t \<Rightarrow> rat" where
  "ADS__getMaxVoltage dev =
     (if gain dev = ADS1X15_PGA_6_144V then flt 6.144
      else if gain dev = ADS1X15_PGA_4_096V then flt 4.096
      else if gain dev = ADS1X15_PGA_2_048V then flt 2.048
      else if gain dev = ADS1X15_PGA_1_024V then flt 1.024
      else if gain dev = ADS1X15_PGA_0_512V then flt 0.512
      else if gain dev = ADS1X15_PGA_0_256V then flt 0.256
      else ADS1X15_INVALID_VOLTAGE)"

definition ADS__toVoltage :: "ADS1X15_device_t \<Rightarrow> u16 \<Rightarrow> rat" where
  "ADS__toVoltage dev val =
     (if val = 0 then 0
      else let volts = ADS__getMaxVoltage dev in
        if volts < 0 then volts else flt (flt (volts * flt (of_int (uint val))) / 32767))"

text \<open>\<open>chrg_line\<close> and \<open>stdby_line\<close> are the levels of the two lines of the charger.\<close>

record power_thread =
  adcDev :: ADS1X15_device_t
  power_hwId :: u32
  power_interval :: u16
  powerHW :: hw_t
  battAdcValue :: u16
  solarAdcValue :: u16

definition power_reinit ::
    "'w i2c_env \<Rightarrow> systime_t \<Rightarrow> systime_t \<Rightarrow> power_thread \<Rightarrow> 'w I2CDriver \<Rightarrow> (bool \<times> power_thread \<times> 'w I2CDriver) option" where
  "power_reinit e t0 t1 st d = do {
     ((ok, dev), d) \<leftarrow> ADS__init e t0 t1 d (adcDev st);
     Some (ok, st\<lparr>adcDev := dev\<rparr>, d) }"

definition powerThread_register ::
    "'w i2c_env \<Rightarrow> systime_t \<Rightarrow> systime_t \<Rightarrow> power_thread \<Rightarrow> 'w I2CDriver \<Rightarrow> (power_thread \<times> 'w I2CDriver) option" where
  "powerThread_register e t0 t1 st d = do {
     let hw = (powerHW st)\<lparr>hw_id := power_hwId st, hw_type := VALUE_TYPE_SENSOR, hw_name := Some ''Power''\<rparr>;
     (ok, st, d) \<leftarrow> power_reinit e t0 t1 st d;
     let hw = hw\<lparr>hw_status := if ok then HW_STATUS_OK else HW_STATUS_ERROR\<rparr>;
     let hw = name_value POWER_VOLTAGE_SOLAR VALUE_FORMATTER_100 ''Voltage SOLAR'' hw;
     let hw = name_value POWER_VOLTAGE_BATT VALUE_FORMATTER_100 ''Voltage BATT'' hw;
     let hw = name_value POWER_CHRG_STATUS VALUE_FORMATTER_BOOL ''Chrg'' hw;
     let hw = name_value POWER_STDBY_STATUS VALUE_FORMATTER_BOOL ''Stdby'' hw;
     Some (st\<lparr>powerHW := hw\<rparr>, d) }"

text \<open>The two readings; the second only if the first succeeded.  The static variables keep their
  values when a reading fails.\<close>

definition power_read ::
    "'w i2c_env \<Rightarrow> systime_t \<Rightarrow> systime_t \<Rightarrow> power_thread \<Rightarrow> 'w I2CDriver \<Rightarrow> (bool \<times> power_thread \<times> 'w I2CDriver) option" where
  "power_read e t0 t1 st d = do {
     ((ok, v, dev), d) \<leftarrow> ADS__readADC_Differential_0_1 e t0 t1 d (adcDev st);
     let st = st\<lparr>adcDev := dev, battAdcValue := case v of None \<Rightarrow> battAdcValue st | Some v \<Rightarrow> v\<rparr>;
     if \<not> ok then Some (False, st, d)
     else do {
       ((ok, v, dev), d) \<leftarrow> ADS__readADC e t0 t1 d (adcDev st) 2;
       Some (ok, st\<lparr>adcDev := dev, solarAdcValue := case v of None \<Rightarrow> solarAdcValue st | Some v \<Rightarrow> v\<rparr>, d) } }"

text \<open>The four values: \<^verbatim>\<open>POWER_SOLAR_VOLTAGE_SCALE\<close> is a \<^verbatim>\<open>double\<close>, the battery is computed in \<^verbatim>\<open>float\<close>.\<close>

definition power_values :: "bool \<Rightarrow> bool \<Rightarrow> power_thread \<Rightarrow> u32 list option" where
  "power_values chrg_line stdby_line st = do {
     v0 \<leftarrow> to_u32 (dbl (dbl (ADS__toVoltage (adcDev st) (solarAdcValue st) * 3.25) * 100));
     v1 \<leftarrow> to_u32 (flt (ADS__toVoltage (adcDev st) (battAdcValue st) * 100));
     Some [v0, v1, if chrg_line then 0 else 1, if stdby_line then 0 else 1] }"

text \<open>One round of the loop; \<open>False\<close> is the \<^verbatim>\<open>continue\<close> when the radio could not be switched off.\<close>

definition powerThread_round ::
    "'w i2c_env \<Rightarrow> 'c radio_env \<Rightarrow> systime_t \<Rightarrow> systime_t \<Rightarrow> bool \<Rightarrow> bool \<Rightarrow> tid \<Rightarrow>
     power_thread \<Rightarrow> 'w I2CDriver \<Rightarrow> 'c hc12State_t \<Rightarrow> pipe \<Rightarrow>
     (bool \<times> power_thread \<times> 'w I2CDriver \<times> 'c hc12State_t \<times> pipe) option" where
  "powerThread_round e r t0 t1 chrg_line stdby_line self st d h s = do {
     (st, d) \<leftarrow> (if hw_status (powerHW st) = HW_STATUS_ERROR
                then do { (_, st, d) \<leftarrow> power_reinit e t0 t1 st d; Some (st, d) } else Some (st, d));
     (off, h) \<leftarrow> HC12__tunrOffRadio r self h;
     if \<not> off then Some (False, st, d, h, s)
     else do {
       h \<leftarrow> HC12__tunrOnRadio r h;
       (ok, st, d) \<leftarrow> power_read e t0 t1 st d;
       if \<not> ok then Some (True, st\<lparr>powerHW := (powerHW st)\<lparr>hw_status := HW_STATUS_ERROR\<rparr>\<rparr>, d, h, s)
       else do {
         vs \<leftarrow> power_values chrg_line stdby_line st;
         let hw = fold (\<lambda>i. set_value i (vs ! i)) [POWER_VOLTAGE_SOLAR, POWER_VOLTAGE_BATT, POWER_CHRG_STATUS, POWER_STDBY_STATUS] (powerHW st);
         let hw = hw\<lparr>hw_status := HW_STATUS_OK\<rparr>;
         s \<leftarrow> send_frame self (ucast (hw_id hw)) vs s;
         Some (True, st\<lparr>powerHW := hw\<rparr>, d, h, s) } } }"

section \<open>Sending\<close>

text \<open>The block is three steps of the pipeline, and what it posts is the frame of the values.\<close>

lemma send_frame_ok:
  assumes inv: "pipe_inv objs s fs" and self: "self \<notin> fst ` set (held s)" and n: "length vs \<le> 4"
  shows "\<exists>s'. send_frame self cmd vs s = Some s' \<and> pipe_step\<^sup>*\<^sup>* s s' \<and> held s' = held s \<and>
    posted s' = (if fs = [] then posted s else posted s @ [msp_frame cmd vs])"
proof -
  have pinv: "pool_inv objs (stream_pool s) fs" using inv by (simp add: pipe_inv_def)
  show ?thesis
  proof (cases fs)
    case Nil
    then have "chPoolAlloc (stream_pool s) = Some (0, stream_pool s)" using pinv alloc_empty by simp
    then have "send_frame self cmd vs s = Some s" by (simp add: send_frame_def)
    then show ?thesis using Nil by auto
  next
    case (Cons a fs')
    from pinv obtain p where p: "chPoolAlloc (stream_pool s) = Some (a, p)" "a \<noteq> 0"
      by (cases rule: mpool.alloc_cases) (use Cons in auto)
    define s1 where "s1 = s\<lparr>stream_pool := p, held := (self, a) # held s\<rparr>"
    have st1: "pipe_step s s1" unfolding s1_def using p self by (rule pipe_step.alloc)
    obtain fs1 where inv1: "pipe_inv objs s1 fs1" using pipe_step_inv [OF st1 inv] by blast
    have h1: "(self, a) \<in> set (held s1)" by (simp add: s1_def)
    have so: "stream_object (obj_at p a)" by (simp add: stream_object_def object_bytes_def)
    obtain obj where obj: "MSP__createMspFrame (obj_at p a) cmd (word_of_nat (length vs)) vs = Some obj"
        "length obj = object_bytes" "obj_payload obj = msp_frame cmd vs"
      using createMspFrame_object [OF so n, of cmd] by (auto simp: stream_object_def object_bytes_def)
    define s2 where "s2 = s1\<lparr>stream_pool := store_obj p a obj\<rparr>"
    have st2: "pipe_step s1 s2"
      using pipe_step.fill [OF h1, of cmd "word_of_nat (length vs)" vs obj] obj(1) by (simp add: s1_def s2_def)
    obtain fs2 where inv2: "pipe_inv objs s2 fs2" using pipe_step_inv [OF st2 inv1] by blast
    have h2: "(self, a) \<in> set (held s2)" by (simp add: s1_def s2_def)
    obtain mb w where mb: "chMBPostTimeout self (streamMail s2) a TIME_IMMEDIATE = Some (Return MSG_OK mb w)"
      using post_returns_ok [OF inv2 h2] by metis
    have pay: "obj_payload (obj_at (store_obj p a obj) a) = msp_frame cmd vs"
      using obj read_write_mem [of "mem p" a obj] by (simp add: obj_at_def store_obj_def)
    have st3: "pipe_step s2 (s2\<lparr>streamMail := mb, held := held s, posted := posted s @ [msp_frame cmd vs]\<rparr>)" (is "pipe_step s2 ?s3")
      using pipe_step.post [OF h2 mb] pay by (simp add: s1_def s2_def)
    have "pipe_step\<^sup>*\<^sup>* s ?s3" using st1 st2 st3 by (meson converse_rtranclp_into_rtranclp r_into_rtranclp)
    moreover have "send_frame self cmd vs s = Some ?s3"
      using p obj(1) mb pay by (simp add: send_frame_def s1_def s2_def Let_def)
    ultimately show ?thesis using Cons by auto
  qed
qed

text \<open>Seen from both ends of the pipeline: the receiver decodes what was sent, unless no object was free.\<close>

lemma send_frame_received:
  assumes "base \<noteq> 0" "4 dvd base" "base + 120 \<le> 2 ^ 32" "shared_pools_init m base = Some p0" "pipe_step\<^sup>*\<^sup>* (pipe_init p0) s"
    and "self \<notin> fst ` set (held s)" "length vs \<le> 4"
  shows "\<exists>s'. send_frame self cmd vs s = Some s' \<and> pipe_step\<^sup>*\<^sup>* s s' \<and>
    (chPoolAlloc (stream_pool s) = Some (0, stream_pool s) \<and> posted s' = posted s \<or>
     (\<exists>f. posted s' = posted s @ [f] \<and> msp_receive f = Some (cmd, vs)))"
proof -
  obtain fs where inv: "pipe_inv (set (array_objs base object_bytes STREAM_TX_POOL_SIZE)) s fs"
    using reachable_inv [OF assms(1-5)] .
  obtain s' where "send_frame self cmd vs s = Some s'" "pipe_step\<^sup>*\<^sup>* s s'"
      "posted s' = (if fs = [] then posted s else posted s @ [msp_frame cmd vs])"
    using send_frame_ok [OF inv assms(6,7)] by blast
  then show ?thesis
    using inv alloc_empty msp_receive_frame [OF assms(7)] by (cases "fs = []") (auto simp: pipe_inv_def)
qed

section \<open>The arithmetic of the values\<close>

lemma temperature_code:
  assumes "- 4000 \<le> t" "t \<le> 8500"
  shows "\<exists>v. to_u32 (flt (flt (flt (flt (of_int t) / 100) + 100) * 100)) = Some v \<and> uint v \<in> {t + 9999, t + 10000}"
proof -
  define x where "x = flt (of_int t / 100)"
  define y where "y = flt (x + 100)"
  have t: "- 40 \<le> (of_int t / 100 :: rat)" "(of_int t / 100 :: rat) \<le> 85" using assms by (simp_all add: field_simps)
  have x: "\<bar>x - of_int t / 100\<bar> \<le> 1 / 65536" unfolding x_def by (rule flt_upto [of 85]) (use t in linarith, use t in linarith, simp)
  have y: "\<bar>y - (x + 100)\<bar> \<le> 1 / 65536" unfolding y_def by (rule flt_upto [of 186]) (use t x in linarith, use t x in linarith, simp)
  have z: "\<bar>flt (y * 100) - y * 100\<bar> \<le> 1 / 512" by (rule flt_upto [of 18600]) (use t x y in linarith, use t x y in linarith, simp)
  have "\<bar>flt (y * 100) - of_int (t + 10000)\<bar> \<le> 1 / 100" unfolding of_int_add of_int_numeral using x y z by linarith
  then obtain v where v: "to_u32 (flt (y * 100)) = Some v" "of_int (t + 10000) - 1 - 1/100 < (of_int (uint v) :: rat)"
      "(of_int (uint v) :: rat) \<le> of_int (t + 10000) + 1/100"
    using to_u32_near [of "flt (y * 100)" "of_int (t + 10000)" "1/100"] assms by auto
  then have "t + 10000 - 2 < uint v" "uint v < t + 10000 + 1" by linarith+
  then show ?thesis using v(1) assms unfolding x_def y_def by (subst flt_int) auto
qed

lemma pressure_code:
  "\<exists>v. to_u32 (flt (flt (flt (of_int (uint (p :: u32))) / 256) / 100)) = Some v \<and>
     of_int (uint p) / 25600 - 26/25 < (of_int (uint v) :: rat) \<and> (of_int (uint v) :: rat) \<le> of_int (uint p) / 25600 + 1/25"
proof -
  define P :: rat where "P = of_int (uint p)"
  define x where "x = flt P"
  define y where "y = flt (x / 256)"
  have "uint p < 2 ^ LENGTH(32)" by (rule unsigned_less)
  then have "P < of_int 4294967296" unfolding P_def of_int_less_iff by simp
  then have P: "0 \<le> P" "P < 4294967296" by (simp_all add: P_def del: of_int_uint)
  have x: "\<bar>x - P\<bar> \<le> 257" unfolding x_def by (rule flt_upto [of 4294967296]) (use P in linarith, use P in linarith, simp)
  have y: "\<bar>y - x / 256\<bar> \<le> 3/2" unfolding y_def by (rule flt_upto [of 16777220]) (use P x in linarith, use P x in linarith, simp)
  have z: "\<bar>flt (y / 100) - y / 100\<bar> \<le> 1 / 90" by (rule flt_upto [of 167773]) (use P x y in linarith, use P x y in linarith, simp)
  have "\<bar>flt (y / 100) - P / 25600\<bar> \<le> 1 / 25" using x y z by linarith
  from to_u32_near [OF this] P show ?thesis by (simp add: x_def y_def P_def del: of_int_uint)
qed

lemma humidity_code:
  "\<exists>v. to_u32 (flt (flt (of_int (uint (h :: u32))) / 1024)) = Some v \<and>
     of_int (uint h) / 1024 - 8/5 < (of_int (uint v) :: rat) \<and> (of_int (uint v) :: rat) \<le> of_int (uint h) / 1024 + 3/5"
proof -
  define P :: rat where "P = of_int (uint h)"
  define x where "x = flt P"
  have "uint h < 2 ^ LENGTH(32)" by (rule unsigned_less)
  then have "P < of_int 4294967296" unfolding P_def of_int_less_iff by simp
  then have P: "0 \<le> P" "P < 4294967296" by (simp_all add: P_def del: of_int_uint)
  have x: "\<bar>x - P\<bar> \<le> 257" unfolding x_def by (rule flt_upto [of 4294967296]) (use P in linarith, use P in linarith, simp)
  have y: "\<bar>flt (x / 1024) - x / 1024\<bar> \<le> 3/10" by (rule flt_upto [of 4194305]) (use P x in linarith, use P x in linarith, simp)
  have "\<bar>flt (x / 1024) - P / 1024\<bar> \<le> 3 / 5" using x y by linarith
  from to_u32_near [OF this] P show ?thesis by (simp add: x_def P_def del: of_int_uint)
qed

lemma voltage_near:
  assumes "gain dev = ADS1X15_PGA_6_144V"
  shows "\<bar>ADS__toVoltage dev val - 768 / 125 * of_int (uint val) / 32767\<bar> \<le> 1 / 100000"
proof (cases "val = 0")
  case False
  define n :: rat where "n = of_int (uint val)"
  define volts :: rat where "volts = flt (768 / 125)"
  define x where "x = flt (volts * n)"
  have u: "uint val < 2 ^ LENGTH(16)" by (rule unsigned_less)
  then have "n \<le> of_int 65535" unfolding n_def of_int_le_iff by simp
  moreover have "flt n = n" unfolding n_def by (rule flt_int) (use u in simp)
  ultimately have n: "0 \<le> n" "n \<le> 65535" "flt n = n" by (simp_all add: n_def del: of_int_uint)
  have v: "\<bar>volts - 768 / 125\<bar> \<le> 1 / 2000000" unfolding volts_def by (rule flt_upto [of 7]) (simp, simp, simp)
  then have vpos: "\<not> volts < 0" by linarith
  have "\<bar>(volts - 768 / 125) * n\<bar> \<le> 1 / 2000000 * 65535"
    unfolding abs_mult using v n by (intro mult_mono) auto
  then have vn: "\<bar>volts * n - 768 / 125 * n\<bar> \<le> 1 / 30" by (simp add: left_diff_distrib)
  have cn: "0 \<le> 768 / 125 * n" "768 / 125 * n \<le> 402648" using n by simp_all
  have x: "\<bar>x - volts * n\<bar> \<le> 1 / 40" unfolding x_def by (rule flt_upto [of 402700]) (use vn cn in linarith, use vn cn in linarith, simp)
  have V: "\<bar>flt (x / 32767) - x / 32767\<bar> \<le> 1 / 1000000" by (rule flt_upto [of 13]) (use vn x cn in linarith, use vn x cn in linarith, simp)
  have "ADS__toVoltage dev val = flt (x / 32767)"
    using False assms vpos n(3) by (simp add: ADS__toVoltage_def ADS__getMaxVoltage_def Let_def x_def volts_def n_def del: of_int_uint)
  then show ?thesis unfolding n_def [symmetric] using V x vn by linarith
qed (simp add: ADS__toVoltage_def)

section \<open>From the chip to the receiver\<close>

lemma adc20_range: "0 \<le> adc20 a b c \<and> adc20 a b c < 2 ^ 20"
proof -
  define w :: u32 where "w = push_bit 12 (ucast a) OR push_bit 4 (ucast b) OR ucast (drop_bit 4 c)"
  have "take_bit 20 w = w"
    unfolding w_def by (rule bit_word_eqI) (auto simp: bit_simps dest: bit_imp_le_length)
  then have "uint w = take_bit 20 (uint w)" by (metis unsigned_take_bit_eq)
  also have "\<dots> < 2 ^ 20" by (rule take_bit_int_less_exp)
  finally show ?thesis by (simp add: adc20_def w_def [symmetric])
qed

text \<open>The temperature of a successful measurement is the compensated reading of the three registers.\<close>

definition raw_temperature :: "BMP280_HandleTypedef \<Rightarrow> int" where
  "raw_temperature dev = adc20 (data_buff dev ! 3) (data_buff dev ! 4) (data_buff dev ! 5)"

lemma read_fixed_temperature:
  assumes "BMP280_read_fixed e d dev = Some ((Some (t, p, h), dev'), d')"
  shows "\<exists>fine. BMP280_compensate_temperature dev' (raw_temperature dev') = Some (t, fine)"
  using assms by (auto simp: BMP280_read_fixed_def raw_temperature_def Let_def split: bind_splits if_splits)

lemma read_values_temperature:
  assumes "BMP280_read_values e clock start d dev = Some ((Some (t, p, h), dev'), d')"
  shows "\<exists>fine. BMP280_compensate_temperature dev' (raw_temperature dev') = Some (t, fine)"
proof -
  have "\<exists>d1. BMP280_read_fixed e d1 dev = Some ((Some (t, p, h), dev'), d')"
    using assms unfolding BMP280_read_values_def by (auto split: bind_splits if_splits) (rule exI, assumption)
  then show ?thesis using read_fixed_temperature by blast
qed

lemma set_value_simps [simp]:
  "hw_id (set_value i v hw) = hw_id hw" "hw_status (set_value i v hw) = hw_status hw"
  "length (hw_values (set_value i v hw)) = length (hw_values hw)"
  by (simp_all add: set_value_def)

lemma deviceStop_hw [simp]: "bmp280HW (Bmp280__thread_deviceStop st) = bmp280HW st"
  by (simp add: Bmp280__thread_deviceStop_def)


text \<open>A chip with the calibration and the readings of the datasheet's example, for the witnesses.\<close>

definition sim_bus :: "unit i2c_env" where
  "sim_bus = \<lparr>lld_transmit = \<lambda>w _ tx rx _. (MSG_OK, [0x65, 0x5A, 0xC0, 0x7E, 0xED, 0x00], w),
     lld_receive = \<lambda>w _ rx _. (MSG_OK, rx, w), lld_start = id, lld_stop = id, others = id, peek_state = i2c_state\<rparr>"

definition sim_driver :: "unit I2CDriver" where
  "sim_driver = \<lparr>i2c_state = I2C_READY, i2c_config = Some 1, i2c_errors = 0, i2c_mutex = False, world = ()\<rparr>"

definition sim_chip :: "BMP280_HandleTypedef \<Rightarrow> BMP280_HandleTypedef" where
  "sim_chip dev = dev\<lparr>dig_T1 := 27504, dig_T2 := 26435, dig_T3 := - 1000, dig_P1 := 36477, dig_P2 := - 10685,
     dig_P3 := 3024, dig_P4 := 2855, dig_P5 := 140, dig_P6 := - 7, dig_P7 := 15500, dig_P8 := - 14600, dig_P9 := 6000,
     chip_id := BMP280_CHIP_ID, params := (params dev)\<lparr>bmp_mode := BMP280_MODE_NORMAL\<rparr>\<rparr>"

lemma sim_measurement:
  "\<exists>d2. BMP280_read_values sim_bus clock start sim_driver (sim_chip dev\<lparr>data_buff := replicate 8 0\<rparr>) =
     Some ((Some (2508, 25767233, 0), sim_chip dev\<lparr>data_buff := [0x65, 0x5A, 0xC0, 0x7E, 0xED, 0] @ replicate 2 0\<rparr>), d2)"
  by (simp add: BMP280_read_values_def BMP280_read_fixed_def BMP280_read_data_def sim_chip_def sim_bus_def sim_driver_def
      i2cAcquireBus_def checkI2CCondition_def i2cMasterTransmitTimeout_def i2cReleaseBus_def Let_def TIME_MS2I_def
      BMP280_CHIP_ID_def BME280_CHIP_ID_def adc20_def BMP280_compensate_temperature_def BMP280_compensate_pressure_def
      i32_def i64_def cdiv_def CH_CFG_ST_FREQUENCY_def TIME_IMMEDIATE_def)

definition sim_thread :: "BMP280_HandleTypedef \<Rightarrow> bmp_thread" where
  "sim_thread dev = \<lparr>BMP280_dev = sim_chip dev\<lparr>data_buff := replicate 8 0\<rparr>, bmp_hwId = 1, bmp_interval = 300, bmp_pin = None,
     bmp280HW = hw_zero\<lparr>hw_id := 1\<rparr>\<rparr>"

lemma first_object:
  obtains p0 a q where "shared_pools_init (\<lambda>_. 0) 4096 = Some p0" "chPoolAlloc p0 = Some (a, q)" "a \<noteq> 0"
proof -
  let ?l = "array_objs 4096 object_bytes STREAM_TX_POOL_SIZE"
  obtain p0 where p0: "shared_pools_init (\<lambda>_. 0) 4096 = Some p0" "pipe_inv (set ?l) (pipe_init p0) (rev ?l)"
    by (rule pipe_init_inv [of 4096 "\<lambda>_. 0"]) simp_all
  have "pool_inv (set ?l) p0 (rev ?l)" using p0(2) by (simp add: pipe_inv_def pipe_init_def)
  then obtain a q where "chPoolAlloc p0 = Some (a, q)" "a \<noteq> 0"
    by (cases rule: mpool.alloc_cases) (auto simp: array_objs_def STREAM_TX_POOL_SIZE_def)
  with p0(1) show ?thesis by (rule that)
qed


section \<open>From the converter to the receiver\<close>

lemma centivolts:
  assumes "gain dev = ADS1X15_PGA_6_144V"
  shows "\<exists>v. to_u32 (flt (ADS__toVoltage dev val * 100)) = Some v \<and>
    \<bar>rat_of_int (uint v) - 3072/5 * of_int (uint val) / 32767\<bar> \<le> 101/100"
proof -
  define n :: rat where "n = of_int (uint val)"
  have u: "uint val < 2 ^ LENGTH(16)" by (rule unsigned_less)
  then have "n \<le> of_int 65535" unfolding n_def of_int_le_iff by simp
  then have n: "0 \<le> n" "n \<le> 65535" by (simp_all add: n_def del: of_int_uint)
  define V where "V = ADS__toVoltage dev val"
  define y where "y = 3072/5 * n / 32767"
  have y: "0 \<le> y" "y \<le> 1229" using n by (simp_all add: y_def field_simps)
  have V: "\<bar>V * 100 - y\<bar> \<le> 1 / 1000" using voltage_near [OF assms, of val] unfolding V_def y_def n_def [symmetric] by linarith
  have "\<bar>flt (V * 100) - V * 100\<bar> \<le> 1 / 1000"
    by (rule flt_upto [of 1230]) (use V y in linarith, use V y in linarith, simp)
  then have "\<bar>flt (V * 100) - y\<bar> \<le> 1/100" using V by linarith
  then obtain v where "to_u32 (flt (V * 100)) = Some v" "y - 1 - 1/100 < rat_of_int (uint v)" "rat_of_int (uint v) \<le> y + 1/100"
    using to_u32_near [of "flt (V * 100)" y "1/100"] y by auto
  moreover from this have "\<bar>rat_of_int (uint v) - y\<bar> \<le> 101/100" by linarith
  ultimately show ?thesis unfolding V_def y_def n_def by blast
qed

lemma scaled_centivolts:
  assumes "gain dev = ADS1X15_PGA_6_144V"
  shows "\<exists>v. to_u32 (dbl (dbl (ADS__toVoltage dev val * 3.25) * 100)) = Some v \<and>
    \<bar>rat_of_int (uint v) - 9984/5 * of_int (uint val) / 32767\<bar> \<le> 101/100"
proof -
  define n :: rat where "n = of_int (uint val)"
  have u: "uint val < 2 ^ LENGTH(16)" by (rule unsigned_less)
  then have "n \<le> of_int 65535" unfolding n_def of_int_le_iff by simp
  then have n: "0 \<le> n" "n \<le> 65535" by (simp_all add: n_def del: of_int_uint)
  define V where "V = ADS__toVoltage dev val"
  define x where "x = dbl (V * (13 / 4))"
  define y where "y = 9984/5 * n / 32767"
  have y: "0 \<le> y" "y \<le> 3994" using n by (simp_all add: y_def field_simps)
  have V: "\<bar>V * (13 / 4) - y / 100\<bar> \<le> 1 / 20000" using voltage_near [OF assms, of val] unfolding V_def y_def n_def [symmetric] by linarith
  have x: "\<bar>x - V * (13 / 4)\<bar> \<le> 1 / 100000" unfolding x_def
    by (rule dbl_upto [of 40]) (use V y in linarith, use V y in linarith, simp)
  have "\<bar>dbl (x * 100) - x * 100\<bar> \<le> 1 / 100000"
    by (rule dbl_upto [of 4000]) (use V x y in linarith, use V x y in linarith, simp)
  then have "\<bar>dbl (x * 100) - y\<bar> \<le> 1/100" using V x by linarith
  then obtain v where "to_u32 (dbl (x * 100)) = Some v" "y - 1 - 1/100 < rat_of_int (uint v)" "rat_of_int (uint v) \<le> y + 1/100"
    using to_u32_near [of "dbl (x * 100)" y "1/100"] y by auto
  moreover from this have "\<bar>rat_of_int (uint v) - y\<bar> \<le> 101/100" by linarith
  moreover have "dbl (ADS__toVoltage dev val * 3.25) = x" by (simp add: x_def V_def)
  ultimately show ?thesis unfolding y_def n_def by metis
qed


lemma negative_reading:
  fixes w :: u16
  assumes "sint w < 0"
  shows "uint w = sint w + 65536 \<and> 32768 \<le> uint w"
proof -
  have r: "- 32768 \<le> sint w" using sint_ge [of w] by simp
  have "uint w = sint w mod 65536" by (simp add: Word.uint_sint take_bit_eq_mod)
  also have "\<dots> = (sint w + 65536) mod 65536" by simp
  also have "\<dots> = sint w + 65536" using r assms by (intro mod_pos_pos_trivial) auto
  finally show ?thesis using r by simp
qed

text \<open>
  C40.  A voltage just below zero is reported as one of more than six volts.  The converter's
  results are signed, but they are kept in an unsigned variable, so the value sent for a negative
  reading of the battery is at least 614 hundredths of a volt, and 1228 for the smallest one.
\<close>

theorem negative_voltage_reported:
  assumes "gain (adcDev st) = ADS1X15_PGA_6_144V" and "sint (battAdcValue st) < 0"
  shows "\<exists>v0 v1 c b. power_values chrg stdby st = Some [v0, v1, c, b] \<and> 614 \<le> uint v1 \<and>
    (sint (battAdcValue st) = - 1 \<longrightarrow> uint v1 \<in> {1227, 1228, 1229})"
proof -
  obtain v0 where v0: "to_u32 (dbl (dbl (ADS__toVoltage (adcDev st) (solarAdcValue st) * 3.25) * 100)) = Some v0"
    using scaled_centivolts [OF assms(1)] by blast
  obtain v1 where v1: "to_u32 (flt (ADS__toVoltage (adcDev st) (battAdcValue st) * 100)) = Some v1"
      "\<bar>rat_of_int (uint v1) - 3072/5 * of_int (uint (battAdcValue st)) / 32767\<bar> \<le> 101/100"
    using centivolts [OF assms(1)] by blast
  have u: "uint (battAdcValue st) = sint (battAdcValue st) + 65536" "32768 \<le> uint (battAdcValue st)"
    using negative_reading [OF assms(2)] by simp_all
  have "614 \<le> uint v1"
  proof -
    have "rat_of_int 32768 \<le> of_int (uint (battAdcValue st))" using u(2) by (simp only: of_int_le_iff)
    then have "(32768 :: rat) \<le> of_int (uint (battAdcValue st))" unfolding of_int_numeral .
    then have "(613 :: rat) < of_int (uint v1)" using v1(2) by linarith
    then have "613 < uint v1" by linarith
    then show ?thesis by simp
  qed
  moreover have "uint v1 \<in> {1227, 1228, 1229}" if "sint (battAdcValue st) = - 1"
  proof -
    have "uint (battAdcValue st) = 65535" using u(1) that by simp
    then have "\<bar>rat_of_int (uint v1) - 3072/5 * 65535 / 32767\<bar> \<le> 101/100" using v1(2) by simp
    then have "(1226 :: rat) < of_int (uint v1)" "of_int (uint v1) < (1230 :: rat)" by linarith+
    then have "1226 < uint v1" "uint v1 < 1230" by linarith+
    then show ?thesis by auto
  qed
  ultimately show ?thesis using v0 v1(1) by (simp add: power_values_def)
qed

definition sim_adc :: "unit i2c_env" where
  "sim_adc = sim_bus\<lparr>lld_transmit := \<lambda>w _ tx rx _. (MSG_OK, if rx = [] then [] else [0x40, 0x00], w)\<rparr>"

definition sim_power :: "power_thread \<Rightarrow> power_thread" where
  "sim_power st = st\<lparr>adcDev := (adcDev st)\<lparr>gain := ADS1X15_PGA_6_144V, ads_mode := ADS1X15_MODE_CONTINUE, bufferTx := [0, 0, 0], rx_static := [0, 0]\<rparr>,
     powerHW := hw_zero\<lparr>hw_id := 4\<rparr>\<rparr>"

definition sim_modem :: "(u8 list \<times> string list) hc12State_t \<Rightarrow> (u8 list \<times> string list) hc12State_t" where
  "sim_modem h = h\<lparr>status := HC12_STATUS_NOK, uart_bsem := \<lparr>sem_queue = [], sem_cnt = 1\<rparr>\<rparr>"

lemma sim_power_read: "\<exists>st1 d1. power_read sim_adc 0 0 (sim_power st) sim_driver = Some (True, st1, d1) \<and>
   gain (adcDev st1) = ADS1X15_PGA_6_144V \<and> battAdcValue st1 = 0x4000 \<and> solarAdcValue st1 = 0x4000 \<and> hw_id (powerHW st1) = 4"
  by (simp add: power_read_def ADS__readADC_Differential_0_1_def ADS__readADC_def ADS__readADCPriv_def ADS__requestADCPriv_def
      ADS__writeRegister_def ADS__getValue_def ADS__readRegister_def sim_adc_def sim_bus_def sim_power_def sim_driver_def
      i2cAcquireBus_def checkI2CCondition_def i2cMasterTransmitTimeout_def i2cReleaseBus_def Let_def
      TIME_IMMEDIATE_def add_1000 TIME_MS2I_id [of 500, simplified] TIME_MS2I_id [of 200, simplified] ads_consts hw_zero_def)

lemma sim_modem_free: "\<exists>h1 h2. HC12__tunrOffRadio sim_radio 1 (sim_modem h) = Some (True, h1) \<and> HC12__tunrOnRadio sim_radio h1 = Some h2"
  by (simp add: HC12__tunrOffRadio_def HC12__tunrOnRadio_def uart_wait_def uart_signal_def sim_modem_def HC12__thread_goToSleep_def
      HC12__thread_wakeUp_def chBSemWaitTimeout_def chSemWaitTimeout_def chSemWaitTimeoutS_def chBSemSignal_def chBSemSignalI_def
      chSemSignalI_def sem_up_def consistent_def Let_def)

theorem negative_voltage_reported_witness:
  "\<forall>st. \<exists>v0 v1 c b. power_values True True (sim_power st\<lparr>battAdcValue := 0xFFFF\<rparr>) = Some [v0, v1, c, b] \<and> uint v1 \<in> {1227, 1228, 1229}"
proof
  fix st
  let ?st = "sim_power st\<lparr>battAdcValue := 0xFFFF\<rparr>"
  have "gain (adcDev ?st) = ADS1X15_PGA_6_144V" "sint (battAdcValue ?st) = - 1" by (simp_all add: sim_power_def)
  then show "\<exists>v0 v1 c b. power_values True True ?st = Some [v0, v1, c, b] \<and> uint v1 \<in> {1227, 1228, 1229}"
    using negative_voltage_reported [of ?st True True] by auto
qed


end
