(* ===== verification/Eeprom.thy ===== *)
theory Eeprom
  imports Ch_Time
begin

text \<open>
  The data EEPROM driver: \<^verbatim>\<open>src/src/drivers/eeprom.c\<close> over
  \<^verbatim>\<open>src/src/drivers/stm32L0/eeprom_lld.c\<close>.  The flash controller of the STM32L0 is the environment, a
  record of register and memory accesses on a state \<open>'h\<close>; \<open>poll\<close> is what happens to it between
  two reads of the status register.  \<open>flash_ok\<close> states what the code relies on of the
  controller: the key sequence opens the control register, a byte written while it is open and
  idle is stored at its address and nowhere else, and an operation ends within the second the code
  waits for it.

  The theorems show that what is written is read back, that the memory around it stays, that the
  memory is locked again afterwards, and what happens when the controller does not become ready.
\<close>

section \<open>The code\<close>

datatype eepromState_t = EEPROM_NINIT | EEPROM_READY | EEPROM_ACTIVE_WRITE | EEPROM_UNLOCKED | EEPROM_FAILED

record 'h EEPROMDriver_t =
  ee_state :: eepromState_t
  flash :: 'h

record 'h flash_env =
  SR_BSY :: "'h \<Rightarrow> bool"
  poll :: "'h \<Rightarrow> 'h"
  sys_time :: "'h \<Rightarrow> systime_t"
  get_PECR :: "'h \<Rightarrow> u32"
  set_PECR :: "u32 \<Rightarrow> 'h \<Rightarrow> 'h"
  set_PEKEYR :: "u32 \<Rightarrow> 'h \<Rightarrow> 'h"
  ee_load :: "u32 \<Rightarrow> 'h \<Rightarrow> u8"
  ee_store :: "u32 \<Rightarrow> u8 \<Rightarrow> 'h \<Rightarrow> 'h"

definition FLASH_PEKEY1 :: u32 where "FLASH_PEKEY1 = 0x89ABCDEF"
definition FLASH_PEKEY2 :: u32 where "FLASH_PEKEY2 = 0x02030405"
definition FLASH_PECR_PELOCK :: u32 where "FLASH_PECR_PELOCK = 0x00000001"
definition FLASH_PECR_DATA :: u32 where "FLASH_PECR_DATA = 0x00000010"
definition FLASH_PECR_ERASE :: u32 where "FLASH_PECR_ERASE = 0x00000200"
definition FLASH_PECR_EOPIE :: u32 where "FLASH_PECR_EOPIE = 0x00010000"
definition FLASH_PECR_ERRIE :: u32 where "FLASH_PECR_ERRIE = 0x00020000"
definition DATA_EEPROM_BASE :: u32 where "DATA_EEPROM_BASE = 0x08080000"

partial_function (option) wait_loop ::
    "'h flash_env \<Rightarrow> systime_t \<Rightarrow> systime_t \<Rightarrow> 'h \<Rightarrow> (msg_t \<times> 'h) option" where
  "wait_loop f start end h =
     (if SR_BSY f h then
        if \<not> chTimeIsInRangeX (sys_time f h) start end then Some (MSG_TIMEOUT, h)
        else wait_loop f start end (poll f h)
      else Some (MSG_OK, h))"

definition eepromWaitForReady :: "'h flash_env \<Rightarrow> 'h \<Rightarrow> (msg_t \<times> 'h) option" where
  "eepromWaitForReady f h = do {
     end \<leftarrow> chTimeAddX (sys_time f h) (TIME_MS2I 1000);
     wait_loop f (sys_time f h) end h }"

definition eepromProgram :: "'h flash_env \<Rightarrow> 'h EEPROMDriver_t \<Rightarrow> u32 \<Rightarrow> u8 \<Rightarrow> 'h EEPROMDriver_t option" where
  "eepromProgram f d addr data = do {
     _ \<leftarrow> dbg_check (ee_state d = EEPROM_UNLOCKED);
     (msg, h) \<leftarrow> eepromWaitForReady f (flash d);
     let d = d\<lparr>flash := h\<rparr>;
     if msg \<noteq> MSG_OK then Some (d\<lparr>ee_state := EEPROM_FAILED\<rparr>)
     else Some (d\<lparr>flash := ee_store f addr data (flash d)\<rparr>) }"

definition lockEeprom :: "'h flash_env \<Rightarrow> 'h EEPROMDriver_t \<Rightarrow> eepromState_t \<Rightarrow> 'h EEPROMDriver_t option" where
  "lockEeprom f d state = do {
     _ \<leftarrow> dbg_check (ee_state d = EEPROM_UNLOCKED);
     (msg, h) \<leftarrow> eepromWaitForReady f (flash d);
     let d = d\<lparr>flash := h\<rparr>;
     if msg \<noteq> MSG_OK then Some (d\<lparr>ee_state := EEPROM_FAILED\<rparr>)
     else do {
       let h = set_PECR f (get_PECR f h AND NOT (FLASH_PECR_ERRIE OR FLASH_PECR_EOPIE)) h;
       let h = set_PECR f (get_PECR f h OR FLASH_PECR_PELOCK) h;
       Some (d\<lparr>flash := h, ee_state := state\<rparr>) } }"

definition unlockEeprom :: "'h flash_env \<Rightarrow> 'h EEPROMDriver_t \<Rightarrow> 'h EEPROMDriver_t option" where
  "unlockEeprom f d = do {
     _ \<leftarrow> dbg_check (ee_state d = EEPROM_ACTIVE_WRITE);
     (msg, h) \<leftarrow> eepromWaitForReady f (flash d);
     let d = d\<lparr>flash := h\<rparr>;
     if msg \<noteq> MSG_OK then Some (d\<lparr>ee_state := EEPROM_FAILED\<rparr>)
     else if get_PECR f h AND FLASH_PECR_PELOCK \<noteq> 0 then do {
       let h = set_PEKEYR f FLASH_PEKEY1 h;
       let h = set_PEKEYR f FLASH_PEKEY2 h;
       Some (d\<lparr>flash := h, ee_state := EEPROM_UNLOCKED\<rparr>) }
     else Some d }"

text \<open>The loop over the bytes, from the address of the next one on.\<close>

fun write_loop :: "'h flash_env \<Rightarrow> 'h EEPROMDriver_t \<Rightarrow> u32 \<Rightarrow> u8 list \<Rightarrow> 'h EEPROMDriver_t option" where
  "write_loop f d addr [] = Some d"
| "write_loop f d addr (b # bs) = do {
     _ \<leftarrow> dbg_check (ee_state d = EEPROM_UNLOCKED);
     d \<leftarrow> eepromProgram f d addr b;
     write_loop f d (addr + 1) bs }"

definition writeRegistersToEeprom ::
    "'h flash_env \<Rightarrow> 'h EEPROMDriver_t \<Rightarrow> u32 \<Rightarrow> u8 list \<Rightarrow> 'h EEPROMDriver_t option" where
  "writeRegistersToEeprom f d addr data = do {
     _ \<leftarrow> dbg_check (ee_state d = EEPROM_READY);
     let d = d\<lparr>ee_state := EEPROM_ACTIVE_WRITE\<rparr>;
     d \<leftarrow> unlockEeprom f d;
     let d = d\<lparr>flash := set_PECR f (get_PECR f (flash d) AND NOT (FLASH_PECR_ERASE OR FLASH_PECR_DATA)) (flash d)\<rparr>;
     d \<leftarrow> write_loop f d (DATA_EEPROM_BASE + addr) data;
     lockEeprom f d EEPROM_READY }"

text \<open>The buffer of the caller has exactly \<^verbatim>\<open>size\<close> bytes.\<close>

definition eepromRead ::
    "'h flash_env \<Rightarrow> 'h EEPROMDriver_t \<Rightarrow> u32 \<Rightarrow> u8 list \<Rightarrow> (u8 list \<times> 'h EEPROMDriver_t) option" where
  "eepromRead f d addr data = do {
     _ \<leftarrow> dbg_check (ee_state d = EEPROM_READY);
     (msg, h) \<leftarrow> eepromWaitForReady f (flash d);
     let d = d\<lparr>flash := h\<rparr>;
     if msg \<noteq> MSG_OK then Some (data, d\<lparr>ee_state := EEPROM_FAILED\<rparr>)
     else Some (map (\<lambda>i. ee_load f (DATA_EEPROM_BASE + addr + word_of_nat i) h) [0..<length data], d) }"

definition EEPROM__init :: "'h EEPROMDriver_t \<Rightarrow> 'h EEPROMDriver_t option" where
  "EEPROM__init d = do {
     _ \<leftarrow> dbg_check (ee_state d = EEPROM_NINIT);
     Some (d\<lparr>ee_state := EEPROM_READY\<rparr>) }"

definition EEPROM__read ::
    "'h flash_env \<Rightarrow> 'h EEPROMDriver_t \<Rightarrow> u32 \<Rightarrow> u8 list \<Rightarrow> (u8 list \<times> 'h EEPROMDriver_t) option" where
  "EEPROM__read f d addr data = eepromRead f d addr data"

definition EEPROM__write :: "'h flash_env \<Rightarrow> 'h EEPROMDriver_t \<Rightarrow> u32 \<Rightarrow> u8 list \<Rightarrow> 'h EEPROMDriver_t option" where
  "EEPROM__write f d addr data = writeRegistersToEeprom f d addr data"

section \<open>What the controller promises\<close>

definition EEPROM_SIZE :: nat where "EEPROM_SIZE = 2048"

definition ee_mem :: "'h flash_env \<Rightarrow> 'h \<Rightarrow> u8 list" where
  "ee_mem f h = map (\<lambda>i. ee_load f (DATA_EEPROM_BASE + word_of_nat i) h) [0..<EEPROM_SIZE]"

definition locked :: "'h flash_env \<Rightarrow> 'h \<Rightarrow> bool" where
  "locked f h \<longleftrightarrow> get_PECR f h AND FLASH_PECR_PELOCK \<noteq> 0"

definition ready_soon :: "'h flash_env \<Rightarrow> 'h \<Rightarrow> bool" where
  "ready_soon f h \<longleftrightarrow> (\<exists>n. \<not> SR_BSY f ((poll f ^^ n) h) \<and>
     (\<forall>k < n. chTimeIsInRangeX (sys_time f ((poll f ^^ k) h)) (sys_time f h) (sys_time f h + 1000)))"

definition flash_ok :: "'h flash_env \<Rightarrow> bool" where
  "flash_ok f \<longleftrightarrow>
     (\<forall>h. ready_soon f h) \<and>
     (\<forall>h. ee_mem f (poll f h) = ee_mem f h \<and> get_PECR f (poll f h) = get_PECR f h) \<and>
     (\<forall>h. locked f h \<longrightarrow> \<not> locked f (set_PEKEYR f FLASH_PEKEY2 (set_PEKEYR f FLASH_PEKEY1 h)) \<and>
          ee_mem f (set_PEKEYR f FLASH_PEKEY2 (set_PEKEYR f FLASH_PEKEY1 h)) = ee_mem f h) \<and>
     (\<forall>h v. \<not> locked f h \<longrightarrow> get_PECR f (set_PECR f v h) = v \<and> ee_mem f (set_PECR f v h) = ee_mem f h) \<and>
     (\<forall>h i v. \<not> locked f h \<and> \<not> SR_BSY f h \<and> i < EEPROM_SIZE \<longrightarrow>
          ee_mem f (ee_store f (DATA_EEPROM_BASE + word_of_nat i) v h) = (ee_mem f h)[i := v] \<and>
          get_PECR f (ee_store f (DATA_EEPROM_BASE + word_of_nat i) v h) = get_PECR f h)"

lemma flash_okD:
  assumes "flash_ok f"
  shows "ready_soon f h" "ee_mem f (poll f h) = ee_mem f h" "get_PECR f (poll f h) = get_PECR f h"
    "locked f h \<Longrightarrow> \<not> locked f (set_PEKEYR f FLASH_PEKEY2 (set_PEKEYR f FLASH_PEKEY1 h))"
    "locked f h \<Longrightarrow> ee_mem f (set_PEKEYR f FLASH_PEKEY2 (set_PEKEYR f FLASH_PEKEY1 h)) = ee_mem f h"
    "\<not> locked f h \<Longrightarrow> get_PECR f (set_PECR f v h) = v" "\<not> locked f h \<Longrightarrow> ee_mem f (set_PECR f v h) = ee_mem f h"
    "\<not> locked f h \<Longrightarrow> \<not> SR_BSY f h \<Longrightarrow> i < EEPROM_SIZE \<Longrightarrow>
       ee_mem f (ee_store f (DATA_EEPROM_BASE + word_of_nat i) b h) = (ee_mem f h)[i := b]"
    "\<not> locked f h \<Longrightarrow> \<not> SR_BSY f h \<Longrightarrow> i < EEPROM_SIZE \<Longrightarrow>
       get_PECR f (ee_store f (DATA_EEPROM_BASE + word_of_nat i) b h) = get_PECR f h"
  using assms unfolding flash_ok_def by blast+

section \<open>Waiting\<close>

lemma wait_loop_ready:
  assumes "\<not> SR_BSY f ((poll f ^^ n) h)" "\<forall>k < n. chTimeIsInRangeX (sys_time f ((poll f ^^ k) h)) start end"
  shows "\<exists>m. wait_loop f start end h = Some (MSG_OK, (poll f ^^ m) h) \<and> \<not> SR_BSY f ((poll f ^^ m) h)"
  using assms
proof (induction n arbitrary: h)
  case 0
  then show ?case by (intro exI [of _ 0]) (subst wait_loop.simps, simp)
next
  case (Suc n)
  show ?case
  proof (cases "SR_BSY f h")
    case True
    have "\<forall>k < n. chTimeIsInRangeX (sys_time f ((poll f ^^ k) (poll f h))) start end"
      using Suc.prems(2) by (metis Suc_less_eq funpow_simps_right(2) o_apply)
    moreover have "\<not> SR_BSY f ((poll f ^^ n) (poll f h))"
      using Suc.prems(1) by (simp add: funpow_swap1)
    ultimately obtain m where "wait_loop f start end (poll f h) = Some (MSG_OK, (poll f ^^ m) (poll f h))"
        "\<not> SR_BSY f ((poll f ^^ m) (poll f h))"
      using Suc.IH by blast
    moreover have "chTimeIsInRangeX (sys_time f h) start end" using Suc.prems(2) by force
    ultimately show ?thesis
      using True by (intro exI [of _ "Suc m"]) (subst wait_loop.simps, simp add: funpow_swap1)
  next
    case False
    then show ?thesis by (intro exI [of _ 0]) (subst wait_loop.simps, simp)
  qed
qed

lemma polls_keep:
  assumes "flash_ok f"
  shows "ee_mem f ((poll f ^^ n) h) = ee_mem f h" "get_PECR f ((poll f ^^ n) h) = get_PECR f h"
  by (induction n) (simp_all add: flash_okD [OF assms])

lemma wait_ok:
  assumes "flash_ok f"
  obtains h' where "eepromWaitForReady f h = Some (MSG_OK, h')" "\<not> SR_BSY f h'"
    "ee_mem f h' = ee_mem f h" "get_PECR f h' = get_PECR f h"
proof -
  from flash_okD(1) [OF assms, of h] obtain n where "\<not> SR_BSY f ((poll f ^^ n) h)"
      "\<forall>k < n. chTimeIsInRangeX (sys_time f ((poll f ^^ k) h)) (sys_time f h) (sys_time f h + 1000)"
    unfolding ready_soon_def by auto
  from wait_loop_ready [OF this] obtain m where
    m: "wait_loop f (sys_time f h) (sys_time f h + 1000) h = Some (MSG_OK, (poll f ^^ m) h)"
      "\<not> SR_BSY f ((poll f ^^ m) h)" by auto
  then have "eepromWaitForReady f h = Some (MSG_OK, (poll f ^^ m) h)"
    by (simp add: eepromWaitForReady_def add_1000)
  from that [OF this m(2) polls_keep(1) [OF assms] polls_keep(2) [OF assms]] show thesis .
qed

section \<open>Writing and reading back\<close>

lemma write_loop_ok:
  assumes "flash_ok f"
  shows "ee_state d = EEPROM_UNLOCKED \<Longrightarrow> \<not> locked f (flash d) \<Longrightarrow> i + length bs \<le> EEPROM_SIZE \<Longrightarrow>
    \<exists>d'. write_loop f d (DATA_EEPROM_BASE + word_of_nat i) bs = Some d' \<and> ee_state d' = EEPROM_UNLOCKED \<and>
      \<not> locked f (flash d') \<and> Some (ee_mem f (flash d')) = store_bytes (ee_mem f (flash d)) i bs"
proof (induction bs arbitrary: d i)
  case Nil
  then show ?case by simp
next
  case (Cons b bs)
  obtain h where h: "eepromWaitForReady f (flash d) = Some (MSG_OK, h)" "\<not> SR_BSY f h"
      "ee_mem f h = ee_mem f (flash d)" "get_PECR f h = get_PECR f (flash d)"
    using wait_ok [OF assms] by metis
  let ?h = "ee_store f (DATA_EEPROM_BASE + word_of_nat i) b h"
  have "\<not> locked f h" using Cons.prems(2) h(4) by (simp add: locked_def)
  moreover have i: "i < EEPROM_SIZE" using Cons.prems(3) by simp
  ultimately have st: "ee_mem f ?h = (ee_mem f (flash d))[i := b]" "\<not> locked f ?h"
    using flash_okD(8,9) [OF assms _ h(2)] h(3) by (auto simp: locked_def)
  have "eepromProgram f d (DATA_EEPROM_BASE + word_of_nat i) b = Some (d\<lparr>flash := ?h\<rparr>)"
    using Cons.prems(1) h(1) by (simp add: eepromProgram_def)
  moreover have "DATA_EEPROM_BASE + word_of_nat i + 1 = DATA_EEPROM_BASE + word_of_nat (Suc i)" by simp
  moreover have "store8 (ee_mem f (flash d)) i b = Some (ee_mem f ?h)"
    using i st(1) by (simp add: ee_mem_def)
  ultimately show ?case
    using Cons.IH [of "d\<lparr>flash := ?h\<rparr>" "Suc i"] Cons.prems st(2) by (simp add: ac_simps)
qed

lemma unlock_ok:
  assumes "flash_ok f" "locked f (flash d)" "ee_state d = EEPROM_ACTIVE_WRITE"
  obtains h where "unlockEeprom f d = Some (d\<lparr>flash := h, ee_state := EEPROM_UNLOCKED\<rparr>)" "\<not> locked f h"
    "ee_mem f h = ee_mem f (flash d)"
proof -
  obtain h where h: "eepromWaitForReady f (flash d) = Some (MSG_OK, h)"
      "ee_mem f h = ee_mem f (flash d)" "get_PECR f h = get_PECR f (flash d)"
    using wait_ok [OF assms(1)] by metis
  then have l: "locked f h" using assms(2) by (simp add: locked_def)
  then have "unlockEeprom f d =
      Some (d\<lparr>flash := set_PEKEYR f FLASH_PEKEY2 (set_PEKEYR f FLASH_PEKEY1 h), ee_state := EEPROM_UNLOCKED\<rparr>)"
    using h assms(3) by (simp add: unlockEeprom_def locked_def Let_def)
  then show thesis
    using that flash_okD(4,5) [OF assms(1) l] h(2) by simp
qed

lemma lock_ok:
  assumes "flash_ok f" "\<not> locked f (flash d)" "ee_state d = EEPROM_UNLOCKED"
  obtains h where "lockEeprom f d s = Some (d\<lparr>flash := h, ee_state := s\<rparr>)" "locked f h"
    "ee_mem f h = ee_mem f (flash d)"
proof -
  obtain h where h: "eepromWaitForReady f (flash d) = Some (MSG_OK, h)"
      "ee_mem f h = ee_mem f (flash d)" "get_PECR f h = get_PECR f (flash d)"
    using wait_ok [OF assms(1)] by metis
  define h1 where "h1 = set_PECR f (get_PECR f h AND NOT (FLASH_PECR_ERRIE OR FLASH_PECR_EOPIE)) h"
  define h2 where "h2 = set_PECR f (get_PECR f h1 OR FLASH_PECR_PELOCK) h1"
  have u: "\<not> locked f h" using assms(2) h(3) by (simp add: locked_def)
  then have u1: "\<not> locked f h1" "ee_mem f h1 = ee_mem f h"
    using flash_okD(6,7) [OF assms(1) u] by (simp_all add: h1_def locked_def and.assoc FLASH_PECR_PELOCK_def FLASH_PECR_ERRIE_def FLASH_PECR_EOPIE_def)
  then have "locked f h2" "ee_mem f h2 = ee_mem f h"
    using flash_okD(6,7) [OF assms(1) u1(1)] by (simp_all add: h2_def locked_def FLASH_PECR_PELOCK_def)
  moreover have "lockEeprom f d s = Some (d\<lparr>flash := h2, ee_state := s\<rparr>)"
    using h(1) assms(3) by (simp add: lockEeprom_def h1_def h2_def Let_def)
  ultimately show thesis using that h(2) by simp
qed
lemma write_ok:
  assumes "flash_ok f" "ee_state d = EEPROM_READY" "locked f (flash d)" "i + length bs \<le> EEPROM_SIZE"
  obtains h where "writeRegistersToEeprom f d (word_of_nat i) bs = Some (d\<lparr>flash := h\<rparr>)" "locked f h"
    "ee_mem f h = take i (ee_mem f (flash d)) @ bs @ drop (i + length bs) (ee_mem f (flash d))"
proof -
  obtain h where h: "unlockEeprom f (d\<lparr>ee_state := EEPROM_ACTIVE_WRITE\<rparr>) = Some (d\<lparr>flash := h, ee_state := EEPROM_UNLOCKED\<rparr>)"
      "\<not> locked f h" "ee_mem f h = ee_mem f (flash d)"
    using unlock_ok [OF assms(1), of "d\<lparr>ee_state := EEPROM_ACTIVE_WRITE\<rparr>"] assms(3) by auto
  define h1 where "h1 = set_PECR f (get_PECR f h AND NOT (FLASH_PECR_ERASE OR FLASH_PECR_DATA)) h"
  have h1: "\<not> locked f h1" "ee_mem f h1 = ee_mem f (flash d)"
    using flash_okD(6,7) [OF assms(1) h(2)] h(2,3)
    by (simp_all add: h1_def locked_def and.assoc FLASH_PECR_PELOCK_def FLASH_PECR_ERASE_def FLASH_PECR_DATA_def)
  obtain d' where d': "write_loop f (d\<lparr>flash := h1, ee_state := EEPROM_UNLOCKED\<rparr>) (DATA_EEPROM_BASE + word_of_nat i) bs = Some d'"
      "ee_state d' = EEPROM_UNLOCKED" "\<not> locked f (flash d')" "Some (ee_mem f (flash d')) = store_bytes (ee_mem f h1) i bs"
    using write_loop_ok [OF assms(1), of "d\<lparr>flash := h1, ee_state := EEPROM_UNLOCKED\<rparr>" i bs] h1(1) assms(4) by auto
  obtain h2 where h2: "lockEeprom f d' EEPROM_READY = Some (d'\<lparr>flash := h2, ee_state := EEPROM_READY\<rparr>)"
      "locked f h2" "ee_mem f h2 = ee_mem f (flash d')"
    using lock_ok [OF assms(1) d'(3,2)] by metis
  have "writeRegistersToEeprom f d (word_of_nat i) bs = Some (d\<lparr>flash := h2\<rparr>)"
    using assms(2) h(1) d'(1) h2(1) by (cases d; cases d') (simp add: writeRegistersToEeprom_def h1_def Let_def)
  moreover have "length (ee_mem f h1) = EEPROM_SIZE" by (simp add: ee_mem_def)
  ultimately show thesis
    using that h2(2,3) d'(4) h1(2) assms(4) by (simp add: store_bytes_in)
qed

lemma read_ok:
  assumes "flash_ok f" "ee_state d = EEPROM_READY" "i + length buf \<le> EEPROM_SIZE"
  obtains h where "eepromRead f d (word_of_nat i) buf = Some (take (length buf) (drop i (ee_mem f (flash d))), d\<lparr>flash := h\<rparr>)"
    "ee_mem f h = ee_mem f (flash d)" "get_PECR f h = get_PECR f (flash d)"
proof -
  obtain h where h: "eepromWaitForReady f (flash d) = Some (MSG_OK, h)"
      "ee_mem f h = ee_mem f (flash d)" "get_PECR f h = get_PECR f (flash d)"
    using wait_ok [OF assms(1)] by metis
  have "take (length buf) (drop i (ee_mem f h)) =
      map (\<lambda>k. ee_load f (DATA_EEPROM_BASE + word_of_nat i + word_of_nat k) h) [0..<length buf]"
    using assms(3) by (intro nth_equalityI) (simp_all add: ee_mem_def add.assoc)
  then have "eepromRead f d (word_of_nat i) buf = Some (take (length buf) (drop i (ee_mem f (flash d))), d\<lparr>flash := h\<rparr>)"
    using h assms(2) by (simp add: eepromRead_def)
  then show thesis using that h by blast
qed

section \<open>A simulated controller\<close>

text \<open>A controller that meets \<open>flash_ok\<close>: memory, control register and the state of the key
  sequence; it is never busy.\<close>

definition sim_flash :: "((u32 \<Rightarrow> u8) \<times> u32 \<times> bool) flash_env" where
  "sim_flash = \<lparr>
     SR_BSY = (\<lambda>_. False), poll = id, sys_time = (\<lambda>_. 0), get_PECR = (\<lambda>(m, p, k). p),
     set_PECR = (\<lambda>v (m, p, k). if p AND 1 \<noteq> 0 then (m, p, k) else (m, v, k)),
     set_PEKEYR = (\<lambda>v (m, p, k). if v = FLASH_PEKEY1 then (m, p, True)
        else if v = FLASH_PEKEY2 \<and> k then (m, p AND NOT 1, False) else (m, p, False)),
     ee_load = (\<lambda>a (m, p, k). m a),
     ee_store = (\<lambda>a v (m, p, k). (m(a := v), p, k))\<rparr>"

lemma sim_flash_sel [simp]:
  "\<not> SR_BSY sim_flash h" "poll sim_flash h = h" "sys_time sim_flash h = 0" "get_PECR sim_flash (m, p, k) = p"
  "set_PECR sim_flash v (m, p, k) = (if p AND 1 \<noteq> 0 then (m, p, k) else (m, v, k))"
  "set_PEKEYR sim_flash FLASH_PEKEY1 (m, p, k) = (m, p, True)"
  "set_PEKEYR sim_flash FLASH_PEKEY2 (m, p, True) = (m, p AND NOT 1, False)"
  "ee_load sim_flash a (m, p, k) = m a" "ee_store sim_flash a b (m, p, k) = (m(a := b), p, k)"
  by (simp_all add: sim_flash_def FLASH_PEKEY1_def FLASH_PEKEY2_def)

lemma sim_mem: "ee_mem sim_flash (m, p, k) = map (\<lambda>i. m (DATA_EEPROM_BASE + word_of_nat i)) [0..<EEPROM_SIZE]"
  by (simp add: ee_mem_def)

lemma offset_inj:
  assumes "i < EEPROM_SIZE" "j < EEPROM_SIZE"
  shows "(word_of_nat i = (word_of_nat j :: u32)) \<longleftrightarrow> i = j"
proof -
  have "unat (word_of_nat i :: u32) = i" "unat (word_of_nat j :: u32) = j"
    using assms by (simp_all add: unat_word_of_nat32 EEPROM_SIZE_def)
  then show ?thesis by metis
qed

lemma sim_mem_store:
  assumes "i < EEPROM_SIZE"
  shows "ee_mem sim_flash (m(DATA_EEPROM_BASE + word_of_nat i := v), p, k) = (ee_mem sim_flash (m, p', k'))[i := v]"
  using assms by (intro nth_equalityI)
    (auto simp: sim_mem nth_list_update offset_inj)

lemma sim_flash_ok: "flash_ok sim_flash"
proof -
  have "ready_soon sim_flash h" for h
    unfolding ready_soon_def by (intro exI [of _ 0]) simp
  then show ?thesis
    using sim_mem_store by (simp add: flash_ok_def locked_def FLASH_PECR_PELOCK_def sim_mem and.assoc)
qed

section \<open>Properties\<close>

text \<open>
  C25.  What is written to the EEPROM is read back: with a controller that keeps its promises, a
  write of any bytes inside of the 2 KiB ends with the driver ready and the memory locked again,
  changes exactly the addressed bytes, and a following read returns them.
\<close>

theorem eeprom_roundtrip:
  assumes "flash_ok f" and "ee_state d = EEPROM_READY" and "locked f (flash d)"
    and "unat addr + length bs \<le> EEPROM_SIZE" and "length buf = length bs"
  shows "\<exists>d'. EEPROM__write f d addr bs = Some d' \<and> ee_state d' = EEPROM_READY \<and> locked f (flash d') \<and>
    take (unat addr) (ee_mem f (flash d')) = take (unat addr) (ee_mem f (flash d)) \<and>
    drop (unat addr + length bs) (ee_mem f (flash d')) = drop (unat addr + length bs) (ee_mem f (flash d)) \<and>
    (\<exists>d''. EEPROM__read f d' addr buf = Some (bs, d'') \<and> ee_state d'' = EEPROM_READY \<and>
      ee_mem f (flash d'') = ee_mem f (flash d') \<and> locked f (flash d''))"
proof -
  have a: "addr = word_of_nat (unat addr)" by simp
  obtain h where h: "writeRegistersToEeprom f d addr bs = Some (d\<lparr>flash := h\<rparr>)" "locked f h"
      "ee_mem f h = take (unat addr) (ee_mem f (flash d)) @ bs @ drop (unat addr + length bs) (ee_mem f (flash d))"
    using write_ok [OF assms(1-4)] by (metis a)
  obtain h' where h': "eepromRead f (d\<lparr>flash := h\<rparr>) addr buf = Some (take (length buf) (drop (unat addr) (ee_mem f h)), d\<lparr>flash := h'\<rparr>)"
      "ee_mem f h' = ee_mem f h" "get_PECR f h' = get_PECR f h"
    using read_ok [OF assms(1), of "d\<lparr>flash := h\<rparr>" "unat addr" buf] assms(2,4,5) by auto
  have len: "length (ee_mem f (flash d)) = EEPROM_SIZE" by (simp add: ee_mem_def)
  then have "take (length buf) (drop (unat addr) (ee_mem f h)) = bs" using h(3) assms(4,5) by simp
  then show ?thesis
    using h h' assms(2,4) len by (simp add: EEPROM__write_def EEPROM__read_def locked_def)
qed

theorem eeprom_roundtrip_witness:
  "\<exists>d' d''. EEPROM__write sim_flash \<lparr>ee_state = EEPROM_READY, flash = (\<lambda>_. 0, 1, False)\<rparr> 2 [7, 8, 9] = Some d' \<and>
     EEPROM__read sim_flash d' 2 [0, 0, 0] = Some ([7, 8, 9], d'')"
proof -
  define d where "d = \<lparr>ee_state = EEPROM_READY, flash = (\<lambda>_ :: u32. 0 :: u8, 1 :: u32, False)\<rparr>"
  have "ee_state d = EEPROM_READY" "locked sim_flash (flash d)"
    by (simp_all add: d_def locked_def FLASH_PECR_PELOCK_def)
  from eeprom_roundtrip [OF sim_flash_ok this, of 2 "[7, 8, 9]" "[0, 0, 0]"] show ?thesis
    unfolding d_def by (auto simp: EEPROM_SIZE_def)
qed

text \<open>
  A controller that stays busy for more than a second is noticed: a read then leaves the
  buffer of the caller as it was and marks the driver as failed, and from then on every read and
  every write halts in the assertion on the state.
\<close>

theorem eeprom_busy_fails:
  assumes "\<And>h. SR_BSY f h" and "ee_state d = EEPROM_READY"
    and "\<not> chTimeIsInRangeX (sys_time f ((poll f ^^ n) (flash d))) (sys_time f (flash d)) (sys_time f (flash d) + 1000)"
  shows "\<exists>d'. EEPROM__read f d addr buf = Some (buf, d') \<and> ee_state d' = EEPROM_FAILED \<and>
    EEPROM__read f d' addr' buf' = None \<and> EEPROM__write f d' addr' bs = None"
proof -
  have "\<exists>h'. wait_loop f start end h = Some (MSG_TIMEOUT, h')"
    if "\<not> chTimeIsInRangeX (sys_time f ((poll f ^^ n) h)) start end" for start "end" h n
    using that
  proof (induction n arbitrary: h)
    case 0
    then show ?case using assms(1) by (subst wait_loop.simps) simp
  next
    case (Suc n)
    then have "\<exists>h'. wait_loop f start end (poll f h) = Some (MSG_TIMEOUT, h')" by (simp add: funpow_swap1)
    then show ?case using assms(1) by (subst wait_loop.simps) auto
  qed
  from this [OF assms(3)] obtain h' where "eepromWaitForReady f (flash d) = Some (MSG_TIMEOUT, h')"
    by (auto simp: eepromWaitForReady_def add_1000)
  then show ?thesis
    using assms(2) by (simp add: EEPROM__read_def EEPROM__write_def eepromRead_def writeRegistersToEeprom_def)
qed

theorem eeprom_busy_fails_witness:
  "\<exists>d'. EEPROM__read (sim_flash\<lparr>SR_BSY := \<lambda>_. True, poll := \<lambda>(m, p, k). (m, p + 1, k), sys_time := \<lambda>(m, p, k). ucast p\<rparr>)
     \<lparr>ee_state = EEPROM_READY, flash = (\<lambda>_. 0, 1, False)\<rparr> 0 [5] = Some ([5], d') \<and> ee_state d' = EEPROM_FAILED"
proof -
  define f where "f = sim_flash\<lparr>SR_BSY := \<lambda>_. True, poll := \<lambda>(m, p, k). (m, p + 1, k), sys_time := \<lambda>(m, p, k). ucast p\<rparr>"
  have poll: "(poll f ^^ n) (m, p, k) = (m, p + word_of_nat n, k)" for n m p k
    by (induction n) (simp_all add: f_def ac_simps)
  define late :: nat where "late = 1000"
  have out: "\<not> chTimeIsInRangeX (sys_time f (m, p + word_of_nat late, k)) (sys_time f (m, p, k)) (sys_time f (m, p, k) + 1000)" if "p = 1" for m p k
    using that by (simp add: f_def late_def chTimeIsInRangeX_def)
  have "\<exists>d'. EEPROM__read f \<lparr>ee_state = EEPROM_READY, flash = (\<lambda>_. 0, 1, False)\<rparr> 0 [5] = Some ([5], d') \<and>
      ee_state d' = EEPROM_FAILED \<and> EEPROM__read f d' 0 [] = None \<and> EEPROM__write f d' 0 [] = None"
    using out by (intro eeprom_busy_fails [where n = late]) (simp_all add: poll, simp add: f_def)
  then show ?thesis unfolding f_def by blast
qed

end
