(* ===== verification/Station.thy ===== *)
theory Station
  imports Sensors Eeprom
begin

text \<open>
  The application as the user sees it: the lists of devices and schedules (\<^verbatim>\<open>threads/hwListThread.c\<close>,
  \<^verbatim>\<open>threads/scheduleListThread.c\<close>), the configuration and its loading at start-up (\<^verbatim>\<open>main.c\<close>), and
  the commands of the shell (\<^verbatim>\<open>shell/shellCmd.c\<close>).

  The structures of the threads are found through pointers in the lists; \<open>node\<close> names the thread a
  structure belongs to and stands for its address.  The theorems show that a setting typed
  into the shell is in force at once and, once saved, after every later start.
\<close>

section \<open>The code\<close>

datatype node = N_Hc12 | N_Bmp280 | N_Veml7700 | N_Ml8511 | N_Power

definition HW_LIST_SIZE :: nat where "HW_LIST_SIZE = 10"
definition SCHEDULE_LIST_SIZE :: nat where "SCHEDULE_LIST_SIZE = 10"
definition CONFIG_BASE_ADDR :: u32 where "CONFIG_BASE_ADDR = 0"
definition VERSION :: u8 where "VERSION = 3"
definition DEFAULT_TASK_INTERVAL :: u16 where "DEFAULT_TASK_INTERVAL = 300"

fun hwId :: "node \<Rightarrow> u32" where
  "hwId N_Hc12 = 0"
| "hwId N_Bmp280 = 1"
| "hwId N_Veml7700 = 2"
| "hwId N_Ml8511 = 3"
| "hwId N_Power = 4"

text \<open>The thread and the interval of a schedule are those of the node they point to.\<close>

record schedule_t =
  sch_id :: u32
  sch_tp :: node
  sch_name :: "string option"
  sch_interval :: node

text \<open>The structure occupies 22 bytes; a padding byte follows the version.\<close>

record appConfiguration_t =
  version :: u8
  padding :: u8
  interval :: "u16 list"

definition le16 :: "u16 \<Rightarrow> u8 list" where "le16 w = [ucast w, ucast (drop_bit 8 w)]"

definition cfg_bytes :: "appConfiguration_t \<Rightarrow> u8 list" where
  "cfg_bytes c = version c # padding c # concat (map le16 (interval c))"

fun words16 :: "u8 list \<Rightarrow> u16 list" where
  "words16 (a # b # bs) = (push_bit 8 (ucast b) OR ucast a) # words16 bs"
| "words16 bs = []"

definition cfg_of :: "u8 list \<Rightarrow> appConfiguration_t" where
  "cfg_of bs = \<lparr>version = bs ! 0, padding = bs ! 1, interval = words16 (drop 2 bs)\<rparr>"

definition cfg_zero :: appConfiguration_t where
  "cfg_zero = \<lparr>version = 0, padding = 0, interval = replicate SCHEDULE_LIST_SIZE 0\<rparr>"

text \<open>\<open>heap_free\<close> are the sizes of the free blocks of the heap in pages, \<open>core_free\<close> the bytes left in the core.\<close>

record ('h, 'c) station =
  hws :: "node \<Rightarrow> hw_t"
  schedules :: "node \<Rightarrow> schedule_t"
  intervals :: "node \<Rightarrow> u16"
  hwList :: "node option list"
  scheduleList :: "node option list"
  registerHwMail :: "node mailbox_t"
  registerScheduleMail :: "node mailbox_t"
  appConfiguration :: appConfiguration_t
  EEPROMD1 :: "'h EEPROMDriver_t"
  tx :: pipe
  modem :: "'c hc12State_t"
  PWR_CR :: u32
  SCB_SCR :: u32
  heap_free :: "u32 list"
  core_free :: u32

subsection \<open>Registration\<close>

text \<open>A round of the two registering threads; the index is not checked by the code.\<close>

definition registerHwThread_round :: "tid \<Rightarrow> ('h, 'c) station \<Rightarrow> ('h, 'c) station option" where
  "registerHwThread_round self s = (case chMBFetchTimeout self (registerHwMail s) TIME_INFINITE of
       Some (Return (msg, newHw) mb _) \<Rightarrow>
         (let s = s\<lparr>registerHwMail := mb\<rparr> in
          case newHw of
            Some n \<Rightarrow> if msg = MSG_OK
              then (let i = unat (hw_id (hws s n)) in
                    if i < HW_LIST_SIZE then Some (s\<lparr>hwList := (hwList s)[i := Some n]\<rparr>) else None)
              else Some s
          | None \<Rightarrow> Some s)
     | Some (Sleep mb) \<Rightarrow> Some (s\<lparr>registerHwMail := mb\<rparr>)
     | None \<Rightarrow> None)"

definition registerScheduleThread_round :: "tid \<Rightarrow> ('h, 'c) station \<Rightarrow> ('h, 'c) station option" where
  "registerScheduleThread_round self s = (case chMBFetchTimeout self (registerScheduleMail s) TIME_INFINITE of
       Some (Return (msg, newSchedule) mb _) \<Rightarrow>
         (let s = s\<lparr>registerScheduleMail := mb\<rparr> in
          case newSchedule of
            Some n \<Rightarrow> if msg = MSG_OK
              then (let i = unat (sch_id (schedules s n)) in
                    if i < SCHEDULE_LIST_SIZE then Some (s\<lparr>scheduleList := (scheduleList s)[i := Some n]\<rparr>) else None)
              else Some s
          | None \<Rightarrow> Some s)
     | Some (Sleep mb) \<Rightarrow> Some (s\<lparr>registerScheduleMail := mb\<rparr>)
     | None \<Rightarrow> None)"

text \<open>What a thread does to announce its schedule: the first lines of every sensor thread.\<close>

definition register_schedule :: "tid \<Rightarrow> node \<Rightarrow> string \<Rightarrow> ('h, 'c) station \<Rightarrow> ('h, 'c) station option" where
  "register_schedule self n name s = do {
     let s = s\<lparr>schedules := (schedules s)(n := \<lparr>sch_id = hwId n, sch_tp = n, sch_name = Some name, sch_interval = n\<rparr>)\<rparr>;
     (case chMBPostTimeout self (registerScheduleMail s) n TIME_IMMEDIATE of
        Some (Return _ mb _) \<Rightarrow> Some (s\<lparr>registerScheduleMail := mb\<rparr>)
      | _ \<Rightarrow> None) }"

subsection \<open>The configuration at start-up\<close>

definition load_config :: "'h flash_env \<Rightarrow> ('h, 'c) station \<Rightarrow> ('h, 'c) station option" where
  "load_config f s = do {
     d \<leftarrow> EEPROM__init (EEPROMD1 s);
     (bs, d) \<leftarrow> EEPROM__read f d CONFIG_BASE_ADDR (cfg_bytes (appConfiguration s));
     let c = cfg_of bs;
     let c = (if version c \<noteq> VERSION
              then c\<lparr>version := VERSION, interval := map (\<lambda>_. DEFAULT_TASK_INTERVAL) [0..<SCHEDULE_LIST_SIZE]\<rparr> else c);
     Some (s\<lparr>EEPROMD1 := d, appConfiguration := c\<rparr>) }"

text \<open>The field \<^verbatim>\<open>interval\<close> of the configurations of the threads; the default is the same for all of them.\<close>

definition thread_configs :: "('h, 'c) station \<Rightarrow> ('h, 'c) station" where
  "thread_configs s = s\<lparr>intervals := \<lambda>n.
     let i = interval (appConfiguration s) ! unat (hwId n) in if 0 < i then i else DEFAULT_TASK_INTERVAL\<rparr>"

definition power_up :: "'h flash_env \<Rightarrow> ('h, 'c) station \<Rightarrow> ('h, 'c) station option" where
  "power_up f s = do { s \<leftarrow> load_config f s; Some (thread_configs s) }"

subsection \<open>The commands\<close>

type_synonym ('h, 'c) command = "('h, 'c) station shellcmd_t"

definition put :: "string \<Rightarrow> printf_arg list \<Rightarrow> 's shell_state \<Rightarrow> 's shell_state option" where
  "put fmt ap st = map_option (chprintf st) (chvprintf fmt ap)"

text \<open>\<^verbatim>\<open>chHeapStatus\<close>: the number of fragments, the sum and the largest of their sizes.\<close>

definition chHeapStatus :: "u32 list \<Rightarrow> u32 \<times> u32 \<times> u32" where
  "chHeapStatus blocks = (
     let (n, tpages, lpages) = fold (\<lambda>pages (n, t, l). (n + 1, t + pages, if l < pages then pages else l)) blocks (0, 0, 0)
     in (n, tpages * 8, lpages * 8))"

definition cmd_mem :: "('h, 'c) command" where
  "cmd_mem argv st =
     (if argv \<noteq> [] then Some (shellUsage st ''mem'')
      else do {
        let (n, total, largest) = chHeapStatus (heap_free (app st));
        st \<leftarrow> put (''core free memory : %u bytes'' @ SHELL_NEWLINE_STR) [PInt (core_free (app st))] st;
        st \<leftarrow> put (''heap fragments   : %u'' @ SHELL_NEWLINE_STR) [PInt n] st;
        st \<leftarrow> put (''heap free total  : %u bytes'' @ SHELL_NEWLINE_STR) [PInt total] st;
        put (''heap free largest: %u bytes'' @ SHELL_NEWLINE_STR) [PInt largest] st })"

text \<open>The registers before the processor waits for an interrupt.\<close>

definition cmd_sleep :: "('h, 'c) command" where
  "cmd_sleep argv st =
     (if argv \<noteq> [] then Some (chprintf st (''Usage: sleep'' @ SHELL_NEWLINE_STR))
      else do {
        let st = chprintf st (''Going to sleep. Type any character to wake up.'' @ SHELL_NEWLINE_STR);
        let s = app st;
        let s = s\<lparr>PWR_CR := PWR_CR s OR (0x1 OR 0x8 OR 0x4)\<rparr>;
        let s = s\<lparr>PWR_CR := PWR_CR s AND NOT 0x2\<rparr>;
        Some (st\<lparr>app := s\<lparr>SCB_SCR := SCB_SCR s OR 0x4\<rparr>\<rparr>) })"

fun hw_status_text :: "hwStatus_e \<Rightarrow> string" where
  "hw_status_text HW_STATUS_UNKNOWN = ''UNKNOWN''"
| "hw_status_text HW_STATUS_OK = ''OK''"
| "hw_status_text HW_STATUS_ERROR = ''ERROR''"

fun hw_type_text :: "hwType_e \<Rightarrow> string" where
  "hw_type_text VALUE_TYPE_SENSOR = ''SENSOR''"
| "hw_type_text VALUE_TYPE_TRANSMITTER = ''TRANSMITTER''"

fun put_each :: "('a \<Rightarrow> 's shell_state \<Rightarrow> 's shell_state option) \<Rightarrow> 'a option list \<Rightarrow> 's shell_state \<Rightarrow> 's shell_state option" where
  "put_each f [] st = Some st"
| "put_each f (None # xs) st = put_each f xs st"
| "put_each f (Some x # xs) st = do { st \<leftarrow> f x st; put_each f xs st }"

definition put_hw :: "hw_t \<Rightarrow> 's shell_state \<Rightarrow> 's shell_state option" where
  "put_hw hw = put (''%6u  %11s  %10s  %10s'' @ SHELL_NEWLINE_STR)
     [PInt (hw_id hw), PStr (Some (hw_type_text (hw_type hw))), PStr (hw_name hw), PStr (Some (hw_status_text (hw_status hw)))]"

definition cmd_hw :: "('h, 'c) command" where
  "cmd_hw argv st = put_each (\<lambda>n. put_hw (hws (app st) n)) (hwList (app st)) st"

definition put_schedule :: "('h, 'c) station \<Rightarrow> node \<Rightarrow> 's shell_state \<Rightarrow> 's shell_state option" where
  "put_schedule s n = put (''%6u  %11s  %6u seconds'' @ SHELL_NEWLINE_STR)
     [PInt (sch_id (schedules s n)), PStr (sch_name (schedules s n)), PInt (ucast (intervals s (sch_interval (schedules s n))))]"

text \<open>
  \<^verbatim>\<open>chMsgSend\<close> returns when the thread has stored the new interval and answered.
\<close>

definition set_schedule :: "string \<Rightarrow> string \<Rightarrow> ('h, 'c) station \<Rightarrow> ('h, 'c) station" where
  "set_schedule a0 a1 s = (
     let id = (word_of_int (atoi a0) :: u8); intervalI = (word_of_int (atoi a1) :: u8) in
     if 0 < id \<and> unat id < SCHEDULE_LIST_SIZE then
       (case scheduleList s ! unat id of
          Some n \<Rightarrow>
            if 0 < intervalI then
              (let s = s\<lparr>intervals := (intervals s)(sch_tp (schedules s n) := load_interval (ucast intervalI))\<rparr> in
               s\<lparr>appConfiguration := (appConfiguration s)\<lparr>interval := (interval (appConfiguration s))[unat id := ucast intervalI]\<rparr>\<rparr>)
            else s
        | None \<Rightarrow> s)
     else s)"

definition cmd_sch :: "('h, 'c) command" where
  "cmd_sch argv st = do {
     let st = (case argv of [a0, a1] \<Rightarrow> st\<lparr>app := set_schedule a0 a1 (app st)\<rparr> | _ \<Rightarrow> st);
     let st = (if length argv \<noteq> 0 \<and> length argv \<noteq> 2 then chprintf st (''wrong params'' @ SHELL_NEWLINE_STR) else st);
     put_each (put_schedule (app st)) (scheduleList (app st)) st }"

definition cmd_save :: "'h flash_env \<Rightarrow> ('h, 'c) command" where
  "cmd_save f argv st = do {
     d \<leftarrow> EEPROM__write f (EEPROMD1 (app st)) CONFIG_BASE_ADDR (cfg_bytes (appConfiguration (app st)));
     Some (chprintf (st\<lparr>app := (app st)\<lparr>EEPROMD1 := d\<rparr>\<rparr>) (''OK'' @ SHELL_NEWLINE_STR)) }"

text \<open>A value as \<^verbatim>\<open>cmd_values\<close> prints it.\<close>

definition shown_value :: "sensorValue_t \<Rightarrow> rat" where
  "shown_value v = (
     let value = flt (of_int (uint (sv_value v))) in
     if sv_formatter v = VALUE_FORMATTER_100_P100 then flt (flt (value / 100) - 100)
     else if sv_formatter v = VALUE_FORMATTER_100 then flt (value / 100)
     else value)"

definition put_value :: "sensorValue_t \<Rightarrow> 's shell_state \<Rightarrow> 's shell_state option" where
  "put_value v st =
     (if sv_name v = None then Some st
      else if sv_formatter v = VALUE_FORMATTER_BOOL
      then put (''%15s: %3s  '' @ SHELL_NEWLINE_STR) [PStr (sv_name v), PStr (Some (if sv_value v \<noteq> 0 then ''ON'' else ''OFF''))] st
      else put (''%15s: %.2f  '' @ SHELL_NEWLINE_STR) [PStr (sv_name v), PDbl (shown_value v)] st)"

definition put_values :: "hw_t \<Rightarrow> 's shell_state \<Rightarrow> 's shell_state option" where
  "put_values hw st =
     (if hw_type hw = VALUE_TYPE_SENSOR then put_each put_value (map Some (take HW_LIST_VALUES_SIZE (hw_values hw))) st else Some st)"

definition cmd_values :: "('h, 'c) command" where
  "cmd_values argv st = put_each (\<lambda>n. put_values (hws (app st) n)) (hwList (app st)) st"

definition cmd_hc12Set :: "'c radio_env \<Rightarrow> tid \<Rightarrow> ('h, 'c) command" where
  "cmd_hc12Set r self argv st = do {
     (ok, h, out) \<leftarrow> HC12__reconfigureDefault r self (modem (app st)) [];
     let st = chprintf (st\<lparr>app := (app st)\<lparr>modem := h\<rparr>\<rparr>) out;
     Some (if ok then st else chprintf st (''ERROR'' @ SHELL_NEWLINE_STR)) }"

text \<open>The text goes into a message object of the pipeline.\<close>

definition send_text :: "tid \<Rightarrow> string \<Rightarrow> pipe \<Rightarrow> (bool \<times> pipe) option" where
  "send_text self arg s = do {
     (a, p) \<leftarrow> chPoolAlloc (stream_pool s);
     let s = s\<lparr>stream_pool := p\<rparr>;
     if a = 0 then Some (False, s)
     else do {
       obj \<leftarrow> cmd_send_fill (obj_at (stream_pool s) a) (map of_char arg);
       let s = s\<lparr>stream_pool := store_obj (stream_pool s) a obj\<rparr>;
       (case chMBPostTimeout self (streamMail s) a TIME_IMMEDIATE of
          Some (Return _ mb _) \<Rightarrow>
            Some (True, s\<lparr>streamMail := mb, posted := posted s @ [obj_payload (obj_at (stream_pool s) a)]\<rparr>)
        | _ \<Rightarrow> None) } }"

definition cmd_send :: "tid \<Rightarrow> ('h, 'c) command" where
  "cmd_send self argv st = (case argv of
       [a] \<Rightarrow> do {
         (sent, s) \<leftarrow> send_text self a (tx (app st));
         let st = st\<lparr>app := (app st)\<lparr>tx := s\<rparr>\<rparr>;
         let st = (if sent then chprintf st ''OK'' else st);
         Some (chprintf st SHELL_NEWLINE_STR) }
     | _ \<Rightarrow> Some (shellUsage st ''param missing''))"

text \<open>The table; the listing of the threads reads their stacks and is an argument.\<close>

definition shellCommands ::
    "'h flash_env \<Rightarrow> 'c radio_env \<Rightarrow> tid \<Rightarrow> ('h, 'c) command \<Rightarrow> ('h, 'c) station ShellCommand list" where
  "shellCommands f r self cmd_threads =
     [(''threads'', cmd_threads), (''sleep'', cmd_sleep), (''hc12set'', cmd_hc12Set r self), (''values'', cmd_values),
      (''send'', cmd_send self), (''hw'', cmd_hw), (''schedule'', cmd_sch), (''save'', cmd_save f), (''mem'', cmd_mem)]"

section \<open>The stored configuration\<close>

lemma words16_concat: "words16 (concat (map le16 ws)) = ws"
proof (induction ws)
  case (Cons w ws)
  have "push_bit 8 (ucast (ucast (drop_bit 8 w) :: u8)) OR ucast (ucast w :: u8) = w"
    by (rule bit_word_eqI) (auto simp: bit_simps)
  then show ?case using Cons by (simp add: le16_def)
qed simp

lemma length_cfg_bytes: "length (cfg_bytes c) = 2 + 2 * length (interval c)"
proof -
  have "length (concat (map le16 ws)) = 2 * length ws" for ws by (induction ws) (simp_all add: le16_def)
  then show ?thesis by (simp add: cfg_bytes_def)
qed

lemma cfg_roundtrip: "cfg_of (cfg_bytes c) = c"
  by (simp add: cfg_of_def cfg_bytes_def words16_concat)

section \<open>The commands\<close>

lemma put_schedule_ok: "\<exists>t. put_schedule s n st = Some (chprintf st t)"
  by (cases "sch_name (schedules s n)"; simp add: put_schedule_def put_def conversion_eval SHELL_NEWLINE_STR_def; rule exI; rule refl)

lemma put_each_ok:
  assumes "\<And>x st. \<exists>t. f x st = Some (chprintf st t)"
  shows "\<exists>t. put_each f xs st = Some (chprintf st t)"
proof (induction xs arbitrary: st)
  case Nil
  have "chprintf st [] = st" by (simp add: chprintf_def)
  then show ?case by (metis put_each.simps(1))
next
  case (Cons x xs)
  show ?case
  proof (cases x)
    case (Some y)
    obtain t where "f y st = Some (chprintf st t)" using assms by blast
    moreover obtain t' where "put_each f xs (chprintf st t) = Some (chprintf (chprintf st t) t')" using Cons by blast
    ultimately show ?thesis by (auto simp: Some chprintf_def)
  qed (simp add: Cons)
qed

lemma cmd_sch_ok: "\<exists>t. cmd_sch [a0, a1] st = Some (chprintf (st\<lparr>app := set_schedule a0 a1 (app st)\<rparr>) t)"
  using put_each_ok [OF put_schedule_ok] by (simp add: cmd_sch_def)

lemma set_schedule_ok:
  assumes "scheduleList s ! unat (hwId n) = Some n" "sch_tp (schedules s n) = n" "n \<noteq> N_Hc12"
    and "atoi a0 = uint (hwId n)" "1 \<le> atoi a1" "atoi a1 \<le> 255"
  shows "set_schedule a0 a1 s = s\<lparr>intervals := (intervals s)(n := word_of_int (atoi a1)),
    appConfiguration := (appConfiguration s)\<lparr>interval := (interval (appConfiguration s))[unat (hwId n) := word_of_int (atoi a1)]\<rparr>\<rparr>"
proof -
  define k where "k = atoi a1"
  have k: "1 \<le> k" "k \<le> 255" using assms(5,6) by (simp_all add: k_def)
  have "(ucast (word_of_int k :: u8) :: u16) = word_of_int k" "(ucast (ucast (word_of_int k :: u8) :: u32) :: u16) = word_of_int k"
    "0 < (word_of_int k :: u8)"
    using k by (simp_all add: word_uint_eq_iff word_less_def unsigned_ucast_eq unsigned_of_int take_bit_eq_mod)
  moreover have "unat (word_of_int (atoi a0) :: u8) = unat (hwId n)" "0 < (word_of_int (atoi a0) :: u8)" "unat (hwId n) < SCHEDULE_LIST_SIZE"
    using assms(3,4) by (cases n; simp add: SCHEDULE_LIST_SIZE_def)+
  ultimately show ?thesis
    using assms(1,2) by (simp add: set_schedule_def Let_def load_interval_def k_def)
qed

lemma save_ok:
  assumes "flash_ok f" "ee_state (EEPROMD1 (app st)) = EEPROM_READY" "locked f (flash (EEPROMD1 (app st)))"
    and "length (interval (appConfiguration (app st))) = SCHEDULE_LIST_SIZE"
  shows "\<exists>h. cmd_save f argv st =
      Some (chprintf (st\<lparr>app := (app st)\<lparr>EEPROMD1 := (EEPROMD1 (app st))\<lparr>flash := h\<rparr>\<rparr>\<rparr>) (''OK'' @ SHELL_NEWLINE_STR)) \<and>
    locked f h \<and> take 22 (ee_mem f h) = cfg_bytes (appConfiguration (app st))"
proof -
  let ?c = "appConfiguration (app st)"
  have len: "length (cfg_bytes ?c) = 22" using assms(4) by (simp add: length_cfg_bytes SCHEDULE_LIST_SIZE_def)
  obtain h where "writeRegistersToEeprom f (EEPROMD1 (app st)) (word_of_nat 0) (cfg_bytes ?c) = Some ((EEPROMD1 (app st))\<lparr>flash := h\<rparr>)"
      "locked f h" "ee_mem f h = take 0 (ee_mem f (flash (EEPROMD1 (app st)))) @ cfg_bytes ?c @
         drop (0 + length (cfg_bytes ?c)) (ee_mem f (flash (EEPROMD1 (app st))))"
    using write_ok [OF assms(1-3), of 0 "cfg_bytes ?c"] len by (auto simp: EEPROM_SIZE_def)
  then show ?thesis using len by (intro exI [of _ h]) (simp add: cmd_save_def EEPROM__write_def CONFIG_BASE_ADDR_def)
qed

lemma power_up_ok:
  assumes "flash_ok f" "EEPROMD1 s = \<lparr>ee_state = EEPROM_NINIT, flash = h\<rparr>" "appConfiguration s = cfg_zero"
    and "take 22 (ee_mem f h) = cfg_bytes c" "version c = VERSION"
  shows "\<exists>s'. power_up f s = Some s' \<and> appConfiguration s' = c \<and>
    intervals s' = (\<lambda>n. let i = interval c ! unat (hwId n) in if 0 < i then i else DEFAULT_TASK_INTERVAL)"
proof -
  let ?d = "\<lparr>ee_state = EEPROM_READY, flash = h\<rparr>"
  have len: "length (cfg_bytes cfg_zero) = 22" by (simp add: length_cfg_bytes cfg_zero_def SCHEDULE_LIST_SIZE_def)
  obtain h' where "eepromRead f ?d (word_of_nat 0) (cfg_bytes cfg_zero) =
      Some (take (length (cfg_bytes cfg_zero)) (drop 0 (ee_mem f (flash ?d))), ?d\<lparr>flash := h'\<rparr>)"
    using read_ok [OF assms(1), of ?d 0 "cfg_bytes cfg_zero"] len by (auto simp: EEPROM_SIZE_def)
  then have "EEPROM__read f ?d CONFIG_BASE_ADDR (cfg_bytes (appConfiguration s)) = Some (cfg_bytes c, \<lparr>ee_state = EEPROM_READY, flash = h'\<rparr>)"
    using assms(3,4) len by (simp add: EEPROM__read_def CONFIG_BASE_ADDR_def)
  then show ?thesis
    using assms(2,5) by (simp add: power_up_def load_config_def EEPROM__init_def cfg_roundtrip thread_configs_def)
qed

lemma boot_restores:
  assumes "flash_ok f" "EEPROMD1 s = \<lparr>ee_state = EEPROM_NINIT, flash = h\<rparr>" "appConfiguration s = cfg_zero"
    and "take 22 (ee_mem f h) = cfg_bytes (c\<lparr>interval := (interval c)[unat (hwId n) := k]\<rparr>)"
    and "version c = VERSION" "length (interval c) = SCHEDULE_LIST_SIZE" "0 < k"
  shows "\<exists>s'. power_up f s = Some s' \<and> intervals s' n = k \<and>
    (\<forall>m. m \<noteq> n \<longrightarrow> intervals s' m = (let i = interval c ! unat (hwId m) in if 0 < i then i else DEFAULT_TASK_INTERVAL))"
proof -
  let ?c = "c\<lparr>interval := (interval c)[unat (hwId n) := k]\<rparr>"
  have "version ?c = VERSION" using assms(5) by simp
  then obtain s' where s': "power_up f s = Some s'"
      "intervals s' = (\<lambda>n. let i = interval ?c ! unat (hwId n) in if 0 < i then i else DEFAULT_TASK_INTERVAL)"
    using power_up_ok [OF assms(1-4)] by blast
  have "unat (hwId n) < length (interval c)" using assms(6) by (cases n) (simp_all add: SCHEDULE_LIST_SIZE_def)
  moreover have "unat (hwId n) \<noteq> unat (hwId m)" if "m \<noteq> n" for m using that by (cases m; cases n) simp_all
  ultimately show ?thesis using s' assms(7) by simp
qed

text \<open>A line whose first word is the name of a command runs it with the other words.\<close>

lemma shell_command:
  fixes st :: "'s shell_state"
  assumes "CHR 0x0D \<notin> set keys" "next_word (foldl edit_key [] keys) = (name, rest)" "length (words_opt rest) \<le> 4"
    and "name \<noteq> []" "name \<noteq> ''help''" "map_of cmds name = Some c" "length line = 64"
  shows "\<exists>line' t. length line' = 64 \<and>
    shell_round cmds scp (keys @ CHR 0x0D # later) line st = map_option (\<lambda>st. (later, line', st)) (c (words_opt rest) (chprintf st t))"
proof -
  have "map_of (all_commands cmds scp) name = Some c" using assms(6) by (cases scp) auto
  then have "line_spec (all_commands cmds scp) (foldl edit_key [] keys) st = c (words_opt rest) st" for st
    using assms(2-5) by (simp add: line_spec_def exec_spec_def)
  moreover obtain line' e where "length line' = 64" "shell_round cmds scp (keys @ CHR 0x0D # later) line st =
      map_option (\<lambda>st. (later, line', st)) (line_spec (all_commands cmds scp) (foldl edit_key [] keys) (chprintf st (''ch> '' @ e @ SHELL_NEWLINE_STR)))"
    using shell_round_spec [OF assms(1,7), of cmds scp later st] by metis
  ultimately show ?thesis by metis
qed

lemma chprintf_app [simp]: "app (chprintf st t) = app st" "app (st\<lparr>chan := c\<rparr>) = app st"
  by (simp_all add: chprintf_def)

section \<open>Properties\<close>


definition sim_station :: "((u32 \<Rightarrow> u8) \<times> u32 \<times> bool, 'c) station \<Rightarrow> ((u32 \<Rightarrow> u8) \<times> u32 \<times> bool, 'c) station" where
  "sim_station s = s\<lparr>EEPROMD1 := \<lparr>ee_state = EEPROM_READY, flash = (\<lambda>_. 0, 1, False)\<rparr>,
     appConfiguration := \<lparr>version = VERSION, padding = 0, interval = replicate SCHEDULE_LIST_SIZE 300\<rparr>,
     scheduleList := (replicate SCHEDULE_LIST_SIZE None)[1 := Some N_Bmp280],
     schedules := (schedules s)(N_Bmp280 := \<lparr>sch_id = 1, sch_tp = N_Bmp280, sch_name = Some ''BMP280'', sch_interval = N_Bmp280\<rparr>)\<rparr>"

lemma sim_station:
  "ee_state (EEPROMD1 (sim_station s)) = EEPROM_READY" "locked sim_flash (flash (EEPROMD1 (sim_station s)))"
  "version (appConfiguration (sim_station s)) = VERSION"
  "interval (appConfiguration (sim_station s)) = replicate SCHEDULE_LIST_SIZE 300"
  "scheduleList (sim_station s) ! Suc 0 = Some N_Bmp280" "sch_tp (schedules (sim_station s) N_Bmp280) = N_Bmp280"
  "replicate SCHEDULE_LIST_SIZE 300 ! 4 = (300 :: u16)"
  by (simp_all add: sim_station_def locked_def FLASH_PECR_PELOCK_def SCHEDULE_LIST_SIZE_def)


end
