(* ===== verification/Veml7700.thy ===== *)
theory Veml7700
  imports Sensors
begin

text \<open>
  The light sensor: the driver \<^verbatim>\<open>drivers/veml7700.c\<close> and its thread \<^verbatim>\<open>threads/veml7700Thread.c\<close>.

  The theorems show that the illuminance a receiver decodes is the corrected reading of the chip up to a relative error
  of the float arithmetic, and that the automatic choice of the gain never changes the gain.
\<close>

section \<open>The code\<close>

definition VEML7700_I2C_ADDRESS :: u8 where "VEML7700_I2C_ADDRESS = 0x10"
definition VEML7700_ALS_GAIN_x1 :: u32 where "VEML7700_ALS_GAIN_x1 = 0x0"
definition VEML7700_ALS_GAIN_x2 :: u32 where "VEML7700_ALS_GAIN_x2 = 0x1"
definition VEML7700_ALS_GAIN_d8 :: u32 where "VEML7700_ALS_GAIN_d8 = 0x2"
definition VEML7700_ALS_GAIN_d4 :: u32 where "VEML7700_ALS_GAIN_d4 = 0x3"
definition VEML7700_ALS_INTEGRATION_25ms :: u32 where "VEML7700_ALS_INTEGRATION_25ms = 0xc"
definition VEML7700_ALS_INTEGRATION_50ms :: u32 where "VEML7700_ALS_INTEGRATION_50ms = 0x8"
definition VEML7700_ALS_INTEGRATION_100ms :: u32 where "VEML7700_ALS_INTEGRATION_100ms = 0x0"
definition VEML7700_ALS_INTEGRATION_200ms :: u32 where "VEML7700_ALS_INTEGRATION_200ms = 0x1"
definition VEML7700_ALS_INTEGRATION_400ms :: u32 where "VEML7700_ALS_INTEGRATION_400ms = 0x2"
definition VEML7700_ALS_INTEGRATION_800ms :: u32 where "VEML7700_ALS_INTEGRATION_800ms = 0x3"
definition VEML7700_ALS_PERSISTENCE_1 :: u32 where "VEML7700_ALS_PERSISTENCE_1 = 0x0"
definition VEML7700_ALS_POWER_MODE_3 :: u32 where "VEML7700_ALS_POWER_MODE_3 = 0x2"
definition VEML7700_ALS_SM_MASK :: u32 where "VEML7700_ALS_SM_MASK = 0x1800"
definition VEML7700_ALS_IT_MASK :: u32 where "VEML7700_ALS_IT_MASK = 0x03c0"
definition VEML7700_COMMAND_ALS :: u8 where "VEML7700_COMMAND_ALS = 0x04"

lemmas veml_consts = VEML7700_I2C_ADDRESS_def VEML7700_ALS_GAIN_x1_def VEML7700_ALS_GAIN_x2_def VEML7700_ALS_GAIN_d8_def
  VEML7700_ALS_GAIN_d4_def VEML7700_ALS_INTEGRATION_25ms_def VEML7700_ALS_INTEGRATION_50ms_def
  VEML7700_ALS_INTEGRATION_100ms_def VEML7700_ALS_INTEGRATION_200ms_def VEML7700_ALS_INTEGRATION_400ms_def
  VEML7700_ALS_INTEGRATION_800ms_def VEML7700_ALS_PERSISTENCE_1_def VEML7700_ALS_POWER_MODE_3_def
  VEML7700_ALS_SM_MASK_def VEML7700_ALS_IT_MASK_def VEML7700_COMMAND_ALS_def

text \<open>The handle, and with it the static variables of the driver: the receive buffer, the last counts and the three
  marks of the gains.\<close>

record VEML7700_HandleTypedef =
  veml_addr :: u8
  lux :: rat
  registerCache :: "u32 list"
  veml_dataRx :: "u8 list"
  raw_counts :: u32
  mark_x1 :: u8
  mark_x2 :: u8
  mark_d8 :: u8

subsection \<open>Registers\<close>

definition VEML7700_I2C__sing_reg_write ::
    "'w i2c_env \<Rightarrow> 'w I2CDriver \<Rightarrow> VEML7700_HandleTypedef \<Rightarrow> u8 \<Rightarrow> u32 \<Rightarrow> (bool \<times> 'w I2CDriver) option" where
  "VEML7700_I2C__sing_reg_write e d dev regAdd regData = do {
     d \<leftarrow> i2cAcquireBus e d;
     (ok, d) \<leftarrow> checkI2CCondition e d;
     if \<not> ok then do { d \<leftarrow> i2cReleaseBus d; Some (False, d) }
     else do {
       let dataTx = [regAdd, ucast (regData AND 0xFF), ucast (drop_bit 8 regData AND 0xFF)];
       (r, _, d) \<leftarrow> i2cMasterTransmitTimeout e d (ucast (veml_addr dev)) dataTx [] (TIME_MS2I 800);
       d \<leftarrow> i2cReleaseBus d;
       Some (r = MSG_OK, d) } }"

text \<open>The second component is what is stored through the pointer, if anything.  The result is \<open>True\<close> also when
  the bus is not ready.\<close>

definition VEML7700_I2C__sing_reg_read ::
    "'w i2c_env \<Rightarrow> 'w I2CDriver \<Rightarrow> VEML7700_HandleTypedef \<Rightarrow> u8 \<Rightarrow>
     ((bool \<times> u32 option \<times> VEML7700_HandleTypedef) \<times> 'w I2CDriver) option" where
  "VEML7700_I2C__sing_reg_read e d dev regAdd = do {
     d \<leftarrow> i2cAcquireBus e d;
     (ok, d) \<leftarrow> checkI2CCondition e d;
     if \<not> ok then do { d \<leftarrow> i2cReleaseBus d; Some ((True, None, dev), d) }
     else do {
       (r, rx, d) \<leftarrow> i2cMasterTransmitTimeout e d (ucast (veml_addr dev)) [regAdd] (veml_dataRx dev) (TIME_MS2I 800);
       let dev = dev\<lparr>veml_dataRx := rx\<rparr>;
       d \<leftarrow> i2cReleaseBus d;
       if r = MSG_OK
       then Some ((True, Some (push_bit 8 (ucast (veml_dataRx dev ! 1)) OR (ucast (veml_dataRx dev ! 0) AND 0xff)), dev), d)
       else Some ((False, None, dev), d) } }"

definition VEML7700_init_default_params :: "VEML7700_HandleTypedef \<Rightarrow> VEML7700_HandleTypedef" where
  "VEML7700_init_default_params dev = dev\<lparr>veml_addr := VEML7700_I2C_ADDRESS,
     registerCache := [
       push_bit 11 VEML7700_ALS_GAIN_d8 OR push_bit 6 VEML7700_ALS_INTEGRATION_25ms OR push_bit 4 VEML7700_ALS_PERSISTENCE_1
         OR push_bit 1 0 OR push_bit 0 0,
       0x0000, 0xffff,
       push_bit 1 VEML7700_ALS_POWER_MODE_3 OR push_bit 0 0]\<rparr>"

text \<open>The argument \<open>als_gain\<close> is not used by the code.\<close>

definition VEML7700_init_default_params_gain :: "VEML7700_HandleTypedef \<Rightarrow> u32 \<Rightarrow> VEML7700_HandleTypedef" where
  "VEML7700_init_default_params_gain dev als_gain = dev\<lparr>
     registerCache := [
       push_bit 11 VEML7700_ALS_GAIN_d8 OR push_bit 6 VEML7700_ALS_INTEGRATION_25ms OR push_bit 4 VEML7700_ALS_PERSISTENCE_1
         OR push_bit 1 0 OR push_bit 0 0,
       0x0000, 0xffff,
       push_bit 1 VEML7700_ALS_POWER_MODE_3 OR push_bit 0 0]\<rparr>"

fun write_regs ::
    "'w i2c_env \<Rightarrow> VEML7700_HandleTypedef \<Rightarrow> nat list \<Rightarrow> 'w I2CDriver \<Rightarrow> (bool \<times> 'w I2CDriver) option" where
  "write_regs e dev [] d = Some (True, d)"
| "write_regs e dev (i # is) d = do {
     (ok, d) \<leftarrow> VEML7700_I2C__sing_reg_write e d dev (word_of_nat i) (registerCache dev ! i);
     if \<not> ok then Some (False, d) else write_regs e dev is d }"

definition VEML7700_init :: "'w i2c_env \<Rightarrow> 'w I2CDriver \<Rightarrow> VEML7700_HandleTypedef \<Rightarrow> (bool \<times> 'w I2CDriver) option" where
  "VEML7700_init e d dev = write_regs e dev [0, 1, 2, 3] d"

definition VEML7700_getGain :: "VEML7700_HandleTypedef \<Rightarrow> u8" where
  "VEML7700_getGain dev = ucast (drop_bit 11 (registerCache dev ! 0 AND VEML7700_ALS_SM_MASK))"

definition VEML7700_getIntegrationTime :: "VEML7700_HandleTypedef \<Rightarrow> u8" where
  "VEML7700_getIntegrationTime dev = ucast (drop_bit 6 (registerCache dev ! 0 AND VEML7700_ALS_IT_MASK))"

subsection \<open>Illuminance\<close>

definition gain_factor :: "u8 \<Rightarrow> rat" where
  "gain_factor g =
     (if g = ucast VEML7700_ALS_GAIN_x1 then 1
      else if g = ucast VEML7700_ALS_GAIN_x2 then 1/2
      else if g = ucast VEML7700_ALS_GAIN_d8 then 8
      else if g = ucast VEML7700_ALS_GAIN_d4 then 4
      else 1)"

definition time_factor :: "u8 \<Rightarrow> rat" where
  "time_factor t =
     (if t = ucast VEML7700_ALS_INTEGRATION_25ms then flt (2304/10000)
      else if t = ucast VEML7700_ALS_INTEGRATION_50ms then flt (1152/10000)
      else if t = ucast VEML7700_ALS_INTEGRATION_100ms then flt (576/10000)
      else if t = ucast VEML7700_ALS_INTEGRATION_200ms then flt (288/10000)
      else if t = ucast VEML7700_ALS_INTEGRATION_400ms then flt (144/10000)
      else if t = ucast VEML7700_ALS_INTEGRATION_800ms then flt (72/10000)
      else flt (2304/10000))"

text \<open>The correction of the application note by Horner's rule, every operation rounded.\<close>

definition corrected :: "rat \<Rightarrow> rat" where
  "corrected x = flt (x * flt (flt (10023/10^4) + flt (x * flt (flt (81488/10^9) + flt (x * flt (flt (- 93924/10^13)
     + flt (x * flt (60135/10^17))))))))"

definition regain ::
    "'w i2c_env \<Rightarrow> 'w I2CDriver \<Rightarrow> VEML7700_HandleTypedef \<Rightarrow> u32 \<Rightarrow> u8 \<times> u8 \<times> u8 \<Rightarrow>
     ((bool \<times> VEML7700_HandleTypedef) \<times> 'w I2CDriver) option" where
  "regain e d dev als_gain marks = do {
     let dev = VEML7700_init_default_params_gain dev als_gain;
     (ok, d) \<leftarrow> VEML7700_init e d dev;
     if \<not> ok then Some ((False, dev), d)
     else (case marks of (x1, x2, d8) \<Rightarrow> Some ((True, dev\<lparr>mark_x1 := x1, mark_x2 := x2, mark_d8 := d8\<rparr>), d)) }"

definition VEML7700_scaleLux ::
    "'w i2c_env \<Rightarrow> 'w I2CDriver \<Rightarrow> VEML7700_HandleTypedef \<Rightarrow> u32 \<Rightarrow>
     ((bool \<times> VEML7700_HandleTypedef) \<times> 'w I2CDriver) option" where
  "VEML7700_scaleLux e d dev rawCounts = do {
     let factor1 = gain_factor (VEML7700_getGain dev AND 0x3);
     let factor2 = time_factor (VEML7700_getIntegrationTime dev);
     let result = flt (flt (flt (of_int (uint rawCounts)) * factor1) * factor2);
     ((ok, dev), d) \<leftarrow>
       (if 1880 < result \<and> result < 3771
        then if mark_x1 dev = 1 then regain e d dev VEML7700_ALS_GAIN_x1 (0, 1, 1) else Some ((True, dev), d)
        else if 3770 < result
        then if mark_d8 dev = 1 then regain e d dev VEML7700_ALS_GAIN_d8 (1, 1, 0) else Some ((True, dev), d)
        else if mark_x2 dev = 1 then regain e d dev VEML7700_ALS_GAIN_x2 (1, 0, 1) else Some ((True, dev), d));
     if \<not> ok then Some ((False, dev), d)
     else Some ((True, dev\<lparr>lux := corrected result\<rparr>), d) }"

definition VEML7700_getALS ::
    "'w i2c_env \<Rightarrow> 'w I2CDriver \<Rightarrow> VEML7700_HandleTypedef \<Rightarrow>
     ((bool \<times> u32 option \<times> VEML7700_HandleTypedef) \<times> 'w I2CDriver) option" where
  "VEML7700_getALS e d dev = VEML7700_I2C__sing_reg_read e d dev VEML7700_COMMAND_ALS"

definition VEML7700_getALSLux ::
    "'w i2c_env \<Rightarrow> 'w I2CDriver \<Rightarrow> VEML7700_HandleTypedef \<Rightarrow>
     ((bool \<times> VEML7700_HandleTypedef) \<times> 'w I2CDriver) option" where
  "VEML7700_getALSLux e d dev = do {
     ((ok, v, dev), d) \<leftarrow> VEML7700_getALS e d dev;
     let dev = (case v of None \<Rightarrow> dev | Some v \<Rightarrow> dev\<lparr>raw_counts := v\<rparr>);
     if \<not> ok then Some ((False, dev), d) else VEML7700_scaleLux e d dev (raw_counts dev) }"

subsection \<open>The thread\<close>

definition VEML7700_LIGHT :: nat where "VEML7700_LIGHT = 0"

record veml_thread =
  VEML7700_dev :: VEML7700_HandleTypedef
  veml_hwId :: u32
  veml_interval :: u16
  veml7700HW :: hw_t

definition Veml7700__thread_init :: "u32 \<Rightarrow> u16 \<Rightarrow> veml_thread \<Rightarrow> veml_thread" where
  "Veml7700__thread_init hwId interval st = st\<lparr>VEML7700_dev := VEML7700_init_default_params (VEML7700_dev st),
     veml_hwId := hwId, veml_interval := interval\<rparr>"

definition VEML7700Thread_register :: "'w i2c_env \<Rightarrow> veml_thread \<Rightarrow> 'w I2CDriver \<Rightarrow> (veml_thread \<times> 'w I2CDriver) option" where
  "VEML7700Thread_register e st d = do {
     let hw = (veml7700HW st)\<lparr>hw_id := veml_hwId st, hw_type := VALUE_TYPE_SENSOR, hw_name := Some ''VEML7700''\<rparr>;
     (ok, d) \<leftarrow> VEML7700_init e d (VEML7700_dev st);
     let hw = hw\<lparr>hw_status := if ok then HW_STATUS_OK else HW_STATUS_ERROR\<rparr>;
     Some (st\<lparr>veml7700HW := name_value VEML7700_LIGHT VALUE_FORMATTER_NONE ''Lux'' hw\<rparr>, d) }"

definition VEML7700Thread_round ::
    "'w i2c_env \<Rightarrow> tid \<Rightarrow> veml_thread \<Rightarrow> 'w I2CDriver \<Rightarrow> pipe \<Rightarrow> (veml_thread \<times> 'w I2CDriver \<times> pipe) option" where
  "VEML7700Thread_round e self st d s = do {
     d \<leftarrow> (if hw_status (veml7700HW st) = HW_STATUS_ERROR
           then map_option snd (VEML7700_init e d (VEML7700_dev st)) else Some d);
     ((ok, dev), d) \<leftarrow> VEML7700_getALSLux e d (VEML7700_dev st);
     let st = st\<lparr>VEML7700_dev := dev\<rparr>;
     if ok then do {
       v \<leftarrow> to_u32 (lux dev);
       let hw = (set_value VEML7700_LIGHT v (veml7700HW st))\<lparr>hw_status := HW_STATUS_OK\<rparr>;
       s \<leftarrow> send_frame self (ucast (hw_id hw)) [v] s;
       Some (st\<lparr>veml7700HW := hw\<rparr>, d, s) }
     else Some (st\<lparr>veml7700HW := (veml7700HW st)\<lparr>hw_status := HW_STATUS_ERROR\<rparr>\<rparr>, d, s) }"

section \<open>The contract of the bus\<close>

lemma veml_write_eq:
  "VEML7700_I2C__sing_reg_write e d dev reg val = do {
     (x, d) \<leftarrow> guarded_transmit e d (ucast (veml_addr dev)) [reg, ucast (val AND 0xFF), ucast (drop_bit 8 val AND 0xFF)] [] (TIME_MS2I 800);
     Some (case x of None \<Rightarrow> (False, d) | Some (r, rx) \<Rightarrow> (r = MSG_OK, d)) }"
  by (auto simp: VEML7700_I2C__sing_reg_write_def guarded_transmit_def Let_def split: bind_splits)

lemma veml_read_eq:
  "VEML7700_I2C__sing_reg_read e d dev reg = do {
     (x, d) \<leftarrow> guarded_transmit e d (ucast (veml_addr dev)) [reg] (veml_dataRx dev) (TIME_MS2I 800);
     Some (case x of None \<Rightarrow> ((True, None, dev), d)
       | Some (r, rx) \<Rightarrow> ((r = MSG_OK, if r = MSG_OK then Some (push_bit 8 (ucast (rx ! 1)) OR (ucast (rx ! 0) AND 0xff)) else None,
            dev\<lparr>veml_dataRx := rx\<rparr>), d)) }"
  by (auto simp: VEML7700_I2C__sing_reg_read_def guarded_transmit_def Let_def split: bind_splits)

lemma veml_write_serves [bus_keeps]: "others_ok e \<Longrightarrow> serves (\<lambda>d. VEML7700_I2C__sing_reg_write e d dev reg val)"
  using serves_guarded [of e "[reg, ucast (val AND 0xFF), ucast (drop_bit 8 val AND 0xFF)]" "TIME_MS2I 800" "ucast (veml_addr dev)" "[]"]
  by (fastforce simp: veml_write_eq serves_def split: option.split)

lemma veml_read_serves [bus_keeps]: "others_ok e \<Longrightarrow> serves (\<lambda>d. VEML7700_I2C__sing_reg_read e d dev reg)"
  using serves_guarded [of e "[reg]" "TIME_MS2I 800" "ucast (veml_addr dev)" "veml_dataRx dev"]
  by (fastforce simp: veml_read_eq serves_def split: option.split)

interpretation veml_write: bus_client "\<lambda>e d. VEML7700_I2C__sing_reg_write e d dev reg val" for dev reg val
  by unfold_locales (rule veml_write_serves)

interpretation veml_read: bus_client "\<lambda>e d. VEML7700_I2C__sing_reg_read e d dev reg" for dev reg
  by unfold_locales (rule veml_read_serves)

section \<open>The arithmetic of the illuminance\<close>

text \<open>The correction of the application note.\<close>

definition lux_formula :: "rat \<Rightarrow> rat" where
  "lux_formula x = x * (10023/10^4 + x * (81488/10^9 + x * (- 93924/10^13 + x * (60135/10^17))))"

text \<open>The same with the absolute values of the coefficients, which carries the rounding errors.\<close>

definition lux_size :: "rat \<Rightarrow> rat" where
  "lux_size x = x * (10023/10^4 + x * (81488/10^9 + x * (93924/10^13 + x * (60135/10^17))))"

lemma corrected_error:
  assumes x: "1 \<le> x" and x': "\<bar>x' - x\<bar> \<le> 4 / 16777216 * x"
  shows "\<bar>corrected x' - lux_formula x\<bar> \<le> 38 / 16777216 * lux_size x"
proof -
  let ?u = "1 / 16777216 :: rat"
  define c1 c2 c3 c4 :: rat where c: "c1 = 10023/10^4" "c2 = 81488/10^9" "c3 = - 93924/10^13" "c4 = 60135/10^17"
  have big: "1 / 10^20 \<le> \<bar>c1\<bar>" "1 / 10^20 \<le> \<bar>c2\<bar>" "1 / 10^20 \<le> \<bar>c3\<bar>" "1 / 10^20 \<le> \<bar>c4\<bar>" by (simp_all add: c)
  have abs: "\<bar>c1\<bar> = c1" "\<bar>c2\<bar> = c2" "\<bar>c3\<bar> = - c3" "\<bar>c4\<bar> = c4" by (simp_all add: c)
  have c4: "\<bar>flt c4 - c4\<bar> \<le> ?u * \<bar>c4\<bar>" using flt_const [OF big(4)] by simp
  define M1 P1 A1 where 1: "M1 = \<bar>c3\<bar> + x * \<bar>c4\<bar>" "P1 = c3 + x * c4" "A1 = flt (flt c3 + flt (x' * flt c4))"
  define M2 P2 A2 where 2: "M2 = \<bar>c2\<bar> + x * M1" "P2 = c2 + x * P1" "A2 = flt (flt c2 + flt (x' * A1))"
  define M3 P3 A3 where 3: "M3 = \<bar>c1\<bar> + x * M2" "P3 = c1 + x * P2" "A3 = flt (flt c1 + flt (x' * A2))"
  have e1: "\<bar>A1 - P1\<bar> \<le> 11 / 16777216 * M1" "\<bar>P1\<bar> \<le> M1" "1 / 10^20 \<le> M1"
    unfolding 1 using flt_horner_step [OF x x' order_refl c4 _ _ _ _ big(4,3)] by simp_all
  have e2: "\<bar>A2 - P2\<bar> \<le> 21 / 16777216 * M2" "\<bar>P2\<bar> \<le> M2" "1 / 10^20 \<le> M2"
    unfolding 2 using flt_horner_step [OF x x' e1(2,1) _ _ _ _ e1(3) big(2)] by simp_all
  have e3: "\<bar>A3 - P3\<bar> \<le> 31 / 16777216 * M3" "\<bar>P3\<bar> \<le> M3" "1 / 10^20 \<le> M3"
    unfolding 3 using flt_horner_step [OF x x' e2(2,1) _ _ _ _ e2(3) big(1)] by simp_all
  have "M3 \<le> x * M3" using mult_right_mono [OF x, of M3] e3(2) by simp
  with e3(3) have "1 / 10^20 \<le> x * M3" by (rule order_trans)
  then have "\<bar>flt (x' * A3) - x * P3\<bar> \<le> 38 / 16777216 * (x * M3)"
    using flt_mult_step [OF _ x' e3(2,1)] x by simp
  then show ?thesis
    unfolding corrected_def lux_formula_def lux_size_def c [symmetric] 1 2 3 abs by (simp add: c)
qed

lemma lux_size_le:
  assumes "0 \<le> x" "x \<le> 121000"
  shows "lux_size x \<le> 4 * lux_formula x"
proof -
  define s where "s = x / 10000"
  have s: "0 \<le> s" "s \<le> 121/10" "x = 10000 * s" using assms by (simp_all add: s_def)
  let ?t = "30069/10000 + 244464/100000 * s - 46962/10000 * (s * s) + 180405/100000 * (s * s * s)"
  have "?t = 180405/100000 * ((s - 7/5)\<^sup>2 * (s + 19/100)) + 123705/10000000 * (s * s) + (233507178/100000000 - 1315434/10000000 * s)"
    by (simp add: power2_eq_square algebra_simps)
  moreover have "0 \<le> \<dots>" using s(1,2) by (intro add_nonneg_nonneg) simp_all
  ultimately have "0 \<le> x * ?t" using assms(1) by simp
  also have "x * ?t = 4 * lux_formula x - lux_size x" by (simp add: lux_size_def lux_formula_def s(3) algebra_simps)
  finally show ?thesis by simp
qed

lemma lux_formula_bounds:
  assumes "0 \<le> x" "x \<le> 121000"
  shows "0 \<le> lux_formula x" "lux_formula x \<le> 200000000"
proof -
  have "0 \<le> lux_size x" using assms(1) by (simp add: lux_size_def)
  then show "0 \<le> lux_formula x" using lux_size_le [OF assms] by linarith
  have m: "x * y \<le> 121000 * b" if "y \<le> b" "0 \<le> b" for y b :: rat
    using mult_left_mono [OF that(1) assms(1)] mult_right_mono [OF assms(2) that(2)] by (rule order_trans)
  define p1 where "p1 = - 93924/10^13 + x * (60135/10^17)"
  define p2 where "p2 = 81488/10^9 + x * p1"
  define p3 where "p3 = 10023/10^4 + x * p2"
  have "p1 \<le> 1/10^7" using m [of "60135/10^17" "60135/10^17"] by (simp add: p1_def)
  from m [OF this] have "p2 \<le> 13/1000" by (simp add: p2_def)
  from m [OF this] have "p3 \<le> 1580" by (simp add: p3_def)
  from m [OF this] show "lux_formula x \<le> 200000000" by (simp add: lux_formula_def p1_def p2_def p3_def)
qed

text \<open>With the gain 1/8 and an integration of 25 ms a count is 1.8432 lux.\<close>

definition exact_lux :: "u32 \<Rightarrow> rat" where
  "exact_lux n = lux_formula (18432/10000 * of_int (uint n))"

lemma scaled_counts:
  assumes "uint (n :: u32) < 65536"
  shows "\<bar>flt (flt (flt (of_int (uint n)) * 8) * flt (2304/10000)) - 18432/10000 * of_int (uint n)\<bar> \<le>
    4 / 16777216 * (18432/10000 * of_int (uint n))"
proof (cases "n = 0")
  case False
  then have n: "1 \<le> uint n" by (rule uint_ge_1)
  have e: "flt (flt (of_int (uint n)) * 8) = of_int (uint n * 8)"
    using assms n flt_int [of "uint n"] flt_int [of "uint n * 8"] by (simp del: of_int_uint flt_int)
  have "(of_int 1 :: rat) \<le> of_int (uint n)" using n by (simp only: of_int_le_iff)
  then have "\<bar>flt (of_int (uint n * 8) * flt (2304/10000)) - of_int (uint n * 8) * (2304/10000)\<bar> \<le>
      (0 + 1 / 16777216 + 3 / 16777216) * (of_int (uint n * 8) * (2304/10000))"
    using flt_const [of "2304/10000"] by (intro flt_mult_step) (simp_all del: of_int_uint)
  then show ?thesis unfolding e by (simp del: of_int_uint)
qed simp

lemma light_code:
  assumes "uint n < 65536"
  shows "\<exists>v. to_u32 (corrected (flt (flt (flt (of_int (uint n)) * 8) * flt (2304/10000)))) = Some v \<and>
    \<bar>of_int (uint v) - exact_lux n\<bar> \<le> 1 + exact_lux n / 100000"
proof -
  define x :: rat where "x = 18432/10000 * of_int (uint n)"
  define y where "y = flt (flt (flt (of_int (uint n)) * 8) * flt (2304/10000))"
  have near: "\<bar>y - x\<bar> \<le> 4 / 16777216 * x" unfolding x_def y_def by (rule scaled_counts [OF assms])
  have "(of_int (uint n) :: rat) \<le> of_int 65535" using assms by (simp only: of_int_le_iff)
  then have x: "0 \<le> x" "x \<le> 121000" by (simp_all add: x_def del: of_int_uint)
  have "\<bar>corrected y - lux_formula x\<bar> \<le> lux_formula x / 100000"
  proof (cases "n = 0")
    case True
    then show ?thesis by (simp add: x_def y_def corrected_def lux_formula_def)
  next
    case False
    then have "1 \<le> uint n" by (rule uint_ge_1)
    then have "(of_int 1 :: rat) \<le> of_int (uint n)" by (simp only: of_int_le_iff)
    then have "1 \<le> x" by (simp add: x_def del: of_int_uint)
    from corrected_error [OF this near] lux_size_le [OF x] lux_formula_bounds(1) [OF x] show ?thesis by linarith
  qed
  moreover note lux_formula_bounds [OF x]
  ultimately have c: "0 \<le> corrected y" "corrected y < 4294967296" "\<bar>corrected y - lux_formula x\<bar> \<le> lux_formula x / 100000"
    by linarith+
  from to_u32_nonneg [OF c(1,2)] obtain v where "to_u32 (corrected y) = Some v" "corrected y - 1 < of_int (uint v)"
      "of_int (uint v) \<le> corrected y" by blast
  with c(3) show ?thesis unfolding exact_lux_def x_def [symmetric] y_def [symmetric]
    by (intro exI [of _ v] conjI) (assumption, linarith)
qed
section \<open>From the chip to the receiver\<close>

text \<open>A chip that acknowledges every transfer and has the counts \<open>n\<close> in its register.\<close>

definition light_answers :: "'w i2c_env \<Rightarrow> u16 \<Rightarrow> bool" where
  "light_answers e n \<longleftrightarrow> (\<forall>w tx rx t. fst (lld_transmit e w 0x10 tx rx t) = MSG_OK) \<and>
     (\<forall>w rx t. fst (snd (lld_transmit e w 0x10 [VEML7700_COMMAND_ALS] rx t)) = [ucast n, ucast (drop_bit 8 n)])"

text \<open>The handle has the parameters of \<^verbatim>\<open>VEML7700_init_default_params\<close>.\<close>

definition veml_ready :: "VEML7700_HandleTypedef \<Rightarrow> bool" where
  "veml_ready dev \<longleftrightarrow> veml_addr dev = VEML7700_I2C_ADDRESS \<and> registerCache dev = registerCache (VEML7700_init_default_params dev)"

lemma veml_ready_simps:
  assumes "veml_ready dev"
  shows "veml_addr dev = 0x10" "VEML7700_getGain dev = ucast VEML7700_ALS_GAIN_d8"
    "VEML7700_getIntegrationTime dev = ucast VEML7700_ALS_INTEGRATION_25ms"
    "VEML7700_init_default_params_gain dev g = dev"
  using assms by (simp_all add: veml_ready_def VEML7700_getGain_def VEML7700_getIntegrationTime_def
      VEML7700_init_default_params_def VEML7700_init_default_params_gain_def veml_consts)

lemma veml_ready_update [simp]:
  "veml_ready (dev\<lparr>veml_dataRx := rx\<rparr>) = veml_ready dev" "veml_ready (dev\<lparr>raw_counts := c\<rparr>) = veml_ready dev"
  "veml_ready (dev\<lparr>lux := l\<rparr>) = veml_ready dev" "veml_ready (dev\<lparr>mark_x1 := x1\<rparr>) = veml_ready dev"
  "veml_ready (dev\<lparr>mark_x2 := x2\<rparr>) = veml_ready dev" "veml_ready (dev\<lparr>mark_d8 := d8\<rparr>) = veml_ready dev"
  by (simp_all add: veml_ready_def VEML7700_init_default_params_def)

lemma veml_transfer:
  assumes "others_ok e" "bus_inv d" "light_answers e n" "tx \<noteq> []"
  shows "\<exists>rx' d'. guarded_transmit e d 0x10 tx rx (TIME_MS2I 800) = Some (Some (MSG_OK, rx'), d') \<and> bus_inv d' \<and>
    (tx = [VEML7700_COMMAND_ALS] \<longrightarrow> rx' = [ucast n, ucast (drop_bit 8 n)])"
proof (rule guarded_transmit_ok [OF assms(1,2,4), where timeout = "TIME_MS2I 800" and addr = "0x10" and rx = rx])
  fix r rx' d' w
  assume "guarded_transmit e d 0x10 tx rx (TIME_MS2I 800) = Some (Some (r, rx'), d')" "bus_inv d'"
    and lld: "(r, rx', world d') = lld_transmit e w 0x10 tx rx (TIME_MS2I 800)"
  moreover have "r = MSG_OK" "tx = [VEML7700_COMMAND_ALS] \<longrightarrow> rx' = [ucast n, ucast (drop_bit 8 n)]"
    using assms(3) arg_cong [OF lld, of fst] arg_cong [OF lld, of "fst \<circ> snd"] by (auto simp: light_answers_def)
  ultimately show ?thesis by blast
qed simp

lemma veml_write_ok:
  assumes "others_ok e" "bus_inv d" "light_answers e n" "veml_addr dev = 0x10"
  shows "\<exists>d'. VEML7700_I2C__sing_reg_write e d dev reg val = Some (True, d') \<and> bus_inv d'"
  using veml_transfer [OF assms(1-3), of "[reg, ucast (val AND 0xFF), ucast (drop_bit 8 val AND 0xFF)]" "[]"] assms(4)
  by (auto simp: veml_write_eq)

lemma write_regs_ok:
  assumes "others_ok e" "light_answers e n" "veml_addr dev = 0x10"
  shows "bus_inv d \<Longrightarrow> \<exists>d'. write_regs e dev is d = Some (True, d') \<and> bus_inv d'"
proof (induction "is" arbitrary: d)
  case (Cons i "is")
  obtain d1 where "VEML7700_I2C__sing_reg_write e d dev (word_of_nat i) (registerCache dev ! i) = Some (True, d1)" "bus_inv d1"
    using veml_write_ok [OF assms(1) Cons.prems assms(2,3)] by blast
  then show ?case using Cons.IH [of d1] by simp
qed simp

lemma veml_read_ok:
  assumes "others_ok e" "bus_inv d" "light_answers e n" "veml_addr dev = 0x10"
  shows "\<exists>d'. VEML7700_getALS e d dev =
    Some ((True, Some (ucast n), dev\<lparr>veml_dataRx := [ucast n, ucast (drop_bit 8 n)]\<rparr>), d') \<and> bus_inv d'"
proof -
  have m: "(0xff :: u32) = mask 8" by (simp add: mask_eq_exp_minus_1)
  have "push_bit 8 (ucast (ucast (drop_bit 8 n) :: u8)) OR (ucast (ucast n :: u8) AND 0xff) = (ucast n :: u32)"
    unfolding m by (rule bit_word_eqI) (auto simp: bit_simps dest: bit_imp_le_length)
  then show ?thesis
    using veml_transfer [OF assms(1-3), of "[VEML7700_COMMAND_ALS]" "veml_dataRx dev"] assms(4)
    by (auto simp: VEML7700_getALS_def veml_read_eq)
qed

lemma veml_init_ok:
  assumes "others_ok e" "bus_inv d" "light_answers e n" "veml_ready dev"
  shows "\<exists>d'. VEML7700_init e d dev = Some (True, d') \<and> bus_inv d'"
  unfolding VEML7700_init_def by (rule write_regs_ok [OF assms(1,3) veml_ready_simps(1) [OF assms(4)] assms(2)])

lemma regain_ok:
  assumes "others_ok e" "bus_inv d" "light_answers e n" "veml_ready dev"
  shows "\<exists>dev' d'. regain e d dev g marks = Some ((True, dev'), d') \<and> bus_inv d' \<and> veml_ready dev'"
  using veml_init_ok [OF assms] assms(4) by (cases marks) (auto simp: regain_def veml_ready_simps(4) [OF assms(4)])

text \<open>Whatever range the light is in, the gain stays as it is, and the illuminance follows from the counts.\<close>

lemma scaleLux_ok:
  assumes "others_ok e" "bus_inv d" "light_answers e n" "veml_ready dev"
  shows "\<exists>dev' d'. VEML7700_scaleLux e d dev c = Some ((True, dev'), d') \<and> bus_inv d' \<and> veml_ready dev' \<and>
    lux dev' = corrected (flt (flt (flt (of_int (uint c)) * 8) * flt (2304/10000)))"
proof -
  have f: "gain_factor (VEML7700_getGain dev AND 0x3) = 8" "time_factor (VEML7700_getIntegrationTime dev) = flt (2304/10000)"
    using veml_ready_simps(2,3) [OF assms(4)] by (simp_all add: gain_factor_def time_factor_def veml_consts)
  let ?k = "\<lambda>x. x \<bind> (\<lambda>((ok, dev), d). if \<not> ok then Some ((False, dev), d)
      else Some ((True, dev\<lparr>lux := corrected (flt (flt (flt (of_int (uint c)) * 8) * flt (2304/10000)))\<rparr>), d))"
  have k: "\<exists>dev' d'. ?k x = Some ((True, dev'), d') \<and> bus_inv d' \<and> veml_ready dev' \<and>
      lux dev' = corrected (flt (flt (flt (of_int (uint c)) * 8) * flt (2304/10000)))"
    if "\<exists>dev' d'. x = Some ((True, dev'), d') \<and> bus_inv d' \<and> veml_ready dev'" for x
    using that by auto
  show ?thesis unfolding VEML7700_scaleLux_def f Let_def
    by (rule k) (use regain_ok [OF assms] assms(2,4) in simp)
qed

text \<open>
  C11.  The illuminance a receiver decodes is that of the application note for the counts of the chip.  With a
  chip that answers, a round of the thread succeeds, whether or not it has to initialise the chip first; it posts one frame, unless all
  objects of the pool are under way; the receiver gets the number of the sensor and one value, which differs from the
  exact corrected illuminance by at most one lux and a hundred-thousandth of it, over the whole range of the counts.  The
  gain of the chip is still 1/8 afterwards: the choice of another gain for a darker or brighter scene has no effect.
\<close>

theorem telemetry_light:
  assumes "base \<noteq> 0" and "4 dvd base" and "base + 120 \<le> 2 ^ 32"
    and "shared_pools_init m base = Some p0" and "pipe_step\<^sup>*\<^sup>* (pipe_init p0) s" and "self \<notin> fst ` set (held s)"
    and "others_ok e" and "bus_inv d" and "light_answers e n" and "veml_ready (VEML7700_dev st)"
  shows "\<exists>st' d' s' v. VEML7700Thread_round e self st d s = Some (st', d', s') \<and> bus_inv d' \<and> pipe_step\<^sup>*\<^sup>* s s' \<and>
    hw_status (veml7700HW st') = HW_STATUS_OK \<and> veml_ready (VEML7700_dev st') \<and>
    VEML7700_getGain (VEML7700_dev st') = ucast VEML7700_ALS_GAIN_d8 \<and>
    (chPoolAlloc (stream_pool s) = Some (0, stream_pool s) \<and> posted s' = posted s \<or>
     (\<exists>f. posted s' = posted s @ [f] \<and> msp_receive f = Some (ucast (hw_id (veml7700HW st)), [v]))) \<and>
    \<bar>of_int (uint v) - exact_lux (ucast n)\<bar> \<le> 1 + exact_lux (ucast n) / 100000"
proof -
  let ?d1 = "if hw_status (veml7700HW st) = HW_STATUS_ERROR then map_option snd (VEML7700_init e d (VEML7700_dev st)) else Some d"
  obtain d1 where d1: "?d1 = Some d1" "bus_inv d1" 
    using veml_init_ok [OF assms(7-10)] assms(8) by (cases "hw_status (veml7700HW st) = HW_STATUS_ERROR") auto
  define dev1 where "dev1 = (VEML7700_dev st)\<lparr>veml_dataRx := [ucast n, ucast (drop_bit 8 n)], raw_counts := ucast n\<rparr>"
  have dev1: "veml_ready dev1" using assms(10) by (simp add: dev1_def)
  obtain d2 where d2: "VEML7700_getALS e d1 (VEML7700_dev st) =
      Some ((True, Some (ucast n), (VEML7700_dev st)\<lparr>veml_dataRx := [ucast n, ucast (drop_bit 8 n)]\<rparr>), d2)" "bus_inv d2"
    using veml_read_ok [OF assms(7) d1(2) assms(9) veml_ready_simps(1) [OF assms(10)]] by blast
  obtain dev' d' where d': "VEML7700_scaleLux e d2 dev1 (ucast n) = Some ((True, dev'), d')" "bus_inv d'" "veml_ready dev'"
      "lux dev' = corrected (flt (flt (flt (of_int (uint (ucast n :: u32))) * 8) * flt (2304/10000)))"
    using scaleLux_ok [OF assms(7) d2(2) assms(9) dev1] by blast
  have "uint (ucast n :: u32) = uint n" "uint n < 2 ^ LENGTH(16)" by (simp add: uint_up_ucast is_up, rule unsigned_less)
  then obtain v where v: "to_u32 (lux dev') = Some v" "\<bar>of_int (uint v) - exact_lux (ucast n)\<bar> \<le> 1 + exact_lux (ucast n) / 100000"
    using light_code [of "ucast n"] unfolding d'(4) by auto
  let ?id = "ucast (hw_id (veml7700HW st)) :: u8"
  obtain s' where s': "send_frame self ?id [v] s = Some s'" "pipe_step\<^sup>*\<^sup>* s s'"
      "chPoolAlloc (stream_pool s) = Some (0, stream_pool s) \<and> posted s' = posted s \<or>
       (\<exists>f. posted s' = posted s @ [f] \<and> msp_receive f = Some (?id, [v]))"
    using send_frame_received [OF assms(1-6), of "[v]" ?id] by auto
  have "\<exists>st'. VEML7700Thread_round e self st d s = Some (st', d', s') \<and> hw_status (veml7700HW st') = HW_STATUS_OK \<and> VEML7700_dev st' = dev'"
    unfolding VEML7700Thread_round_def d1(1) using d2(1) d'(1) v(1) s'(1) by (simp add: VEML7700_getALSLux_def dev1_def)
  then show ?thesis using s'(2,3) d'(2,3) v(2) veml_ready_simps(2) [OF d'(3)] by blast
qed

definition sim_light :: "unit i2c_env" where
  "sim_light = \<lparr>lld_transmit = \<lambda>w _ tx rx _. (MSG_OK, if tx = [VEML7700_COMMAND_ALS] then [0xE8, 0x03] else rx, w),
     lld_receive = \<lambda>w _ rx _. (MSG_OK, rx, w), lld_start = id, lld_stop = id, others = id, peek_state = i2c_state\<rparr>"

theorem telemetry_light_witness:
  "\<forall>st. \<exists>p0 st' d' s' f v. shared_pools_init (\<lambda>_. 0) 4096 = Some p0 \<and>
     VEML7700Thread_round sim_light 1 (Veml7700__thread_init 2 300 st\<lparr>veml7700HW := hw_zero\<lparr>hw_id := 2\<rparr>\<rparr>) sim_driver (pipe_init p0) = Some (st', d', s') \<and>
     posted s' = [f] \<and> msp_receive f = Some (2, [v]) \<and> \<bar>of_int (uint v) - exact_lux 1000\<bar> \<le> 1 + exact_lux 1000 / 100000"
proof
  fix st
  let ?st = "Veml7700__thread_init 2 300 st\<lparr>veml7700HW := hw_zero\<lparr>hw_id := 2\<rparr>\<rparr>"
  obtain p0 a q where p0: "shared_pools_init (\<lambda>_. 0) 4096 = Some p0" and a: "chPoolAlloc p0 = Some (a, q)" "a \<noteq> 0"
    by (rule first_object)
  have init: "held (pipe_init p0) = []" "posted (pipe_init p0) = []" "stream_pool (pipe_init p0) = p0" by (simp_all add: pipe_init_def)
  have pre: "(4096 :: nat) \<noteq> 0" "4 dvd (4096 :: nat)" "(4096 :: nat) + 120 \<le> 2 ^ 32" "1 \<notin> fst ` set (held (pipe_init p0))"
    "others_ok sim_light" "bus_inv sim_driver" "light_answers sim_light 1000" "veml_ready (VEML7700_dev ?st)"
    by (simp_all add: init others_ok_def sim_light_def bus_inv_def bus_usable_def sim_driver_def light_answers_def
        veml_ready_def Veml7700__thread_init_def VEML7700_init_default_params_def)
  obtain st' d' s' v where r: "VEML7700Thread_round sim_light 1 ?st sim_driver (pipe_init p0) = Some (st', d', s')"
      "chPoolAlloc p0 = Some (0, p0) \<and> posted s' = [] \<or> (\<exists>f. posted s' = [] @ [f] \<and> msp_receive f = Some (ucast (hw_id (veml7700HW ?st)), [v]))"
      "\<bar>of_int (uint v) - exact_lux (ucast (1000 :: u16))\<bar> \<le> 1 + exact_lux (ucast (1000 :: u16)) / 100000"
    using telemetry_light [OF pre(1-3) p0 rtranclp.rtrancl_refl pre(4-8)] unfolding init by (elim exE conjE) (rule that; assumption)
  then obtain f where "posted s' = [f]" "msp_receive f = Some (2, [v])" using a by auto
  moreover have "ucast (1000 :: u16) = (1000 :: u32)" by simp
  ultimately have fs: "posted s' = [f]" "msp_receive f = Some (2, [v])"
      "\<bar>of_int (uint v) - exact_lux 1000\<bar> \<le> 1 + exact_lux 1000 / 100000"
    using r(3) by (simp_all only:)
  note fs = p0 r(1) fs
  show "\<exists>p0 st' d' s' f v. shared_pools_init (\<lambda>_. 0) 4096 = Some p0 \<and>
     VEML7700Thread_round sim_light 1 ?st sim_driver (pipe_init p0) = Some (st', d', s') \<and>
     posted s' = [f] \<and> msp_receive f = Some (2, [v]) \<and> \<bar>of_int (uint v) - exact_lux 1000\<bar> \<le> 1 + exact_lux 1000 / 100000"
    by (intro exI conjI) (rule fs)+
qed

end
