(* ===== verification/Adc.thy ===== *)
theory Adc
  imports Firmware_Prelude
begin

text \<open>
  The analog converter of the processor: the HAL driver \<^verbatim>\<open>os/hal/src/hal_adc.c\<close>, the common code of its interrupts
  (\<^verbatim>\<open>os/hal/include/hal_adc.h\<close>) and the two interrupt handlers of the port (\<^verbatim>\<open>LLD/ADCv1/hal_adc_lld.c\<close>).

  Registers and DMA channel are an abstract state \<open>'h\<close> with functions as parameters.  A conversion group is a
  number; its fields, the callbacks included, are functions of it.  \<^verbatim>\<open>adcConvert\<close> suspends the thread; what
  wakes it is one of the events \<open>adc_event\<close>.  The theorems show that a waiting thread is woken by every
  event that ends its conversion, with the right message and exactly once, and that one kind of interrupt
  reads through a null pointer.
\<close>

section \<open>The code\<close>

datatype adcstate_t = ADC_UNINIT | ADC_STOP | ADC_READY | ADC_ACTIVE | ADC_COMPLETE | ADC_ERROR
datatype adcerror_t = ADC_ERR_DMAFAILURE | ADC_ERR_OVERFLOW | ADC_ERR_AWD

text \<open>\<open>sample_buf\<close> is the memory \<^verbatim>\<open>samples\<close> points to, \<open>resumed\<close> the threads woken so far and their messages.\<close>

record 'h ADCDriver =
  adc_state :: adcstate_t
  adc_config :: "nat option"
  adc_depth :: u32
  grpp :: "nat option"
  adc_thread :: "tid option"
  adc_mutex :: bool
  sample_buf :: "u16 list"
  adc_hw :: 'h
  resumed :: "(tid \<times> msg_t) list"

record 'h adc_env =
  circular :: "nat \<Rightarrow> bool"
  num_channels :: "nat \<Rightarrow> u8"
  end_cb :: "nat \<Rightarrow> ('h ADCDriver \<Rightarrow> 'h ADCDriver) option"
  error_cb :: "nat \<Rightarrow> (adcerror_t \<Rightarrow> 'h ADCDriver \<Rightarrow> 'h ADCDriver) option"
  hw_start :: "'h \<Rightarrow> 'h"
  hw_stop :: "'h \<Rightarrow> 'h"
  hw_start_conversion :: "u32 \<Rightarrow> 'h \<Rightarrow> 'h"
  hw_stop_conversion :: "'h \<Rightarrow> 'h"
  dma_left :: "'h \<Rightarrow> u32"

definition STM32_DMA_ISR_TCIF :: u32 where "STM32_DMA_ISR_TCIF = 0x2"
definition STM32_DMA_ISR_HTIF :: u32 where "STM32_DMA_ISR_HTIF = 0x4"
definition STM32_DMA_ISR_TEIF :: u32 where "STM32_DMA_ISR_TEIF = 0x8"
definition STM32_DMA_ISR_DMEIF :: u32 where "STM32_DMA_ISR_DMEIF = 0"
definition ADC_ISR_OVR :: u32 where "ADC_ISR_OVR = 0x10"
definition ADC_ISR_AWD1 :: u32 where "ADC_ISR_AWD1 = 0x80"

subsection \<open>Operations\<close>

definition adcObjectInit :: "'h ADCDriver \<Rightarrow> 'h ADCDriver" where
  "adcObjectInit d = d\<lparr>adc_state := ADC_STOP, adc_config := None, adc_depth := 0, grpp := None, adc_thread := None,
     adc_mutex := False\<rparr>"

definition adc_lld_start :: "'h adc_env \<Rightarrow> 'h ADCDriver \<Rightarrow> 'h ADCDriver" where
  "adc_lld_start e d = (if adc_state d = ADC_STOP then d\<lparr>adc_hw := hw_start e (adc_hw d)\<rparr> else d)"

definition adc_lld_stop :: "'h adc_env \<Rightarrow> 'h ADCDriver \<Rightarrow> 'h ADCDriver" where
  "adc_lld_stop e d = (if adc_state d = ADC_READY then d\<lparr>adc_hw := hw_stop e (adc_hw d)\<rparr> else d)"

definition adc_lld_stop_conversion :: "'h adc_env \<Rightarrow> 'h ADCDriver \<Rightarrow> 'h ADCDriver" where
  "adc_lld_stop_conversion e d = d\<lparr>adc_hw := hw_stop_conversion e (adc_hw d)\<rparr>"

definition adcStart :: "'h adc_env \<Rightarrow> 'h ADCDriver \<Rightarrow> nat option \<Rightarrow> 'h ADCDriver option" where
  "adcStart e d config = do {
     _ \<leftarrow> dbg_check (adc_state d = ADC_STOP \<or> adc_state d = ADC_READY);
     let d = adc_lld_start e (d\<lparr>adc_config := config\<rparr>);
     Some (d\<lparr>adc_state := ADC_READY\<rparr>) }"

definition adcStop :: "'h adc_env \<Rightarrow> 'h ADCDriver \<Rightarrow> 'h ADCDriver option" where
  "adcStop e d = do {
     _ \<leftarrow> dbg_check (adc_state d = ADC_STOP \<or> adc_state d = ADC_READY);
     let d = adc_lld_stop e d;
     Some (d\<lparr>adc_config := None, adc_state := ADC_STOP\<rparr>) }"

text \<open>The size of the transfer goes to the DMA channel.\<close>

definition adcStartConversionI :: "'h adc_env \<Rightarrow> 'h ADCDriver \<Rightarrow> nat \<Rightarrow> u32 \<Rightarrow> 'h ADCDriver option" where
  "adcStartConversionI e d g depth = do {
     _ \<leftarrow> dbg_check (0 < depth \<and> (depth = 1 \<or> depth AND 1 = 0));
     _ \<leftarrow> dbg_check (adc_state d = ADC_READY \<or> adc_state d = ADC_ERROR);
     let d = d\<lparr>adc_depth := depth, grpp := Some g, adc_state := ADC_ACTIVE\<rparr>;
     Some (d\<lparr>adc_hw := hw_start_conversion e (ucast (num_channels e g) * depth) (adc_hw d)\<rparr>) }"

definition adc_resume :: "msg_t \<Rightarrow> 'h ADCDriver \<Rightarrow> 'h ADCDriver" where
  "adc_resume msg d = (case adc_thread d of
       None \<Rightarrow> d
     | Some t \<Rightarrow> d\<lparr>adc_thread := None, resumed := resumed d @ [(t, msg)]\<rparr>)"

definition adcStopConversion :: "'h adc_env \<Rightarrow> 'h ADCDriver \<Rightarrow> 'h ADCDriver option" where
  "adcStopConversion e d = do {
     _ \<leftarrow> dbg_check (adc_state d = ADC_READY \<or> adc_state d = ADC_ACTIVE);
     Some (if adc_state d \<noteq> ADC_READY
           then adc_resume MSG_RESET ((adc_lld_stop_conversion e d)\<lparr>grpp := None, adc_state := ADC_READY\<rparr>) else d) }"

definition adcStopConversionI :: "'h adc_env \<Rightarrow> 'h ADCDriver \<Rightarrow> 'h ADCDriver option" where
  "adcStopConversionI e d = do {
     _ \<leftarrow> dbg_check (adc_state d = ADC_READY \<or> adc_state d = ADC_ACTIVE \<or> adc_state d = ADC_COMPLETE);
     Some (if adc_state d \<noteq> ADC_READY
           then adc_resume MSG_RESET ((adc_lld_stop_conversion e d)\<lparr>grpp := None, adc_state := ADC_READY\<rparr>) else d) }"

text \<open>\<^verbatim>\<open>adcConvert\<close> up to the suspension of the thread; the message it returns is the one it is resumed with.\<close>

definition adcConvert :: "'h adc_env \<Rightarrow> tid \<Rightarrow> 'h ADCDriver \<Rightarrow> nat \<Rightarrow> u32 \<Rightarrow> 'h ADCDriver option" where
  "adcConvert e self d g depth = do {
     _ \<leftarrow> dbg_check (adc_thread d = None);
     d \<leftarrow> adcStartConversionI e d g depth;
     Some (d\<lparr>adc_thread := Some self\<rparr>) }"

text \<open>A thread that finds the mutex taken waits.\<close>

definition adcAcquireBus :: "'h ADCDriver \<Rightarrow> 'h ADCDriver option" where
  "adcAcquireBus d = (if adc_mutex d then None else Some (d\<lparr>adc_mutex := True\<rparr>))"

definition adcReleaseBus :: "'h ADCDriver \<Rightarrow> 'h ADCDriver option" where
  "adcReleaseBus d = do { _ \<leftarrow> dbg_check (adc_mutex d); Some (d\<lparr>adc_mutex := False\<rparr>) }"

subsection \<open>Interrupts\<close>

text \<open>Every access to the group goes through \<^verbatim>\<open>grpp\<close>; \<open>None\<close> is the null pointer.\<close>

definition adc_isr_half_code :: "'h adc_env \<Rightarrow> 'h ADCDriver \<Rightarrow> 'h ADCDriver option" where
  "adc_isr_half_code e d = do {
     g \<leftarrow> grpp d;
     Some (case end_cb e g of None \<Rightarrow> d | Some cb \<Rightarrow> cb d) }"

definition adc_isr_full_code :: "'h adc_env \<Rightarrow> 'h ADCDriver \<Rightarrow> 'h ADCDriver option" where
  "adc_isr_full_code e d = do {
     g \<leftarrow> grpp d;
     Some (if circular e g
           then (case end_cb e g of
               None \<Rightarrow> d
             | Some cb \<Rightarrow> (let d = cb (d\<lparr>adc_state := ADC_COMPLETE\<rparr>) in
                 if adc_state d = ADC_COMPLETE then d\<lparr>adc_state := ADC_ACTIVE\<rparr> else d))
           else (let d = adc_lld_stop_conversion e d;
                     d = (case end_cb e g of
                         Some cb \<Rightarrow> (let d = cb (d\<lparr>adc_state := ADC_COMPLETE\<rparr>) in
                           if adc_state d = ADC_COMPLETE then d\<lparr>adc_state := ADC_READY, grpp := None\<rparr> else d)
                       | None \<Rightarrow> d\<lparr>adc_state := ADC_READY, grpp := None\<rparr>)
                 in adc_resume MSG_OK d)) }"

definition adc_isr_error_code :: "'h adc_env \<Rightarrow> adcerror_t \<Rightarrow> 'h ADCDriver \<Rightarrow> 'h ADCDriver option" where
  "adc_isr_error_code e err d = do {
     let d = adc_lld_stop_conversion e d;
     g \<leftarrow> grpp d;
     let d = (case error_cb e g of
         Some cb \<Rightarrow> (let d = cb err (d\<lparr>adc_state := ADC_ERROR\<rparr>) in
           if adc_state d = ADC_ERROR then d\<lparr>adc_state := ADC_READY, grpp := None\<rparr> else d)
       | None \<Rightarrow> d\<lparr>adc_state := ADC_READY, grpp := None\<rparr>);
     Some (adc_resume MSG_TIMEOUT d) }"

definition adc_lld_serve_rx_interrupt :: "'h adc_env \<Rightarrow> u32 \<Rightarrow> 'h ADCDriver \<Rightarrow> 'h ADCDriver option" where
  "adc_lld_serve_rx_interrupt e flags d =
     (if flags AND (STM32_DMA_ISR_TEIF OR STM32_DMA_ISR_DMEIF) \<noteq> 0 then adc_isr_error_code e ADC_ERR_DMAFAILURE d
      else if grpp d \<noteq> None then
        if flags AND STM32_DMA_ISR_TCIF \<noteq> 0 then adc_isr_full_code e d
        else if flags AND STM32_DMA_ISR_HTIF \<noteq> 0 then adc_isr_half_code e d
        else Some d
      else Some d)"

definition adc_lld_serve_interrupt :: "'h adc_env \<Rightarrow> u32 \<Rightarrow> 'h ADCDriver \<Rightarrow> 'h ADCDriver option" where
  "adc_lld_serve_interrupt e isr d =
     (if grpp d \<noteq> None then do {
        d \<leftarrow> (if isr AND ADC_ISR_OVR \<noteq> 0 \<and> 0 < dma_left e (adc_hw d)
              then adc_isr_error_code e ADC_ERR_OVERFLOW d else Some d);
        if isr AND ADC_ISR_AWD1 \<noteq> 0 then adc_isr_error_code e ADC_ERR_AWD d else Some d }
      else Some d)"

text \<open>What happens while a thread waits: the DMA channel writes a sample, or one of the interrupts comes.\<close>

datatype adc_event = Dma_write u16 | Dma_irq u32 | Adc_irq u32

fun adc_handle :: "'h adc_env \<Rightarrow> adc_event \<Rightarrow> 'h ADCDriver \<Rightarrow> 'h ADCDriver option" where
  "adc_handle e (Dma_write v) d = Some (d\<lparr>sample_buf := [v]\<rparr>)"
| "adc_handle e (Dma_irq flags) d = adc_lld_serve_rx_interrupt e flags d"
| "adc_handle e (Adc_irq isr) d = adc_lld_serve_interrupt e isr d"

fun adc_handle_all :: "'h adc_env \<Rightarrow> adc_event list \<Rightarrow> 'h ADCDriver \<Rightarrow> 'h ADCDriver option" where
  "adc_handle_all e [] d = Some d"
| "adc_handle_all e (ev # evs) d = do { d \<leftarrow> adc_handle e ev d; adc_handle_all e evs d }"
section \<open>Conversions and their ends\<close>

text \<open>The groups of the firmware: one conversion, no callbacks (\<^verbatim>\<open>adcgrpcfgDevice1\<close> in \<^verbatim>\<open>cfg/hw.c\<close>).\<close>

definition plain_group :: "'h adc_env \<Rightarrow> nat \<Rightarrow> bool" where
  "plain_group e g \<longleftrightarrow> \<not> circular e g \<and> end_cb e g = None \<and> error_cb e g = None"

inductive adc_step :: "'h adc_env \<Rightarrow> 'h ADCDriver \<Rightarrow> 'h ADCDriver \<Rightarrow> bool" for e where
  start: "adcStart e d c = Some d' \<Longrightarrow> adc_step e d d'"
| stop: "adcStop e d = Some d' \<Longrightarrow> adc_step e d d'"
| convert: "plain_group e g \<Longrightarrow> adcConvert e self d g depth = Some d' \<Longrightarrow> adc_step e d d'"
| cancel: "adcStopConversion e d = Some d' \<Longrightarrow> adc_step e d d'"
| event: "adc_handle e ev d = Some d' \<Longrightarrow> adc_step e d d'"
| acquire: "adcAcquireBus d = Some d' \<Longrightarrow> adc_step e d d'"
| release: "adcReleaseBus d = Some d' \<Longrightarrow> adc_step e d d'"

inductive_cases adc_stepE: "adc_step e d d'"

text \<open>A thread waits exactly while a conversion runs.\<close>

definition adc_inv :: "'h adc_env \<Rightarrow> 'h ADCDriver \<Rightarrow> bool" where
  "adc_inv e d \<longleftrightarrow> (case grpp d of
       None \<Rightarrow> (adc_state d = ADC_STOP \<or> adc_state d = ADC_READY) \<and> adc_thread d = None
     | Some g \<Rightarrow> adc_state d = ADC_ACTIVE \<and> plain_group e g \<and> adc_thread d \<noteq> None)"

lemmas adc_ops = adcStart_def adcStop_def adcStartConversionI_def adcConvert_def adcStopConversion_def adc_lld_start_def
  adc_lld_stop_def adc_lld_stop_conversion_def adc_resume_def adcAcquireBus_def adcReleaseBus_def Let_def

lemmas adc_isrs = adc_lld_serve_rx_interrupt_def adc_lld_serve_interrupt_def adc_isr_full_code_def adc_isr_half_code_def
  adc_isr_error_code_def adc_lld_stop_conversion_def adc_resume_def Let_def

text \<open>The message with which an event ends the conversion, and the pair of flags the handler does not expect.\<close>

fun ends_with :: "'h adc_env \<Rightarrow> 'h ADCDriver \<Rightarrow> adc_event \<Rightarrow> msg_t option" where
  "ends_with e d (Dma_write v) = None"
| "ends_with e d (Dma_irq flags) =
     (if flags AND STM32_DMA_ISR_TEIF \<noteq> 0 then Some MSG_TIMEOUT
      else if flags AND STM32_DMA_ISR_TCIF \<noteq> 0 then Some MSG_OK else None)"
| "ends_with e d (Adc_irq isr) =
     (if isr AND ADC_ISR_OVR \<noteq> 0 \<and> 0 < dma_left e (adc_hw d) \<or> isr AND ADC_ISR_AWD1 \<noteq> 0 then Some MSG_TIMEOUT else None)"

fun two_errors :: "'h adc_env \<Rightarrow> 'h ADCDriver \<Rightarrow> adc_event \<Rightarrow> bool" where
  "two_errors e d (Adc_irq isr) \<longleftrightarrow> isr AND ADC_ISR_OVR \<noteq> 0 \<and> 0 < dma_left e (adc_hw d) \<and> isr AND ADC_ISR_AWD1 \<noteq> 0"
| "two_errors e d ev \<longleftrightarrow> False"

lemma waiting_event:
  assumes "adc_inv e d" "adc_thread d = Some t" "\<not> two_errors e d ev"
  shows "\<exists>d'. adc_handle e ev d = Some d' \<and> (case ends_with e d ev of
      None \<Rightarrow> grpp d' = grpp d \<and> adc_state d' = ADC_ACTIVE \<and> adc_thread d' = Some t \<and> resumed d' = resumed d
    | Some msg \<Rightarrow> grpp d' = None \<and> adc_state d' = ADC_READY \<and> adc_thread d' = None \<and> resumed d' = resumed d @ [(t, msg)]) \<and>
    adc_mutex d' = adc_mutex d \<and> ((\<forall>v. ev \<noteq> Dma_write v) \<longrightarrow> sample_buf d' = sample_buf d)"
  using assms by (cases ev) (auto simp: adc_isrs adc_inv_def plain_group_def STM32_DMA_ISR_DMEIF_def split: option.splits)

lemma idle_event:
  assumes "adc_inv e d" "adc_thread d = None" "adc_handle e ev d = Some d'"
  shows "grpp d' = None \<and> adc_state d' = adc_state d \<and> adc_thread d' = None \<and> resumed d' = resumed d"
  using assms by (cases ev) (auto simp: adc_isrs adc_inv_def split: option.splits if_splits)

lemma two_errors_null:
  assumes "adc_inv e d" "two_errors e d ev"
  shows "adc_handle e ev d = None \<or> adc_thread d = None"
  using assms by (cases ev) (auto simp: adc_isrs adc_inv_def plain_group_def split: option.splits)

lemma adc_event_inv:
  assumes "adc_inv e d" "adc_handle e ev d = Some d'"
  shows "adc_inv e d'"
proof (cases "adc_thread d")
  case None
  then show ?thesis using idle_event [OF assms(1) None assms(2)] assms(1) by (auto simp: adc_inv_def split: option.splits)
next
  case (Some t)
  then have "\<not> two_errors e d ev" using two_errors_null assms by fastforce
  from waiting_event [OF assms(1) Some this] assms(2) show ?thesis
    using assms(1) Some by (cases "ends_with e d ev") (auto simp: adc_inv_def split: option.splits)
qed

lemma adc_step_inv: "adc_step e d d' \<Longrightarrow> adc_inv e d \<Longrightarrow> adc_inv e d'"
proof (induction rule: adc_step.induct)
  case (event ev d d')
  then show ?case using adc_event_inv by blast
qed (simp_all add: adc_ops adc_inv_def split: option.splits if_splits bind_splits, auto)

lemma adc_reachable: "(adc_step e)\<^sup>*\<^sup>* d d' \<Longrightarrow> adc_inv e d \<Longrightarrow> adc_inv e d'"
  by (induction rule: rtranclp_induct) (auto intro: adc_step_inv)

text \<open>
  C14.  No conversion is waited for in vain, and none is answered twice.  In every state the driver can reach, a
  thread waits exactly while a conversion runs.  Every event, apart from an interrupt with two errors at once,
  is then served; it wakes the thread with success when the transfer is complete, with a
  timeout on a transfer error, an overrun or the watchdog, and leaves the driver ready; any other event leaves
  thread and conversion alone.  When no thread waits, an event that is served wakes nobody and
  does not change the state.
\<close>

theorem adc_wakes_once:
  assumes "(adc_step e)\<^sup>*\<^sup>* (adcObjectInit d0) d"
  shows "(adc_thread d \<noteq> None \<longleftrightarrow> adc_state d = ADC_ACTIVE) \<and>
    (\<forall>t ev. adc_thread d = Some t \<and> \<not> two_errors e d ev \<longrightarrow>
      (\<exists>d'. adc_handle e ev d = Some d' \<and> (case ends_with e d ev of
          None \<Rightarrow> adc_state d' = ADC_ACTIVE \<and> adc_thread d' = Some t \<and> resumed d' = resumed d
        | Some msg \<Rightarrow> adc_state d' = ADC_READY \<and> adc_thread d' = None \<and> resumed d' = resumed d @ [(t, msg)]))) \<and>
    (\<forall>ev d'. adc_thread d = None \<and> adc_handle e ev d = Some d' \<longrightarrow>
      adc_state d' = adc_state d \<and> adc_thread d' = None \<and> resumed d' = resumed d)"
proof -
  have inv: "adc_inv e d" using adc_reachable [OF assms] by (simp add: adc_inv_def adcObjectInit_def)
  have w: "\<exists>d'. adc_handle e ev d = Some d' \<and> (case ends_with e d ev of
          None \<Rightarrow> adc_state d' = ADC_ACTIVE \<and> adc_thread d' = Some t \<and> resumed d' = resumed d
        | Some msg \<Rightarrow> adc_state d' = ADC_READY \<and> adc_thread d' = None \<and> resumed d' = resumed d @ [(t, msg)])"
    if "adc_thread d = Some t" "\<not> two_errors e d ev" for t ev
    using waiting_event [OF inv that] by (cases "ends_with e d ev") auto
  have "adc_thread d \<noteq> None \<longleftrightarrow> adc_state d = ADC_ACTIVE" using inv by (auto simp: adc_inv_def split: option.splits)
  then show ?thesis using w idle_event [OF inv] by blast
qed

text \<open>A converter without hardware state.\<close>

definition sim_converter :: "unit adc_env" where
  "sim_converter = \<lparr>circular = \<lambda>_. False, num_channels = \<lambda>_. 1, end_cb = \<lambda>_. None, error_cb = \<lambda>_. None, hw_start = id,
     hw_stop = id, hw_start_conversion = \<lambda>_. id, hw_stop_conversion = id, dma_left = \<lambda>_. 1\<rparr>"

theorem adc_wakes_once_witness:
  "\<forall>d0. \<exists>d d'. adcStart sim_converter (adcObjectInit d0) None \<bind> (\<lambda>d. adcConvert sim_converter 7 d 1 1) = Some d \<and>
     adc_handle sim_converter (Dma_irq STM32_DMA_ISR_TCIF) d = Some d' \<and> adc_thread d' = None \<and> resumed d' = resumed d @ [(7, MSG_OK)]"
proof
  fix d0 :: "unit ADCDriver"
  define d1 where "d1 = (adcObjectInit d0)\<lparr>adc_config := None, adc_state := ADC_READY\<rparr>"
  define d where "d = d1\<lparr>adc_depth := 1, grpp := Some 1, adc_state := ADC_ACTIVE, adc_thread := Some 7\<rparr>"
  have 1: "adcStart sim_converter (adcObjectInit d0) None = Some d1"
    by (simp add: adc_ops sim_converter_def d1_def adcObjectInit_def)
  have 2: "adcConvert sim_converter 7 d1 1 1 = Some d"
    by (simp add: adc_ops sim_converter_def d_def d1_def adcObjectInit_def)
  have "plain_group sim_converter 1" by (simp add: plain_group_def sim_converter_def)
  with 1 2 have "(adc_step sim_converter)\<^sup>*\<^sup>* (adcObjectInit d0) d"
    by (meson adc_step.start adc_step.convert r_into_rtranclp rtranclp.rtrancl_into_rtrancl)
  from adc_wakes_once [OF this] have "\<exists>d'. adc_handle sim_converter (Dma_irq STM32_DMA_ISR_TCIF) d = Some d' \<and>
      adc_thread d' = None \<and> resumed d' = resumed d @ [(7, MSG_OK)]"
    by (auto simp: d_def STM32_DMA_ISR_TCIF_def STM32_DMA_ISR_TEIF_def dest!: spec [of _ "Dma_irq 2"])
  then show "\<exists>d d'. adcStart sim_converter (adcObjectInit d0) None \<bind> (\<lambda>d. adcConvert sim_converter 7 d 1 1) = Some d \<and>
     adc_handle sim_converter (Dma_irq STM32_DMA_ISR_TCIF) d = Some d' \<and> adc_thread d' = None \<and> resumed d' = resumed d @ [(7, MSG_OK)]"
    using 1 2 by auto
qed

text \<open>
  An interrupt that reports an overrun and the watchdog at once, and a transfer error that comes after the
  conversion has ended, are served through a null pointer: the handler of the first error has cleared the conversion
  group, which the second one reads.
\<close>

theorem adc_null_group:
  assumes "(adc_step e)\<^sup>*\<^sup>* (adcObjectInit d0) d"
  shows "(adc_thread d \<noteq> None \<and> isr AND ADC_ISR_OVR \<noteq> 0 \<and> 0 < dma_left e (adc_hw d) \<and> isr AND ADC_ISR_AWD1 \<noteq> 0 \<longrightarrow>
      adc_handle e (Adc_irq isr) d = None) \<and>
    (adc_thread d = None \<and> flags AND STM32_DMA_ISR_TEIF \<noteq> 0 \<longrightarrow> adc_handle e (Dma_irq flags) d = None)"
proof -
  have inv: "adc_inv e d" using adc_reachable [OF assms] by (simp add: adc_inv_def adcObjectInit_def)
  then show ?thesis
    using two_errors_null [OF inv, of "Adc_irq isr"]
    by (auto simp: adc_inv_def adc_isrs STM32_DMA_ISR_DMEIF_def split: option.splits)
qed

theorem adc_null_group_witness:
  "\<forall>d0 :: unit ADCDriver. adc_handle sim_converter (Dma_irq STM32_DMA_ISR_TEIF) (adcObjectInit d0) = None"
proof
  fix d0 :: "unit ADCDriver"
  show "adc_handle sim_converter (Dma_irq STM32_DMA_ISR_TEIF) (adcObjectInit d0) = None"
    using adc_null_group [of sim_converter d0 "adcObjectInit d0" 0 STM32_DMA_ISR_TEIF]
    by (simp add: adcObjectInit_def STM32_DMA_ISR_TEIF_def)
qed

end
