(* ===== verification/Ml8511.thy ===== *)
theory Ml8511
  imports Sensors Adc
begin

text \<open>
  The ultraviolet sensor: the driver \<^verbatim>\<open>drivers/ml8511.c\<close> over the analog converter, and its thread
  \<^verbatim>\<open>threads/ml8511Thread.c\<close>.  The theorem follows a sample of the converter to the value a receiver decodes.
\<close>

section \<open>The code\<close>

definition ML8511_REFERENCE_VOLTAGE :: rat where "ML8511_REFERENCE_VOLTAGE = flt (95/100)"

text \<open>\<open>uv_line\<close> is the level of the enable line, \<open>None\<close> for \<^verbatim>\<open>LINE_NO_PIN\<close>; \<^verbatim>\<open>adcSample\<close> is the buffer of the
  converter.\<close>

record ml8511_cfg_t =
  adcGroup :: nat
  uv_line :: "bool option"
  isEnabled :: bool

definition ML8511_init :: "'h adc_env \<Rightarrow> ml8511_cfg_t \<Rightarrow> ml8511_cfg_t option" where
  "ML8511_init e cfg = do {
     _ \<leftarrow> dbg_check (num_channels e (adcGroup cfg) = 1);
     Some (cfg\<lparr>isEnabled := False\<rparr>) }"

definition ML8511_enable :: "ml8511_cfg_t \<Rightarrow> ml8511_cfg_t" where
  "ML8511_enable cfg = (if uv_line cfg \<noteq> None \<and> \<not> isEnabled cfg then cfg\<lparr>uv_line := Some True, isEnabled := True\<rparr> else cfg)"

definition ML8511_disable :: "ml8511_cfg_t \<Rightarrow> ml8511_cfg_t" where
  "ML8511_disable cfg = (if uv_line cfg \<noteq> None then cfg\<lparr>isEnabled := False, uv_line := Some False\<rparr> else cfg)"

text \<open>A sample of 0 gives an infinite quotient and the voltage 0.\<close>

definition uv_voltage :: "u16 \<Rightarrow> rat" where
  "uv_voltage sample = flt (if sample = 0 then 0 else dbl (flt (33/10) / dbl (4096 / of_int (uint sample))))"

definition uv_of_sample :: "u16 \<Rightarrow> rat" where
  "uv_of_sample sample = (
     let voltage = uv_voltage sample in
     if voltage \<le> ML8511_REFERENCE_VOLTAGE \<or> flt (28/10) < voltage then - 1
     else let voltage = flt (voltage - ML8511_REFERENCE_VOLTAGE) in flt (voltage * flt (15 / flt (18/10))))"

text \<open>The events \<open>evs\<close> are what happens while the thread waits in \<^verbatim>\<open>adcConvert\<close>; without one that wakes it the
  call does not return.\<close>

definition ML8511_getUV ::
    "'h adc_env \<Rightarrow> tid \<Rightarrow> adc_event list \<Rightarrow> ml8511_cfg_t \<Rightarrow> 'h ADCDriver \<Rightarrow> (rat \<times> ml8511_cfg_t \<times> 'h ADCDriver) option" where
  "ML8511_getUV e self evs cfg d = do {
     let cfg = ML8511_enable cfg;
     d \<leftarrow> adcAcquireBus d;
     d \<leftarrow> adcStart e d None;
     d \<leftarrow> adcConvert e self d (adcGroup cfg) 1;
     d \<leftarrow> adc_handle_all e evs d;
     msg \<leftarrow> (if adc_thread d = None then Some (snd (last (resumed d))) else None);
     d \<leftarrow> adcStop e d;
     d \<leftarrow> adcReleaseBus d;
     let cfg = ML8511_disable cfg;
     Some (if msg = MSG_OK then uv_of_sample (sample_buf d ! 0) else - 1, cfg, d) }"

definition ML8511_UV :: nat where "ML8511_UV = 0"

record uv_thread =
  driverCfg :: ml8511_cfg_t
  uv_hwId :: u32
  uv_interval :: u16
  ml8511HW :: hw_t

definition ML8511Thread_register :: "uv_thread \<Rightarrow> uv_thread" where
  "ML8511Thread_register st = (
     let hw = (ml8511HW st)\<lparr>hw_id := uv_hwId st, hw_type := VALUE_TYPE_SENSOR, hw_name := Some ''ML8511'', hw_status := HW_STATUS_UNKNOWN\<rparr>
     in st\<lparr>ml8511HW := name_value ML8511_UV VALUE_FORMATTER_100 ''UV'' hw\<rparr>)"

definition ML8511Thread_round ::
    "'h adc_env \<Rightarrow> tid \<Rightarrow> adc_event list \<Rightarrow> uv_thread \<Rightarrow> 'h ADCDriver \<Rightarrow> pipe \<Rightarrow> (uv_thread \<times> 'h ADCDriver \<times> pipe) option" where
  "ML8511Thread_round e self evs st d s = do {
     (uvLight, cfg, d) \<leftarrow> ML8511_getUV e self evs (driverCfg st) d;
     let st = st\<lparr>driverCfg := cfg\<rparr>;
     if 0 < uvLight then do {
       v \<leftarrow> to_u32 (flt (uvLight * 100));
       let hw = (set_value ML8511_UV v (ml8511HW st))\<lparr>hw_status := HW_STATUS_OK\<rparr>;
       s \<leftarrow> send_frame self (ucast (hw_id hw)) [v] s;
       Some (st\<lparr>ml8511HW := hw\<rparr>, d, s) }
     else Some (st\<lparr>ml8511HW := (ml8511HW st)\<lparr>hw_status := HW_STATUS_ERROR\<rparr>\<rparr>, d, s) }"

section \<open>The arithmetic\<close>

text \<open>Volts, and hundredths of mW per square centimetre above the reference voltage.\<close>

definition exact_voltage :: "u16 \<Rightarrow> rat" where "exact_voltage x = 33/10 * of_int (uint x) / 4096"

definition exact_uv :: "u16 \<Rightarrow> rat" where "exact_uv x = 100 * ((exact_voltage x - 95/100) * (25/3))"

lemma uv_voltage_near:
  assumes "uint x < 4096"
  shows "\<bar>uv_voltage x - exact_voltage x\<bar> \<le> 7/10000000"
proof (cases "x = 0")
  case False
  define n :: rat where "n = of_int (uint x)"
  have "1 \<le> uint x" using False by (rule uint_ge_1)
  then have "(of_int 1 :: rat) \<le> of_int (uint x)" "(of_int (uint x) :: rat) \<le> of_int 4095" using assms by (simp_all only: of_int_le_iff)
  then have n: "1 \<le> n" "n \<le> 4095" by (simp_all add: n_def del: of_int_uint)
  define q where "q = 4096 / n"
  define y where "y = dbl q"
  define a where "a = flt (33/10)"
  have q: "1 \<le> q" "q \<le> 4096" using n by (simp_all add: q_def field_simps)
  have y: "\<bar>y - q\<bar> \<le> 1/1000000000" unfolding y_def by (rule dbl_upto [of 4096]) (use q in linarith, use q in linarith, simp)
  have a: "\<bar>a - 33/10\<bar> \<le> 26/100000000" unfolding a_def by (rule flt_upto [of "33/10"]) simp_all
  have y1: "99/100 \<le> y" using y q by linarith
  have "a / y - a / q = a * (q - y) / (y * q)" using y1 q by (simp add: field_simps)
  moreover have "\<bar>a * (q - y)\<bar> \<le> 4 * (1/1000000000)" unfolding abs_mult
    by (intro mult_mono) (use a in linarith, use y in linarith, simp, simp)
  moreover have "99/100 * 1 \<le> y * q" using y1 q by (intro mult_mono) auto
  ultimately have "\<bar>a / y - a / q\<bar> \<le> 4 * (1/1000000000) / (99/100)"
    unfolding \<open>a / y - a / q = _\<close> abs_divide by (intro frac_le) auto
  then have d: "\<bar>a / y - a / q\<bar> \<le> 5/1000000000" by simp
  have "\<bar>(a - 33/10) * (n / 4096)\<bar> \<le> 26/100000000 * 1" unfolding abs_mult using a n by (intro mult_mono) auto
  moreover have "a / q - exact_voltage x = (a - 33/10) * (n / 4096)" by (simp add: q_def exact_voltage_def n_def field_simps)
  ultimately have "\<bar>a / q - exact_voltage x\<bar> \<le> 26/100000000" by (simp only: mult_1_right)
  moreover have "0 \<le> exact_voltage x" "exact_voltage x \<le> 33/10" using n by (simp_all add: exact_voltage_def n_def [symmetric] del: of_int_uint)
  ultimately have z: "\<bar>a / y - exact_voltage x\<bar> \<le> 27/100000000" "0 \<le> exact_voltage x" "exact_voltage x \<le> 33/10" using d by linarith+
  have v: "\<bar>dbl (a / y) - a / y\<bar> \<le> 1/1000000000" by (rule dbl_upto [of 4]) (use z in linarith, use z in linarith, simp)
  have w: "\<bar>flt (dbl (a / y)) - dbl (a / y)\<bar> \<le> 3/10000000" by (rule flt_upto [of 4]) (use v z in linarith, use v z in linarith, simp)
  have "uv_voltage x = flt (dbl (a / y))" using False by (simp add: uv_voltage_def a_def y_def q_def n_def del: of_int_uint)
  then show ?thesis using w v z(1) by linarith
qed (simp add: uv_voltage_def exact_voltage_def)

text \<open>Between the two thresholds the sample counts, outside it is refused.\<close>

lemma uv_refused:
  assumes "uint x < 4096" "uint x < 1180 \<or> 3475 < uint x"
  shows "uv_of_sample x = - 1"
proof -
  have "(of_int (uint x) :: rat) \<le> of_int 1179 \<or> (of_int 3476 :: rat) \<le> of_int (uint x)"
    using assms(2) unfolding of_int_le_iff by linarith
  then have "exact_voltage x \<le> 9499/10000 \<or> 28004/10000 \<le> exact_voltage x" by (auto simp: exact_voltage_def simp del: of_int_uint)
  moreover have "\<bar>flt (95/100) - 95/100\<bar> \<le> 2/10000000" "\<bar>flt (28/10) - 28/10\<bar> \<le> 3/10000000"
    by (rule flt_upto [of 1]; simp) (rule flt_upto [of 3]; simp)
  ultimately have "uv_voltage x \<le> flt (95/100) \<or> flt (28/10) < uv_voltage x" using uv_voltage_near [OF assms(1)] by linarith
  then show ?thesis by (simp add: uv_of_sample_def ML8511_REFERENCE_VOLTAGE_def)
qed

lemma uv_scale: "\<bar>flt (15 / flt (18/10)) - 25/3\<bar> \<le> 3/1000000"
proof -
  define c where "c = flt (18/10)"
  have c: "\<bar>c - 18/10\<bar> \<le> 2/10000000" unfolding c_def by (rule flt_upto [of 2]) simp_all
  then have c1: "1 \<le> c" by linarith
  then have "15 / c - 25/3 = 25/3 * (18/10 - c) / c" by (simp add: field_simps)
  moreover have "\<bar>25/3 * (18/10 - c)\<bar> = 25/3 * \<bar>c - 18/10\<bar>" unfolding abs_mult by (simp only: abs_minus_commute; simp)
  moreover have "25/3 * \<bar>c - 18/10\<bar> / \<bar>c\<bar> \<le> 25/3 * (2/10000000) / 1"
    by (intro frac_le mult_left_mono) (use c c1 in auto)
  ultimately have d: "\<bar>15 / c - 25/3\<bar> \<le> 17/10000000" by (simp add: abs_divide)
  have "\<bar>flt (15 / c) - 15 / c\<bar> \<le> 6/10000000" by (rule flt_upto [of 9]) (use d in linarith, use d in linarith, simp)
  then show ?thesis using d unfolding c_def by linarith
qed

lemma uv_code:
  assumes "1180 \<le> uint x" "uint x \<le> 3475"
  shows "0 < uv_of_sample x" and "\<exists>v. to_u32 (flt (uv_of_sample x * 100)) = Some v \<and> \<bar>of_int (uint v) - exact_uv x\<bar> \<le> 1 + 1/100"
proof -
  define V where "V = exact_voltage x"
  define u where "u = uv_voltage x"
  define r where "r = flt (95/100)"
  define w where "w = flt (u - r)"
  define k where "k = flt (15 / flt (18/10))"
  have "(of_int 1180 :: rat) \<le> of_int (uint x)" "(of_int (uint x) :: rat) \<le> of_int 3475" using assms by (simp_all only: of_int_le_iff)
  then have V: "9506/10000 \<le> V" "V \<le> 27998/10000" by (simp_all add: V_def exact_voltage_def del: of_int_uint)
  have u: "\<bar>u - V\<bar> \<le> 7/10000000" unfolding u_def V_def using assms by (intro uv_voltage_near) simp
  have r: "\<bar>r - 95/100\<bar> \<le> 2/10000000" unfolding r_def by (rule flt_upto [of 1]) simp_all
  have m: "\<bar>flt (28/10) - 28/10\<bar> \<le> 3/10000000" by (rule flt_upto [of 3]) simp_all
  have w: "\<bar>w - (u - r)\<bar> \<le> 2/10000000" unfolding w_def by (rule flt_upto [of 2]) (use u r V in linarith, use u r V in linarith, simp)
  then have w': "\<bar>w - (V - 95/100)\<bar> \<le> 11/10000000" using u r by linarith
  have k: "\<bar>k - 25/3\<bar> \<le> 3/1000000" unfolding k_def by (rule uv_scale)
  have "\<bar>w * (k - 25/3)\<bar> \<le> 2 * (3/1000000)" unfolding abs_mult by (intro mult_mono) (use w' V in linarith, use k in linarith, simp, simp)
  then have "\<bar>w * k - w * (25/3)\<bar> \<le> 6/1000000" by (simp only: right_diff_distrib; simp)
  then have p: "\<bar>w * k - (V * (25/3) - 95/12)\<bar> \<le> 16/1000000" using w' by linarith
  define z where "z = flt (w * k)"
  have z: "\<bar>z - w * k\<bar> \<le> 2/1000000" unfolding z_def by (rule flt_upto [of 16]) (use p V in linarith, use p V in linarith, simp)
  have "\<not> (u \<le> r \<or> flt (28/10) < u)" using u r m V by linarith
  then have uv: "uv_of_sample x = z"
    unfolding uv_of_sample_def ML8511_REFERENCE_VOLTAGE_def u_def [symmetric] r_def [symmetric] Let_def
    by (simp only: if_False w_def [symmetric] k_def [symmetric] z_def)
  have uvx: "exact_uv x = V * (2500/3) - 9500/12" by (simp add: exact_uv_def V_def algebra_simps)
  show "0 < uv_of_sample x" unfolding uv using z p V by linarith
  have y: "\<bar>flt (z * 100) - z * 100\<bar> \<le> 1/10000" by (rule flt_upto [of 1600]) (use z p V in linarith, use z p V in linarith, simp)
  have "\<bar>flt (z * 100) - exact_uv x\<bar> \<le> 1/100" using y z p unfolding uvx by linarith
  moreover have "0 \<le> exact_uv x" "exact_uv x < 4294967295" unfolding uvx using V by simp_all
  ultimately obtain v where "to_u32 (flt (z * 100)) = Some v" "exact_uv x - 1 - 1/100 < of_int (uint v)" "of_int (uint v) \<le> exact_uv x + 1/100"
    using to_u32_near [of "flt (z * 100)" "exact_uv x" "1/100"] by auto
  then show "\<exists>v. to_u32 (flt (uv_of_sample x * 100)) = Some v \<and> \<bar>of_int (uint v) - exact_uv x\<bar> \<le> 1 + 1/100"
    unfolding uv by (intro exI [of _ v] conjI) (assumption, linarith)
qed

section \<open>From the converter to the receiver\<close>

lemma getUV_ok:
  assumes "plain_group e (adcGroup cfg)" "adc_state d = ADC_STOP \<or> adc_state d = ADC_READY" "adc_thread d = None" "grpp d = None"
    and "\<not> adc_mutex d" "flags AND (STM32_DMA_ISR_TEIF OR STM32_DMA_ISR_TCIF) \<noteq> 0"
  shows "\<exists>cfg' d'. ML8511_getUV e self [Dma_write x, Dma_irq flags] cfg d =
      Some (if flags AND STM32_DMA_ISR_TEIF = 0 then uv_of_sample x else - 1, cfg', d') \<and> adcGroup cfg' = adcGroup cfg \<and>
    adc_state d' = ADC_STOP \<and> adc_thread d' = None \<and> grpp d' = None \<and> \<not> adc_mutex d'"
proof -
  have "flags AND STM32_DMA_ISR_TEIF \<noteq> 0 \<or> flags AND STM32_DMA_ISR_TCIF \<noteq> 0" using assms(6) by (auto simp: bit.conj_disj_distrib)
  then show ?thesis using assms(1-5)
    by (auto simp: ML8511_getUV_def adc_ops adc_isrs plain_group_def ML8511_enable_def ML8511_disable_def STM32_DMA_ISR_DMEIF_def)
qed

text \<open>
  C13.  The ultraviolet intensity a receiver decodes is that of the sample.  With a sample of twelve bits and an
  interrupt that ends the transfer, a round of the thread returns and leaves the converter stopped and free.  For a complete transfer and
  a sample from 1180 to 3475, the range of the sensor, it posts one frame, unless all objects of the pool are under way; the
  value differs from the exact intensity, in hundredths, by at most 1.01.  Otherwise the sensor is marked as failed and nothing
  is posted.
\<close>

theorem telemetry_uv:
  assumes "base \<noteq> 0" and "4 dvd base" and "base + 120 \<le> 2 ^ 32"
    and "shared_pools_init m base = Some p0" and "pipe_step\<^sup>*\<^sup>* (pipe_init p0) s" and "self \<notin> fst ` set (held s)"
    and "plain_group e (adcGroup (driverCfg st))" and "adc_state d = ADC_STOP" and "adc_thread d = None" and "grpp d = None"
    and "\<not> adc_mutex d" and "flags AND (STM32_DMA_ISR_TEIF OR STM32_DMA_ISR_TCIF) \<noteq> 0" and "uint x < 4096"
  shows "\<exists>st' d' s'. ML8511Thread_round e self [Dma_write x, Dma_irq flags] st d s = Some (st', d', s') \<and>
    adc_state d' = ADC_STOP \<and> adc_thread d' = None \<and> \<not> adc_mutex d' \<and> pipe_step\<^sup>*\<^sup>* s s' \<and>
    (if flags AND STM32_DMA_ISR_TEIF = 0 \<and> 1180 \<le> uint x \<and> uint x \<le> 3475
     then hw_status (ml8511HW st') = HW_STATUS_OK \<and>
       (chPoolAlloc (stream_pool s) = Some (0, stream_pool s) \<and> posted s' = posted s \<or>
        (\<exists>f v. posted s' = posted s @ [f] \<and> msp_receive f = Some (ucast (hw_id (ml8511HW st)), [v]) \<and>
          \<bar>of_int (uint v) - exact_uv x\<bar> \<le> 101/100))
     else hw_status (ml8511HW st') = HW_STATUS_ERROR \<and> s' = s)"
proof -
  let ?uv = "if flags AND STM32_DMA_ISR_TEIF = 0 then uv_of_sample x else - 1"
  obtain cfg' d' where g: "ML8511_getUV e self [Dma_write x, Dma_irq flags] (driverCfg st) d = Some (?uv, cfg', d')"
      "adc_state d' = ADC_STOP" "adc_thread d' = None" "\<not> adc_mutex d'"
    using getUV_ok [OF assms(7) _ assms(9-12), of self x] assms(8) by blast
  show ?thesis
  proof (cases "flags AND STM32_DMA_ISR_TEIF = 0 \<and> 1180 \<le> uint x \<and> uint x \<le> 3475")
    case True
    then obtain v where v: "to_u32 (flt (uv_of_sample x * 100)) = Some v" "\<bar>of_int (uint v) - exact_uv x\<bar> \<le> 1 + 1/100"
      using uv_code(2) by blast
    have uv: "?uv = uv_of_sample x" "0 < uv_of_sample x" using True uv_code(1) by auto
    let ?id = "ucast (hw_id (ml8511HW st)) :: u8"
    obtain s' where s': "send_frame self ?id [v] s = Some s'" "pipe_step\<^sup>*\<^sup>* s s'"
        "chPoolAlloc (stream_pool s) = Some (0, stream_pool s) \<and> posted s' = posted s \<or>
         (\<exists>f. posted s' = posted s @ [f] \<and> msp_receive f = Some (?id, [v]))"
      using send_frame_received [OF assms(1-6), of "[v]" ?id] by auto
    have "\<exists>st'. ML8511Thread_round e self [Dma_write x, Dma_irq flags] st d s = Some (st', d', s') \<and> hw_status (ml8511HW st') = HW_STATUS_OK"
      using g(1) v(1) s'(1) uv(2) unfolding uv(1) by (simp add: ML8511Thread_round_def)
    moreover have "\<bar>of_int (uint v) - exact_uv x\<bar> \<le> 101/100" using v(2) by simp
    ultimately show ?thesis unfolding if_P [OF True] using g(2-4) s'(2,3) by blast
  next
    case False
    then have "?uv = - 1" using uv_refused [OF assms(13)] by auto
    then have "\<exists>st'. ML8511Thread_round e self [Dma_write x, Dma_irq flags] st d s = Some (st', d', s) \<and> hw_status (ml8511HW st') = HW_STATUS_ERROR"
      using g(1) by (simp only: ML8511Thread_round_def) simp
    then show ?thesis unfolding if_not_P [OF False] using g(2-4) by blast
  qed
qed

theorem telemetry_uv_witness:
  "\<forall>st (d0 :: unit ADCDriver). \<exists>p0 st' d' s' f v. shared_pools_init (\<lambda>_. 0) 4096 = Some p0 \<and>
     ML8511Thread_round sim_converter 1 [Dma_write 2000, Dma_irq STM32_DMA_ISR_TCIF] (st\<lparr>ml8511HW := hw_zero\<lparr>hw_id := 3\<rparr>\<rparr>)
       (adcObjectInit d0) (pipe_init p0) = Some (st', d', s') \<and>
     posted s' = [f] \<and> msp_receive f = Some (3, [v]) \<and> \<bar>of_int (uint v) - exact_uv 2000\<bar> \<le> 101/100"
proof (intro allI)
  fix st :: uv_thread and d0 :: "unit ADCDriver"
  let ?st = "st\<lparr>ml8511HW := hw_zero\<lparr>hw_id := 3\<rparr>\<rparr>" and ?d = "adcObjectInit d0"
  obtain p0 a q where p0: "shared_pools_init (\<lambda>_. 0) 4096 = Some p0" and a: "chPoolAlloc p0 = Some (a, q)" "a \<noteq> 0"
    by (rule first_object)
  have init: "held (pipe_init p0) = []" "posted (pipe_init p0) = []" "stream_pool (pipe_init p0) = p0" by (simp_all add: pipe_init_def)
  have pre: "(4096 :: nat) \<noteq> 0" "4 dvd (4096 :: nat)" "(4096 :: nat) + 120 \<le> 2 ^ 32" "1 \<notin> fst ` set (held (pipe_init p0))"
    "plain_group sim_converter (adcGroup (driverCfg ?st))" "adc_state ?d = ADC_STOP" "adc_thread ?d = None" "grpp ?d = None" "\<not> adc_mutex ?d"
    "STM32_DMA_ISR_TCIF AND (STM32_DMA_ISR_TEIF OR STM32_DMA_ISR_TCIF) \<noteq> 0" "uint (2000 :: u16) < 4096"
    by (simp_all add: init plain_group_def sim_converter_def adcObjectInit_def STM32_DMA_ISR_TCIF_def STM32_DMA_ISR_TEIF_def)
  have yes: "STM32_DMA_ISR_TCIF AND STM32_DMA_ISR_TEIF = 0 \<and> 1180 \<le> uint (2000 :: u16) \<and> uint (2000 :: u16) \<le> 3475"
    by (simp add: STM32_DMA_ISR_TCIF_def STM32_DMA_ISR_TEIF_def)
  obtain st' d' s' where r: "ML8511Thread_round sim_converter 1 [Dma_write 2000, Dma_irq STM32_DMA_ISR_TCIF] ?st ?d (pipe_init p0) = Some (st', d', s')"
      "chPoolAlloc p0 = Some (0, p0) \<and> posted s' = [] \<or>
       (\<exists>f v. posted s' = [] @ [f] \<and> msp_receive f = Some (ucast (hw_id (ml8511HW ?st)), [v]) \<and> \<bar>of_int (uint v) - exact_uv 2000\<bar> \<le> 101/100)"
    using telemetry_uv [OF pre(1-3) p0 rtranclp.rtrancl_refl pre(4-11)] unfolding init if_P [OF yes] by (elim exE conjE) (rule that; assumption)
  then obtain f v where fv: "posted s' = [f]" "msp_receive f = Some (3, [v])" "\<bar>of_int (uint v) - exact_uv 2000\<bar> \<le> 101/100"
    using a by (auto simp del: of_int_uint)
  note fs = p0 r(1) fv
  show "\<exists>p0 st' d' s' f v. shared_pools_init (\<lambda>_. 0) 4096 = Some p0 \<and>
     ML8511Thread_round sim_converter 1 [Dma_write 2000, Dma_irq STM32_DMA_ISR_TCIF] ?st ?d (pipe_init p0) = Some (st', d', s') \<and>
     posted s' = [f] \<and> msp_receive f = Some (3, [v]) \<and> \<bar>of_int (uint v) - exact_uv 2000\<bar> \<le> 101/100"
    by (intro exI conjI) (rule fs)+
qed

end
