(* ===== verification/Spec2Isabelle.thy ===== *)
theory Spec2Isabelle
  imports Pipeline Ch_Sem Ch_Msg Station Veml7700 Ml8511
begin

text \<open>
  A verification development of the firmware of a solar weather station on an STM32L053
  (\<^verbatim>\<open>src/src\<close>) and of the parts of the ChibiOS/RT kernel and HAL it runs on (\<^verbatim>\<open>src/ChibiOS/os\<close>).

  \<^bold>\<open>The program.\<close>  Sensor threads measure at an interval, format their values as frames and hand them to a radio
  thread; a shell on a serial line lists and changes settings, which are kept in EEPROM.  A message
  object goes from a memory pool through the frame builder and a mailbox to the radio and back to the pool; the
  sensors share one I2C bus; every thread waits in the kernel for a message that changes its interval.

  \<^bold>\<open>The theories.\<close>
  \<^item> \<open>Firmware_Prelude\<close>: word types, checked memory accesses, \<^verbatim>\<open>chDbgCheck\<close>, byte order, checksums.
  \<^item> \<open>Ieee754\<close>: \<^verbatim>\<open>float\<close> and \<^verbatim>\<open>double\<close> arithmetic as correctly rounded rational arithmetic.
  \<^item> Kernel (\<^verbatim>\<open>os/rt\<close>, \<^verbatim>\<open>os/oslib\<close>): \<open>Ch_Time\<close> (\<^verbatim>\<open>chtime.h\<close>), \<open>Ch_Threads\<close> (thread queues),
    \<open>Ch_Lists\<close> (\<^verbatim>\<open>chlists.h\<close> as pointer code), \<open>Ch_Vt\<close> (\<^verbatim>\<open>chvt.c\<close>), \<open>Ch_Schd\<close> (\<^verbatim>\<open>chschd.c\<close>,
    \<^verbatim>\<open>chthreads.c\<close>), \<open>Ch_Msg\<close> (\<^verbatim>\<open>chmsg.c\<close>), \<open>Ch_Sem\<close> (\<^verbatim>\<open>chsem.c\<close>, \<^verbatim>\<open>chbsem.h\<close>), \<open>Ch_Mailbox\<close>
    (\<^verbatim>\<open>chmboxes.c\<close>), \<open>Ch_Pool\<close> (\<^verbatim>\<open>chmempools.c\<close>).
  \<^item> Drivers: \<open>I2c\<close> (\<^verbatim>\<open>hal_i2c.c\<close>), \<open>Adc\<close> (\<^verbatim>\<open>hal_adc.c\<close> and the interrupt handlers of
    \<^verbatim>\<open>ADCv1/hal_adc_lld.c\<close>), \<open>Ads1x15\<close>, \<open>Bmp280\<close>, \<open>Eeprom\<close> (\<^verbatim>\<open>src/src/drivers\<close>).
  \<^item> Application: \<open>Msp\<close> (\<^verbatim>\<open>msp.c\<close>), \<open>Pipeline\<close> (\<^verbatim>\<open>pools.c\<close> and the message path), \<open>Shell\<close>
    (\<^verbatim>\<open>shell.c\<close>), \<open>Printf\<close> (\<^verbatim>\<open>chprintf.c\<close>), \<open>Hc12\<close> (\<^verbatim>\<open>hc12Thread.c\<close>), \<open>Sensors\<close>
    (\<^verbatim>\<open>bmp280Thread.c\<close>, \<^verbatim>\<open>powerThread.c\<close>), \<open>Veml7700\<close> (\<^verbatim>\<open>veml7700.c\<close> and its thread), \<open>Ml8511\<close>
    (\<^verbatim>\<open>ml8511.c\<close> and its thread), \<open>Station\<close> (\<^verbatim>\<open>hwListThread.c\<close>, \<^verbatim>\<open>scheduleListThread.c\<close>, the loading of
    the configuration in \<^verbatim>\<open>main.c\<close>, the commands of \<^verbatim>\<open>shellCmd.c\<close>).

  \<^bold>\<open>How the code is modelled.\<close>  A C structure is a record with the fields of the source, an enumeration a
  datatype, an integer a word of its width, memory a list or a map of bytes where aliasing matters.
  A function of the source is a function of the same name that takes and returns the state it
  changes.  Its result is an \<open>option\<close>: \<open>None\<close> is a halt by a debug assertion, an access
  out of bounds, undefined behaviour or a loop that never ends.  The model is that of the debug build
  (\<^verbatim>\<open>src/src/CMakeLists.txt\<close>), in which \<^verbatim>\<open>CH_DBG_ENABLE_CHECKS\<close> and \<^verbatim>\<open>CH_DBG_ENABLE_ASSERTS\<close> are set.
  A call that may block is split at the sleep: the first part ends with \<open>Sleep\<close>, the rest
  is the definition with the suffix \<open>_resume\<close>.  Loops with a bound are \<open>fun\<close> or \<open>function\<close> with a
  termination proof, loops that wait for hardware are \<open>partial_function (option)\<close>, and their end is a
  theorem or refuted by one; no fuel is used.

  Hardware and whatever else is not source code is a record of functions on an abstract state, with what
  the code relies on as a predicate on that record (\<open>answers\<close>, \<open>light_answers\<close>, \<open>flash_ok\<close>, \<open>module_ok\<close>, \<open>others_ok\<close>); each is
  shown to be satisfiable by a simulated device in a witness.

  \<^bold>\<open>The interfaces.\<close>  The locale \<open>bounded_fifo\<close> is what the pipeline relies on of a mailbox, interpreted
  as \<open>mbox\<close>; \<open>block_pool\<close> what it relies on of a memory pool, interpreted as \<open>mpool\<close>; \<open>bus_client\<close> what every driver on the
  bus promises to the other threads, interpreted for the register accesses of the drivers.

  \<^bold>\<open>What is shown.\<close>
  \<^item> The message path: frames arrive complete, in order and undamaged under any interleaving; objects are neither lost nor
    duplicated; a receiver decodes what was sent and detects a damaged byte; the values decoded are
    those of the chip up to the stated rounding (\<open>Pipeline\<close>, \<open>Msp\<close>, \<open>Sensors\<close>, \<open>Veml7700\<close>, \<open>Ml8511\<close>).
  \<^item> The settings: an interval typed into the shell is in force at once and, once saved, after every later start (\<open>Station\<close>).
  \<^item> The kernel: mailbox, pool, queues and timers refine their abstract data types; the highest ready thread runs;
    equal priorities take turns; a binary semaphore excludes; a message and its answer reach their threads.
  \<^item> The drivers: compensation formulas against the datasheet, register fields, calibration, EEPROM round trip, termination of
    the waits that have a limit, wake-up of the thread that waits for a conversion.
  \<^item> Errors of the code, each with a reachable state or a concrete environment: waits without a limit, an
    assertion that fails because a check is commented out, a timer list that loses time, a message taken for a timeout, an unsigned voltage,
    a choice of the gain without effect, an interrupt handler that reads through a null pointer.

  \<^bold>\<open>Not modelled.\<close>  Start-up code, interrupt vectors, the context switch in assembler, clock and pin configuration
  and the low-level drivers of the peripherals (\<^verbatim>\<open>os/common\<close>, \<^verbatim>\<open>os/hal/ports\<close>): they act on
  hardware registers only; of the converter's port the interrupt handlers are modelled.  The drivers and threads of the
  sensors \<^verbatim>\<open>appCfg.h\<close> configures out (BH1750, AS3935, rain, wind).  The waiting on mutexes, which are flags of the bus models,
  the events and the allocation from the heap.  The command \<^verbatim>\<open>threads\<close>, which reads the stacks.  The parts of ChibiOS the configuration leaves out or the firmware does not call
  (demos, tests, other ports, file systems, USB, the NIL and SB kernels).  Infinities and NaN, which no
  computation of the firmware reaches.  Stack usage.
\<close>

end
